(* ===== verification/Prelude.thy ===== *)
theory Prelude
  imports Main "HOL-Library.Word" "HOL-Library.Monad_Syntax" "HOL-Library.Multiset"
begin

text \<open>
  Shared vocabulary of the development: the machine types of the C and C++ sources, the
  memory reads that may leave their buffer, and the generic lemmas on lists that several
  components use.

  Conventions. \<open>uint8_t\<close>, \<open>uint16_t\<close>, \<open>uint32_t\<close>, \<open>uint64_t\<close> are words of their width. An
  \<open>int64_t\<close> that is only stored and transmitted is a 64-bit word, read with \<open>sint\<close> where its
  sign matters. A \<open>std::vector<uint8_t>\<close> or a buffer with its length is a list of bytes.
  A function whose C text may execute undefined behaviour (a read outside a buffer, a NULL
  dereference, a signed overflow) returns an \<open>option\<close>: \<open>None\<close> means that undefined behaviour
  was executed.
\<close>

unbundle bit_operations_syntax

type_synonym byte = "8 word"
type_synonym u16 = "16 word"
type_synonym u32 = "32 word"
type_synonym u64 = "64 word"

named_theorems layout_simps "equations that walk through a byte layout"
named_theorems inv_intros "preservation lemmas of the components' invariants"

section \<open>Memory reads\<close>

definition rd :: "byte list \<Rightarrow> nat \<Rightarrow> byte option" where
  "rd mem p = (if p < length mem then Some (mem ! p) else None)"

definition rd_range :: "byte list \<Rightarrow> nat \<Rightarrow> nat \<Rightarrow> byte list option" where
  "rd_range mem p n = (if p + n \<le> length mem then Some (take n (drop p mem)) else None)"

lemma rd_append [layout_simps]:
  "rd (xs @ ys) p = (if p < length xs then rd xs p else rd ys (p - length xs))"
  by (auto simp: rd_def nth_append)

lemma rd_Cons [layout_simps]: "rd (x # xs) p = (if p = 0 then Some x else rd xs (p - 1))"
  by (cases p) (auto simp: rd_def)

lemma rd_Some_iff: "rd mem p = Some b \<longleftrightarrow> p < length mem \<and> b = mem ! p"
  by (auto simp: rd_def)

lemma rd_defined [simp]: "p < length mem \<Longrightarrow> rd mem p = Some (mem ! p)"
  by (simp add: rd_def)

lemma rd_range_append_right [layout_simps]:
  "length xs \<le> p \<Longrightarrow> rd_range (xs @ ys) p n = rd_range ys (p - length xs) n"
  by (auto simp: rd_range_def)

lemma rd_range_defined [simp]:
  "p + n \<le> length mem \<Longrightarrow> rd_range mem p n = Some (take n (drop p mem))"
  by (simp add: rd_range_def)

lemma rd_range_all [simp]: "n = length mem \<Longrightarrow> rd_range mem 0 n = Some mem"
  by (simp add: rd_range_def)

lemma rd_rangeD: "rd_range mem p n = Some bs \<Longrightarrow> length bs = n \<and> p + n \<le> length mem"
  by (auto simp: rd_range_def split: if_splits)

section \<open>Signed 32-bit arithmetic\<close>

text \<open>C's \<open>int\<close> addition: overflow is undefined behaviour.\<close>

definition i32_add :: "int \<Rightarrow> int \<Rightarrow> int option" where
  "i32_add a b =
     (if - (2 ^ 31) \<le> a + b \<and> a + b < 2 ^ 31 then Some (a + b) else None)"

lemma i32_add_defined [simp]:
  "- (2 ^ 31) \<le> a + b \<Longrightarrow> a + b < 2 ^ 31 \<Longrightarrow> i32_add a b = Some (a + b)"
  by (simp add: i32_add_def)

section \<open>The first index that satisfies a predicate\<close>

primrec find_idx :: "('a \<Rightarrow> bool) \<Rightarrow> 'a list \<Rightarrow> nat option" where
  "find_idx P [] = None"
| "find_idx P (x # xs) = (if P x then Some 0 else map_option Suc (find_idx P xs))"

lemma find_idx_None_iff: "find_idx P xs = None \<longleftrightarrow> (\<forall>x\<in>set xs. \<not> P x)"
  by (induction xs) auto

lemma find_idx_SomeD:
  "find_idx P xs = Some i \<Longrightarrow> i < length xs \<and> P (xs ! i) \<and> (\<forall>j<i. \<not> P (xs ! j))"
proof (induction xs arbitrary: i)
  case Nil
  then show ?case by simp
next
  case (Cons x xs)
  show ?case
  proof (cases "P x")
    case True
    with Cons.prems show ?thesis by simp
  next
    case False
    with Cons.prems obtain k where "find_idx P xs = Some k" and "i = Suc k" by auto
    with Cons.IH [of k] False show ?thesis by (auto simp: less_Suc_eq_0_disj)
  qed
qed

lemma find_idx_unique:
  assumes "i < length xs" and "P (xs ! i)" and "\<And>j. j < length xs \<Longrightarrow> P (xs ! j) \<Longrightarrow> j = i"
  shows "find_idx P xs = Some i"
proof (cases "find_idx P xs")
  case None
  with assms(1,2) show ?thesis by (simp add: find_idx_None_iff)
next
  case (Some k)
  then show ?thesis using find_idx_SomeD [OF Some] assms(3) by auto
qed

lemma find_idx_update_hit:
  "find_idx P xs = Some i \<Longrightarrow> P x \<Longrightarrow> find_idx P (xs[i := x]) = Some i"
proof (induction xs arbitrary: i)
  case (Cons y ys)
  then show ?case by (cases "P y") auto
qed simp

lemma find_idx_update_new:
  "find_idx P xs = None \<Longrightarrow> i < length xs \<Longrightarrow> P x \<Longrightarrow> find_idx P (xs[i := x]) = Some i"
proof (induction xs arbitrary: i)
  case (Cons y ys)
  then show ?case by (cases i) (auto split: if_splits)
qed simp

lemma find_idx_update_miss:
  "find_idx P xs = None \<Longrightarrow> \<not> P x \<Longrightarrow> find_idx P (xs[i := x]) = None"
  by (auto simp: find_idx_None_iff dest: set_update_subset_insert [THEN subsetD])

section \<open>Lists cut into chunks\<close>

text \<open>The part of a list at a multiple of a chunk length, and the list put together again.\<close>

definition chunk :: "nat \<Rightarrow> 'a list \<Rightarrow> nat \<Rightarrow> 'a list" where
  "chunk c xs i = take c (drop (i * c) xs)"

lemma length_chunk: "length (chunk c xs i) = min c (length xs - i * c)"
  by (simp add: chunk_def)

lemma concat_chunks_prefix:
  "concat (map (chunk c xs) [0..<k]) = take (k * c) xs"
proof (induction k)
  case 0
  then show ?case by simp
next
  case (Suc k)
  have "take (Suc k * c) xs = take (k * c) xs @ take c (drop (k * c) xs)"
    by (metis add.commute mult_Suc take_add)
  with Suc show ?case by (simp add: chunk_def)
qed

lemma concat_chunks:
  assumes "length xs \<le> k * c"
  shows "concat (map (chunk c xs) [0..<k]) = xs"
  using assms by (simp add: concat_chunks_prefix)

lemma ceil_div_bounds:
  fixes n c :: nat
  assumes "0 < c"
  shows "n \<le> ((n + c - 1) div c) * c" and "i < (n + c - 1) div c \<Longrightarrow> i * c < n"
proof -
  let ?q = "(n + c - 1) div c"
  have mod: "(n + c - 1) mod c < c" using assms by simp
  have eq: "?q * c + (n + c - 1) mod c = n + c - 1" by simp
  from mod eq show "n \<le> ?q * c" by linarith
  assume "i < ?q"
  then have "Suc i * c \<le> ?q * c" by (intro mult_le_mono1) simp
  then have "c + i * c \<le> ?q * c" by simp
  also have "\<dots> \<le> n + c - 1" using eq by linarith
  finally show "i * c < n" using assms by linarith
qed

section \<open>Words and naturals\<close>

lemma unat_of_nat_word [simp]:
  "n < 2 ^ LENGTH('a) \<Longrightarrow> unat (of_nat n :: 'a::len word) = n"
  by (simp add: unat_of_nat take_bit_nat_eq_self)

text \<open>Masking a byte out of a wider word, as the writers do, is a truncation.\<close>

lemma ucast_and_FF [simp]:
  fixes x :: "'a::len word"
  assumes "8 \<le> LENGTH('a)"
  shows "(ucast (x AND 0xFF) :: byte) = ucast x"
proof -
  have "(0xFF :: 'a word) = mask 8" by (simp add: mask_numeral)
  then have "x AND 0xFF = take_bit 8 x" by (simp only: take_bit_eq_mask)
  then show ?thesis by (auto intro!: bit_word_eqI simp: bit_simps)
qed

lemma uint_lt_of_unat: "unat w < n \<Longrightarrow> uint w < int n"
  by (metis of_nat_less_iff uint_nat)

lemma sint_small32:
  fixes w :: u32
  assumes "unat w < 2 ^ 31"
  shows "sint w = int (unat w)"
proof -
  have "uint w < 2 ^ 31" using uint_lt_of_unat [OF assms] by simp
  moreover have "- (2 ^ 31) \<le> uint w" by (rule order_trans [OF _ uint_ge_0]) simp
  ultimately have "signed_take_bit 31 (uint w) = uint w"
    by (rule signed_take_bit_int_eq_self [rotated])
  then show ?thesis by (simp add: sint_uint)
qed

end
