(* ===== verification/Bytes.thy ===== *)
theory Bytes
  imports Prelude
begin

text \<open>
  The big-endian integer codecs: the writers \<open>WriteBE16\<close>, \<open>WriteBE32\<close>, \<open>WriteBE64\<close> of the
  server (src/server/frame_protocol.cpp) and the readers \<open>read_be16\<close>, \<open>read_be32\<close>,
  \<open>read_be64\<close> of the browser side (src/wasm/frame_protocol.c). The locale \<open>be_codec\<close> is the
  contract between the two programs; each writer/reader pair is an interpretation of it.
\<close>

definition WriteBE16 :: "byte list \<Rightarrow> u16 \<Rightarrow> byte list" where
  "WriteBE16 buf val = buf @ [ucast (drop_bit 8 val)] @ [ucast (val AND 0xFF)]"

definition WriteBE32 :: "byte list \<Rightarrow> u32 \<Rightarrow> byte list" where
  "WriteBE32 buf val =
     buf @ [ucast (drop_bit 24 val AND 0xFF)] @ [ucast (drop_bit 16 val AND 0xFF)]
         @ [ucast (drop_bit 8 val AND 0xFF)] @ [ucast (val AND 0xFF)]"

definition WriteBE64 :: "byte list \<Rightarrow> u64 \<Rightarrow> byte list" where
  "WriteBE64 buf val =
     foldl (\<lambda>b i. b @ [ucast (drop_bit (i * 8) val AND 0xFF)]) buf (rev [0..<8])"

definition read_be16 :: "byte list \<Rightarrow> nat \<Rightarrow> u16 option" where
  "read_be16 mem p = do {
     b0 \<leftarrow> rd mem p;
     b1 \<leftarrow> rd mem (p + 1);
     Some (ucast (push_bit 8 (ucast b0 :: u32) OR ucast b1))
   }"

definition read_be32 :: "byte list \<Rightarrow> nat \<Rightarrow> u32 option" where
  "read_be32 mem p = do {
     b0 \<leftarrow> rd mem p;
     b1 \<leftarrow> rd mem (p + 1);
     b2 \<leftarrow> rd mem (p + 2);
     b3 \<leftarrow> rd mem (p + 3);
     Some (push_bit 24 (ucast b0) OR push_bit 16 (ucast b1) OR push_bit 8 (ucast b2) OR ucast b3)
   }"

text \<open>The loop of \<open>read_be64\<close>: \<open>val = (val << 8) | p[i]\<close> for each byte.\<close>

definition shift_in_byte :: "u64 \<Rightarrow> byte \<Rightarrow> u64" where
  "shift_in_byte val b = push_bit 8 val OR ucast b"

definition read_be64 :: "byte list \<Rightarrow> nat \<Rightarrow> u64 option" where
  "read_be64 mem p =
     fold (\<lambda>i acc. do { val \<leftarrow> acc; b \<leftarrow> rd mem (p + i); Some (shift_in_byte val b) })
       [0..<8] (Some 0)"

section \<open>The contract of a codec\<close>

locale be_codec =
  fixes width :: nat
    and wr :: "byte list \<Rightarrow> 'a \<Rightarrow> byte list"
    and re :: "byte list \<Rightarrow> nat \<Rightarrow> 'a option"
  assumes wr_append: "wr buf v = buf @ wr [] v"
    and length_wr: "length (wr [] v) = width"
    and re_wr_Nil: "re (wr [] v @ post) 0 = Some v"
    and re_append_right: "length pre \<le> p \<Longrightarrow> re (pre @ post) p = re post (p - length pre)"
    and re_defined_iff: "re mem p \<noteq> None \<longleftrightarrow> p + width \<le> length mem"
begin

lemma length_wr_buf: "length (wr buf v) = length buf + width"
  using wr_append [of buf v] length_wr [of v] by simp

lemma re_wr: "re (wr pre v @ post) (length pre) = Some v"
proof -
  have "re (pre @ wr [] v @ post) (length pre) = re (wr [] v @ post) 0"
    by (simp add: re_append_right)
  then show ?thesis using wr_append [of pre v] by (simp add: re_wr_Nil)
qed

lemma wr_inject: "wr [] v = wr [] w \<Longrightarrow> v = w"
  using re_wr_Nil [of v "[]"] re_wr_Nil [of w "[]"] by simp

lemma re_Cons: "0 < p \<Longrightarrow> re (x # xs) p = re xs (p - 1)"
  using re_append_right [of "[x]" p xs] by simp

lemma re_total: "p + width \<le> length mem \<Longrightarrow> \<exists>v. re mem p = Some v"
  using re_defined_iff [of mem p] by auto

end

section \<open>The codecs meet the contract\<close>

lemma shift_in_byte_drop_bit:
  "shift_in_byte (drop_bit (k + 8) v) (ucast (drop_bit k v)) = drop_bit k v"
  by (rule bit_word_eqI) (auto simp: shift_in_byte_def bit_simps)

lemma drop_bit_width: "drop_bit 64 (v :: u64) = 0"
  by (rule bit_word_eqI) (auto simp: bit_simps)

lemmas shift_in_byte_steps =
  shift_in_byte_drop_bit [of 56, simplified drop_bit_width, simplified]
  shift_in_byte_drop_bit [of 48, simplified] shift_in_byte_drop_bit [of 40, simplified]
  shift_in_byte_drop_bit [of 32, simplified] shift_in_byte_drop_bit [of 24, simplified]
  shift_in_byte_drop_bit [of 16, simplified] shift_in_byte_drop_bit [of 8, simplified]
  shift_in_byte_drop_bit [of 0, simplified]

lemma bind_None_right [simp]: "Option.bind x (\<lambda>_. None) = None"
  by (cases x) auto

lemma byte_pair_join:
  "ucast (push_bit 8 (ucast (ucast (drop_bit 8 v) :: byte) :: u32) OR ucast (ucast v :: byte)) = (v :: u16)"
  by (rule bit_word_eqI) (auto simp: bit_simps)

lemma byte_quad_join:
  fixes v :: u32
  shows "push_bit 24 (ucast (ucast (drop_bit 24 v) :: byte))
    OR push_bit 16 (ucast (ucast (drop_bit 16 v) :: byte))
    OR push_bit 8 (ucast (ucast (drop_bit 8 v) :: byte)) OR ucast (ucast v :: byte) = v"
    (is "?l = _")
proof (rule bit_word_eqI)
  fix n
  assume "n < LENGTH(32)"
  then have "n < 8 \<or> (8 \<le> n \<and> n < 16) \<or> (16 \<le> n \<and> n < 24) \<or> (24 \<le> n \<and> n < 32)" by auto
  then show "bit ?l n = bit v n" by (elim disjE) (auto simp: bit_simps)
qed

lemma rd_append_plus [simp]:
  "rd (pre @ post) (length pre + q) = rd post q"
  "rd (pre @ post) (Suc (Suc (length pre + q))) = rd post (Suc (Suc q))"
  by (simp_all add: rd_append)

interpretation be16: be_codec 2 WriteBE16 read_be16
proof unfold_locales
  fix v :: u16 and post
  show "read_be16 (WriteBE16 [] v @ post) 0 = Some v"
    by (simp add: WriteBE16_def read_be16_def rd_Cons byte_pair_join)
next
  fix pre post :: "byte list" and p
  assume "length pre \<le> p"
  then obtain q where "p = length pre + q" using le_Suc_ex by blast
  then show "read_be16 (pre @ post) p = read_be16 post (p - length pre)"
    by (simp add: read_be16_def add.assoc del: add_Suc_right)
qed (auto simp: WriteBE16_def read_be16_def rd_def)

interpretation be32: be_codec 4 WriteBE32 read_be32
proof unfold_locales
  fix v :: u32 and post
  show "read_be32 (WriteBE32 [] v @ post) 0 = Some v"
    by (simp add: WriteBE32_def read_be32_def rd_Cons byte_quad_join)
next
  fix pre post :: "byte list" and p
  assume "length pre \<le> p"
  then obtain q where "p = length pre + q" using le_Suc_ex by blast
  then show "read_be32 (pre @ post) p = read_be32 post (p - length pre)"
    by (simp add: read_be32_def add.assoc del: add_Suc_right)
qed (auto simp: WriteBE32_def read_be32_def rd_def)

interpretation be64: be_codec 8 WriteBE64 read_be64
proof unfold_locales
  fix buf :: "byte list" and v
  show "WriteBE64 buf v = buf @ WriteBE64 [] v"
    by (simp add: WriteBE64_def upt_rec)
  show "length (WriteBE64 [] v) = 8"
    by (simp add: WriteBE64_def upt_rec)
next
  fix v :: u64 and post
  show "read_be64 (WriteBE64 [] v @ post) 0 = Some v"
    by (simp add: WriteBE64_def read_be64_def rd_Cons upt_rec shift_in_byte_steps)
next
  fix pre post :: "byte list" and p
  assume "length pre \<le> p"
  then obtain q where "p = length pre + q" using le_Suc_ex by blast
  then show "read_be64 (pre @ post) p = read_be64 post (p - length pre)"
    by (simp add: read_be64_def add.assoc del: add_Suc_right)
next
  fix mem p
  show "(read_be64 mem p \<noteq> None) = (p + 8 \<le> length mem)"
    by (simp add: read_be64_def rd_def upt_rec)
qed

lemmas [layout_simps] = be16.re_append_right be32.re_append_right be64.re_append_right
  be16.re_wr_Nil be32.re_wr_Nil be64.re_wr_Nil be16.re_Cons be32.re_Cons be64.re_Cons
lemmas be_lengths [simp] = be16.length_wr be32.length_wr be64.length_wr
  be16.length_wr_buf be32.length_wr_buf be64.length_wr_buf

end
