(* ===== verification/FrameEncoder.thy ===== *)
theory FrameEncoder
  imports Bytes
begin

text \<open>
  The server's frame encoder: \<open>FrameProtocol\<close> of src/server/frame_protocol.h and
  src/server/frame_protocol.cpp. The enums are datatypes with their wire codes, the \<open>Write...\<close>
  functions append to the buffer they are given, and \<open>EncodeVideoFrame\<close> and
  \<open>EncodeAudioFrame\<close> cut a payload above the threshold into numbered fragments. The lemmas
  show that both encoders are instances of one reference encoder \<open>encode_media\<close>, and give
  the layout, the number and the sizes of the frames.
\<close>

section \<open>Constants and enumerations\<close>

definition PROTOCOL_MAGIC :: u16 where "PROTOCOL_MAGIC = 0xEB01"
definition PROTOCOL_VERSION :: byte where "PROTOCOL_VERSION = 1"
definition FIXED_HEADER_SIZE :: nat where "FIXED_HEADER_SIZE = 20"
definition FRAGMENT_THRESHOLD :: nat where "FRAGMENT_THRESHOLD = 16384"

definition FLAG_FRAGMENT :: byte where "FLAG_FRAGMENT = 0x01"
definition FLAG_HAS_COMMON :: byte where "FLAG_HAS_COMMON = 0x08"
definition COMMON_ABS_TIME :: byte where "COMMON_ABS_TIME = 0x01"

lemmas protocol_consts = PROTOCOL_MAGIC_def PROTOCOL_VERSION_def FIXED_HEADER_SIZE_def
  FRAGMENT_THRESHOLD_def FLAG_FRAGMENT_def FLAG_HAS_COMMON_def COMMON_ABS_TIME_def

datatype MsgType = VIDEO | AUDIO | IMAGE | METADATA | CONTROL
datatype VideoCodec = H264 | H265 | MJPEG
datatype AudioCodec = G711A | G711U | G726 | AAC
datatype SampleRateCode = RATE_8000 | RATE_16000 | RATE_44100 | RATE_48000
datatype VideoFrameType = IDR | I_FRAME | P_FRAME | B_FRAME | SPS_PPS | VPS

fun MsgType_code :: "MsgType \<Rightarrow> byte" where
  "MsgType_code VIDEO = 0x01"
| "MsgType_code AUDIO = 0x02"
| "MsgType_code IMAGE = 0x03"
| "MsgType_code METADATA = 0x04"
| "MsgType_code CONTROL = 0x05"

fun VideoCodec_code :: "VideoCodec \<Rightarrow> byte" where
  "VideoCodec_code H264 = 1"
| "VideoCodec_code H265 = 2"
| "VideoCodec_code MJPEG = 3"

fun AudioCodec_code :: "AudioCodec \<Rightarrow> byte" where
  "AudioCodec_code G711A = 1"
| "AudioCodec_code G711U = 2"
| "AudioCodec_code G726 = 3"
| "AudioCodec_code AAC = 4"

fun SampleRateCode_code :: "SampleRateCode \<Rightarrow> byte" where
  "SampleRateCode_code RATE_8000 = 0"
| "SampleRateCode_code RATE_16000 = 1"
| "SampleRateCode_code RATE_44100 = 2"
| "SampleRateCode_code RATE_48000 = 3"

fun VideoFrameType_code :: "VideoFrameType \<Rightarrow> byte" where
  "VideoFrameType_code IDR = 1"
| "VideoFrameType_code I_FRAME = 2"
| "VideoFrameType_code P_FRAME = 3"
| "VideoFrameType_code B_FRAME = 4"
| "VideoFrameType_code SPS_PPS = 5"
| "VideoFrameType_code VPS = 6"

section \<open>The header writers\<close>

definition WriteFixedHeader ::
  "byte list \<Rightarrow> MsgType \<Rightarrow> byte \<Rightarrow> u64 \<Rightarrow> byte \<Rightarrow> u32 \<Rightarrow> byte list" where
  "WriteFixedHeader buf msgType flags timestamp extLength payloadLength =
     WriteBE32 (WriteBE64 (WriteBE16 buf PROTOCOL_MAGIC
       @ [PROTOCOL_VERSION] @ [MsgType_code msgType] @ [flags]) timestamp
       @ [extLength]) payloadLength @ [0] @ [0]"

definition WriteCommonExtHeader :: "byte list \<Rightarrow> u64 \<Rightarrow> byte list" where
  "WriteCommonExtHeader buf absTimeMs = WriteBE64 (buf @ [10] @ [COMMON_ABS_TIME]) absTimeMs"

definition WriteVideoExtHeader :: "byte list \<Rightarrow> VideoCodec \<Rightarrow> VideoFrameType \<Rightarrow> byte list" where
  "WriteVideoExtHeader buf codec frameType =
     WriteBE16 (buf @ [VideoCodec_code codec] @ [VideoFrameType_code frameType]) 0"

definition WriteAudioExtHeader ::
  "byte list \<Rightarrow> AudioCodec \<Rightarrow> SampleRateCode \<Rightarrow> byte \<Rightarrow> byte list" where
  "WriteAudioExtHeader buf codec sampleRate channels =
     buf @ [AudioCodec_code codec] @ [SampleRateCode_code sampleRate] @ [channels] @ [0]"

definition WriteFragmentExtHeader :: "byte list \<Rightarrow> u16 \<Rightarrow> u16 \<Rightarrow> u16 \<Rightarrow> byte list" where
  "WriteFragmentExtHeader buf frameId fragmentIndex totalFragments =
     WriteBE16 (WriteBE16 (WriteBE16 buf frameId) fragmentIndex) totalFragments"

definition SampleRateToCode :: "int \<Rightarrow> SampleRateCode" where
  "SampleRateToCode sampleRate =
     (if sampleRate = 8000 then RATE_8000
      else if sampleRate = 16000 then RATE_16000
      else if sampleRate = 44100 then RATE_44100
      else if sampleRate = 48000 then RATE_48000
      else RATE_8000)"

section \<open>The encoders\<close>

text \<open>One pass of the fragment loop of \<open>EncodeVideoFrame\<close>, for fragment \<open>i\<close>.\<close>

definition VideoFragment ::
  "byte list \<Rightarrow> VideoCodec \<Rightarrow> VideoFrameType \<Rightarrow> u64 \<Rightarrow> u64 \<Rightarrow> u16 \<Rightarrow> u16 \<Rightarrow> nat \<Rightarrow> byte list" where
  "VideoFragment payload codec frameType timestampMs absTimeMs frameId totalFragments i =
    (let kCommonExtSize = 10; kVideoExtSize = 4; kFragExtSize = 6;
         offset = i * FRAGMENT_THRESHOLD;
         rest = length payload - offset;
         chunkSize = (if rest > FRAGMENT_THRESHOLD then FRAGMENT_THRESHOLD else rest);
         frame =
           (if i = 0 then
              WriteVideoExtHeader
               (WriteCommonExtHeader
                (WriteFragmentExtHeader
                 (WriteFixedHeader [] VIDEO (FLAG_FRAGMENT OR FLAG_HAS_COMMON) timestampMs
                   (kFragExtSize + kCommonExtSize + kVideoExtSize) (of_nat chunkSize))
                 frameId (of_nat i) totalFragments)
                absTimeMs)
               codec frameType
            else
              WriteFragmentExtHeader
               (WriteFixedHeader [] VIDEO FLAG_FRAGMENT timestampMs kFragExtSize
                 (of_nat chunkSize))
               frameId (of_nat i) totalFragments)
     in frame @ take chunkSize (drop offset payload))"

definition EncodeVideoFrame ::
  "byte list \<Rightarrow> VideoCodec \<Rightarrow> VideoFrameType \<Rightarrow> u64 \<Rightarrow> u64 \<Rightarrow> u16 \<Rightarrow> byte list list" where
  "EncodeVideoFrame payload codec frameType timestampMs absTimeMs frameId =
    (let kCommonExtSize = 10; kVideoExtSize = 4 in
     if length payload \<le> FRAGMENT_THRESHOLD then
       [WriteVideoExtHeader
         (WriteCommonExtHeader
           (WriteFixedHeader [] VIDEO FLAG_HAS_COMMON timestampMs
             (kCommonExtSize + kVideoExtSize) (of_nat (length payload)))
           absTimeMs)
         codec frameType @ payload]
     else
       let totalFragments =
             (of_nat ((length payload + FRAGMENT_THRESHOLD - 1) div FRAGMENT_THRESHOLD) :: u16)
       in map (VideoFragment payload codec frameType timestampMs absTimeMs frameId totalFragments)
            [0..<unat totalFragments])"

text \<open>One pass of the fragment loop of \<open>EncodeAudioFrame\<close>, for fragment \<open>i\<close>.\<close>

definition AudioFragment ::
  "byte list \<Rightarrow> AudioCodec \<Rightarrow> SampleRateCode \<Rightarrow> byte \<Rightarrow> u64 \<Rightarrow> u64 \<Rightarrow> u16 \<Rightarrow> u16 \<Rightarrow> nat
    \<Rightarrow> byte list" where
  "AudioFragment payload codec sampleRate channels timestampMs absTimeMs frameId totalFragments i =
    (let kCommonExtSize = 10; kAudioExtSize = 4; kFragExtSize = 6;
         offset = i * FRAGMENT_THRESHOLD;
         rest = length payload - offset;
         chunkSize = (if rest > FRAGMENT_THRESHOLD then FRAGMENT_THRESHOLD else rest);
         frame =
           (if i = 0 then
              WriteAudioExtHeader
               (WriteCommonExtHeader
                (WriteFragmentExtHeader
                 (WriteFixedHeader [] AUDIO (FLAG_FRAGMENT OR FLAG_HAS_COMMON) timestampMs
                   (kFragExtSize + kCommonExtSize + kAudioExtSize) (of_nat chunkSize))
                 frameId (of_nat i) totalFragments)
                absTimeMs)
               codec sampleRate channels
            else
              WriteFragmentExtHeader
               (WriteFixedHeader [] AUDIO FLAG_FRAGMENT timestampMs kFragExtSize
                 (of_nat chunkSize))
               frameId (of_nat i) totalFragments)
     in frame @ take chunkSize (drop offset payload))"

definition EncodeAudioFrame ::
  "byte list \<Rightarrow> AudioCodec \<Rightarrow> SampleRateCode \<Rightarrow> byte \<Rightarrow> u64 \<Rightarrow> u64 \<Rightarrow> u16 \<Rightarrow> byte list list" where
  "EncodeAudioFrame payload codec sampleRate channels timestampMs absTimeMs frameId =
    (let kCommonExtSize = 10; kAudioExtSize = 4 in
     if length payload \<le> FRAGMENT_THRESHOLD then
       [WriteAudioExtHeader
         (WriteCommonExtHeader
           (WriteFixedHeader [] AUDIO FLAG_HAS_COMMON timestampMs
             (kCommonExtSize + kAudioExtSize) (of_nat (length payload)))
           absTimeMs)
         codec sampleRate channels @ payload]
     else
       let totalFragments =
             (of_nat ((length payload + FRAGMENT_THRESHOLD - 1) div FRAGMENT_THRESHOLD) :: u16)
       in map (AudioFragment payload codec sampleRate channels timestampMs absTimeMs frameId
                 totalFragments)
            [0..<unat totalFragments])"

section \<open>A reference encoder for both media\<close>

definition fixed_header :: "MsgType \<Rightarrow> byte \<Rightarrow> u64 \<Rightarrow> byte \<Rightarrow> u32 \<Rightarrow> byte list" where
  "fixed_header mt flags ts ext len =
     WriteBE16 [] PROTOCOL_MAGIC @ [PROTOCOL_VERSION, MsgType_code mt, flags]
       @ WriteBE64 [] ts @ [ext] @ WriteBE32 [] len @ [0, 0]"

definition common_ext :: "u64 \<Rightarrow> byte list" where
  "common_ext absTime = [10, COMMON_ABS_TIME] @ WriteBE64 [] absTime"

definition fragment_ext :: "u16 \<Rightarrow> u16 \<Rightarrow> u16 \<Rightarrow> byte list" where
  "fragment_ext fid i tot = WriteBE16 [] fid @ WriteBE16 [] i @ WriteBE16 [] tot"

definition n_fragments :: "nat \<Rightarrow> nat" where
  "n_fragments n = (n + FRAGMENT_THRESHOLD - 1) div FRAGMENT_THRESHOLD"

definition media_fragment ::
  "MsgType \<Rightarrow> byte list \<Rightarrow> byte list \<Rightarrow> u64 \<Rightarrow> u64 \<Rightarrow> u16 \<Rightarrow> u16 \<Rightarrow> nat \<Rightarrow> byte list" where
  "media_fragment mt typeExt payload ts absTime fid tot i =
     (let c = chunk FRAGMENT_THRESHOLD payload i in
      if i = 0 then
        fixed_header mt (FLAG_FRAGMENT OR FLAG_HAS_COMMON) ts 20 (of_nat (length c))
          @ fragment_ext fid (of_nat i) tot @ common_ext absTime @ typeExt @ c
      else
        fixed_header mt FLAG_FRAGMENT ts 6 (of_nat (length c))
          @ fragment_ext fid (of_nat i) tot @ c)"

definition encode_media ::
  "MsgType \<Rightarrow> byte list \<Rightarrow> byte list \<Rightarrow> u64 \<Rightarrow> u64 \<Rightarrow> u16 \<Rightarrow> byte list list" where
  "encode_media mt typeExt payload ts absTime fid =
     (if length payload \<le> FRAGMENT_THRESHOLD then
        [fixed_header mt FLAG_HAS_COMMON ts 14 (of_nat (length payload))
           @ common_ext absTime @ typeExt @ payload]
      else
        let tot = (of_nat (n_fragments (length payload)) :: u16)
        in map (media_fragment mt typeExt payload ts absTime fid tot) [0..<unat tot])"

definition video_ext :: "VideoCodec \<Rightarrow> VideoFrameType \<Rightarrow> byte list" where
  "video_ext codec ft = [VideoCodec_code codec, VideoFrameType_code ft] @ WriteBE16 [] 0"

definition audio_ext :: "AudioCodec \<Rightarrow> SampleRateCode \<Rightarrow> byte \<Rightarrow> byte list" where
  "audio_ext codec rate channels =
     [AudioCodec_code codec, SampleRateCode_code rate, channels, 0]"

section \<open>The writers append\<close>

lemma WriteFixedHeader_append:
  "WriteFixedHeader buf mt flags ts ext len = buf @ fixed_header mt flags ts ext len"
  using be16.wr_append [of buf] be64.wr_append [of "buf @ _"] be32.wr_append [of "buf @ _"]
  by (simp add: WriteFixedHeader_def fixed_header_def)

lemma WriteCommonExtHeader_append: "WriteCommonExtHeader buf t = buf @ common_ext t"
  using be64.wr_append [of "buf @ _"] by (simp add: WriteCommonExtHeader_def common_ext_def)

lemma WriteVideoExtHeader_append: "WriteVideoExtHeader buf c ft = buf @ video_ext c ft"
  using be16.wr_append [of "buf @ _"] by (simp add: WriteVideoExtHeader_def video_ext_def)

lemma WriteAudioExtHeader_append: "WriteAudioExtHeader buf c r n = buf @ audio_ext c r n"
  by (simp add: WriteAudioExtHeader_def audio_ext_def)

lemma WriteFragmentExtHeader_append:
  "WriteFragmentExtHeader buf fid i tot = buf @ fragment_ext fid i tot"
  unfolding WriteFragmentExtHeader_def fragment_ext_def
  by (subst be16.wr_append, subst be16.wr_append, subst be16.wr_append) simp

lemmas writers_append = WriteFixedHeader_append WriteCommonExtHeader_append
  WriteVideoExtHeader_append WriteAudioExtHeader_append WriteFragmentExtHeader_append

lemma ext_lengths [simp]:
  "length (fixed_header mt flags ts ext len) = FIXED_HEADER_SIZE"
  "length (common_ext t) = 10"
  "length (fragment_ext fid i tot) = 6"
  "length (video_ext c ft) = 4"
  "length (audio_ext ac r n) = 4"
  by (simp_all add: fixed_header_def common_ext_def fragment_ext_def video_ext_def
      audio_ext_def FIXED_HEADER_SIZE_def)

section \<open>Both encoders are the reference encoder\<close>

lemma take_length_chunk [simp]:
  "take (length (chunk n xs i)) (drop (i * n) xs) = chunk n xs i"
  "take (length (chunk n xs 0)) xs = chunk n xs 0"
  by (auto simp: chunk_def min_def)

lemma chunk_size_as_code:
  "(if n < length xs - i * n then n else length xs - i * n) = length (chunk n xs i)"
  by (auto simp: length_chunk)

lemma VideoFragment_eq:
  "VideoFragment payload codec ft ts absTime fid tot i =
     media_fragment VIDEO (video_ext codec ft) payload ts absTime fid tot i"
  unfolding VideoFragment_def media_fragment_def Let_def writers_append chunk_size_as_code
  by simp

lemma AudioFragment_eq:
  "AudioFragment payload codec rate ch ts absTime fid tot i =
     media_fragment AUDIO (audio_ext codec rate ch) payload ts absTime fid tot i"
  unfolding AudioFragment_def media_fragment_def Let_def writers_append chunk_size_as_code
  by simp

lemma EncodeVideoFrame_eq:
  "EncodeVideoFrame payload codec ft ts absTime fid =
     encode_media VIDEO (video_ext codec ft) payload ts absTime fid"
  by (simp add: EncodeVideoFrame_def encode_media_def Let_def writers_append n_fragments_def
      VideoFragment_eq)

lemma EncodeAudioFrame_eq:
  "EncodeAudioFrame payload codec rate ch ts absTime fid =
     encode_media AUDIO (audio_ext codec rate ch) payload ts absTime fid"
  by (simp add: EncodeAudioFrame_def encode_media_def Let_def writers_append n_fragments_def
      AudioFragment_eq)

section \<open>Numbers and sizes of frames\<close>

lemma n_fragments_pos: "0 < n \<Longrightarrow> 0 < n_fragments n"
  by (simp add: n_fragments_def FRAGMENT_THRESHOLD_def div_greater_zero_iff)

lemma n_fragments_covers: "n \<le> n_fragments n * FRAGMENT_THRESHOLD"
  unfolding n_fragments_def by (rule ceil_div_bounds) (simp add: FRAGMENT_THRESHOLD_def)

lemma n_fragments_le:
  "n \<le> k * FRAGMENT_THRESHOLD \<Longrightarrow> n_fragments n \<le> k"
  unfolding n_fragments_def FRAGMENT_THRESHOLD_def by (simp add: less_mult_imp_div_less less_Suc_eq_le [symmetric])

lemma unat_n_fragments:
  assumes "n \<le> 65535 * FRAGMENT_THRESHOLD"
  shows "unat (of_nat (n_fragments n) :: u16) = n_fragments n"
  using n_fragments_le [OF assms] by simp

text \<open>The payload of a frame is what follows the fixed header and \<open>ext_length\<close> more bytes.\<close>

definition frame_body :: "byte list \<Rightarrow> byte list" where
  "frame_body f = drop (FIXED_HEADER_SIZE + unat (f ! 13)) f"

lemma fixed_header_nth_13: "(fixed_header mt flags ts ext len @ xs) ! 13 = ext"
  by (simp add: fixed_header_def nth_append)

lemma frame_body_header:
  "length e = unat ext \<Longrightarrow> frame_body (fixed_header mt flags ts ext len @ e @ p) = p"
  by (simp add: frame_body_def fixed_header_nth_13)

lemma frame_body_fragment:
  assumes "length typeExt = 4"
  shows "frame_body (media_fragment mt typeExt payload ts absTime fid tot i)
    = chunk FRAGMENT_THRESHOLD payload i"
  using assms frame_body_header [of "fragment_ext fid 0 tot @ common_ext absTime @ typeExt" 20]
    frame_body_header [of "fragment_ext fid (of_nat i) tot" 6]
  by (simp add: media_fragment_def Let_def)

lemma encode_media_lossless:
  assumes "length typeExt = 4" and "length payload \<le> 65535 * FRAGMENT_THRESHOLD"
  shows "concat (map frame_body (encode_media mt typeExt payload ts absTime fid)) = payload"
proof (cases "length payload \<le> FRAGMENT_THRESHOLD")
  case True
  then show ?thesis
    using assms(1) frame_body_header [of "common_ext absTime @ typeExt" 14]
    by (simp add: encode_media_def)
next
  case False
  with assms show ?thesis
    by (simp add: encode_media_def Let_def o_def frame_body_fragment unat_n_fragments
        concat_chunks n_fragments_covers)
qed

lemma media_fragment_length:
  assumes "length typeExt = 4"
  shows "length (media_fragment mt typeExt payload ts absTime fid tot i)
    \<le> FIXED_HEADER_SIZE + 20 + FRAGMENT_THRESHOLD"
  using assms by (auto simp: media_fragment_def Let_def length_chunk)

lemma encode_media_frame_bound:
  assumes "length typeExt = 4" and "f \<in> set (encode_media mt typeExt payload ts absTime fid)"
  shows "length f \<le> FIXED_HEADER_SIZE + 20 + FRAGMENT_THRESHOLD"
  using assms media_fragment_length [OF assms(1)]
  by (auto simp: encode_media_def Let_def split: if_splits)

lemma encode_media_count:
  assumes "length payload \<le> 65535 * FRAGMENT_THRESHOLD"
  shows "length (encode_media mt typeExt payload ts absTime fid)
    = (if length payload \<le> FRAGMENT_THRESHOLD then 1 else n_fragments (length payload))"
  using assms by (simp add: encode_media_def Let_def unat_n_fragments)

end
