(* ===== verification/FrameParser.thy ===== *)
theory FrameParser
  imports Bytes
begin

text \<open>
  The browser's frame parser: src/wasm/frame_protocol.h and src/wasm/frame_protocol.c. The
  parser keeps an array of sixteen reassembly entries; a frame is delivered whole or stored as
  a fragment until its frame is complete. Heap pointers are options (\<open>None\<close> is NULL), so the
  three arrays of an entry are optional lists. Allocation may fail: every call takes a
  function \<open>mok\<close> that says, per allocation site and sz, whether the allocation succeeds in
  this call. A result \<open>None\<close> of a function is undefined behaviour of the C code.
\<close>

section \<open>Constants and state\<close>

definition PROTOCOL_MAGIC_W :: u16 where "PROTOCOL_MAGIC_W = 0xEB01"
definition PROTOCOL_VERSION_W :: byte where "PROTOCOL_VERSION_W = 1"
definition FIXED_HEADER_SIZE_W :: nat where "FIXED_HEADER_SIZE_W = 20"
definition FRAGMENT_EXT_SIZE :: nat where "FRAGMENT_EXT_SIZE = 6"
definition MAX_FRAGMENTS :: nat where "MAX_FRAGMENTS = 256"
definition FLAG_FRAGMENT_W :: byte where "FLAG_FRAGMENT_W = 0x01"
definition FLAG_HAS_COMMON_W :: byte where "FLAG_HAS_COMMON_W = 0x08"
definition COMMON_ABS_TIME_W :: byte where "COMMON_ABS_TIME_W = 0x01"
definition g_max_entries :: nat where "g_max_entries = 16"

lemmas wasm_consts = PROTOCOL_MAGIC_W_def PROTOCOL_VERSION_W_def FIXED_HEADER_SIZE_W_def
  FRAGMENT_EXT_SIZE_def MAX_FRAGMENTS_def FLAG_FRAGMENT_W_def FLAG_HAS_COMMON_W_def
  COMMON_ABS_TIME_W_def g_max_entries_def

datatype FrameParseStatus = FRAME_COMPLETE | FRAME_FRAGMENT_PENDING | FRAME_ERROR | FRAME_SKIP

text \<open>The metadata fields that \<open>ParsedFrame\<close> and \<open>FragmentEntry\<close> both have.\<close>

record frame_meta =
  msg_type :: byte
  video_codec :: byte
  video_frame_type :: byte
  video_resolution :: u16
  timestamp :: u64
  abs_time :: u64
  audio_codec :: byte
  audio_sample_rate :: byte
  audio_channels :: byte

definition zero_meta :: frame_meta where
  "zero_meta = \<lparr>msg_type = 0, video_codec = 0, video_frame_type = 0, video_resolution = 0,
     timestamp = 0, abs_time = 0, audio_codec = 0, audio_sample_rate = 0, audio_channels = 0\<rparr>"

record ParsedFrame =
  pf_meta :: frame_meta
  pf_payload :: "byte list option"
  pf_payload_size :: u32

record FragmentEntry =
  fe_frame_id :: u16
  fe_total_fragments :: u16
  fe_received_count :: u16
  fe_total_payload_size :: u32
  fe_fragment_data :: "byte list option list option"
  fe_fragment_sizes :: "u32 list option"
  fe_fragment_present :: "bool list option"
  fe_meta :: frame_meta
  fe_active :: bool

definition zero_entry :: FragmentEntry where
  "zero_entry = \<lparr>fe_frame_id = 0, fe_total_fragments = 0, fe_received_count = 0,
     fe_total_payload_size = 0, fe_fragment_data = None, fe_fragment_sizes = None,
     fe_fragment_present = None, fe_meta = zero_meta, fe_active = False\<rparr>"

record parser_state =
  g_fragments :: "FragmentEntry list option"
  g_initialized :: bool

definition initial_parser :: parser_state where
  "initial_parser = \<lparr>g_fragments = None, g_initialized = False\<rparr>"

datatype malloc_site = SiteEntries | SitePayload | SiteData | SiteSizes | SitePresent
  | SiteFragment | SiteReassembled

type_synonym malloc_ok = "malloc_site \<Rightarrow> nat \<Rightarrow> bool"

section \<open>Life cycle of the parser\<close>

definition frame_protocol_init :: "malloc_ok \<Rightarrow> parser_state \<Rightarrow> int \<times> parser_state" where
  "frame_protocol_init mok st =
     (if g_initialized st then (0, st)
      else if \<not> mok SiteEntries g_max_entries then (- 1, st\<lparr>g_fragments := None\<rparr>)
      else (0, st\<lparr>g_fragments := Some (replicate g_max_entries zero_entry),
                  g_initialized := True\<rparr>))"

definition free_fragment_entry :: "FragmentEntry \<Rightarrow> FragmentEntry" where
  "free_fragment_entry e = e\<lparr>fe_fragment_data := None, fe_fragment_sizes := None,
     fe_fragment_present := None, fe_active := False\<rparr>"

definition frame_protocol_destroy :: "parser_state \<Rightarrow> parser_state" where
  "frame_protocol_destroy st = st\<lparr>g_fragments := None, g_initialized := False\<rparr>"

definition frame_protocol_alloc_result :: "bool \<Rightarrow> ParsedFrame option" where
  "frame_protocol_alloc_result ok =
     (if ok then Some \<lparr>pf_meta = zero_meta, pf_payload = None, pf_payload_size = 0\<rparr> else None)"

section \<open>The table of reassembly entries\<close>

definition find_fragment_entry :: "FragmentEntry list \<Rightarrow> u16 \<Rightarrow> nat option" where
  "find_fragment_entry fs frame_id = find_idx (\<lambda>e. fe_active e \<and> fe_frame_id e = frame_id) fs"

definition alloc_fragment_entry ::
  "malloc_ok \<Rightarrow> FragmentEntry list \<Rightarrow> u16 \<Rightarrow> u16 \<Rightarrow> FragmentEntry list \<times> nat" where
  "alloc_fragment_entry mok fs frame_id total_fragments =
    (let (idx, fs1) =
           (case find_idx (\<lambda>e. \<not> fe_active e) fs of
              Some i \<Rightarrow> (i, fs)
            | None \<Rightarrow> (0, fs[0 := free_fragment_entry (fs ! 0)]));
         n = unat total_fragments;
         e = zero_entry\<lparr>fe_frame_id := frame_id, fe_total_fragments := total_fragments,
                        fe_active := True\<rparr>;
         e' = (if 0 < n \<and> n \<le> MAX_FRAGMENTS then
                 e\<lparr>fe_fragment_data := (if mok SiteData n then Some (replicate n None) else None),
                   fe_fragment_sizes := (if mok SiteSizes n then Some (replicate n 0) else None),
                   fe_fragment_present :=
                     (if mok SitePresent n then Some (replicate n False) else None)\<rparr>
               else e)
     in (fs1[idx := e'], idx))"

text \<open>The copy loop of \<open>reassemble_fragments\<close>: \<open>buf\<close> is what was copied so far.\<close>

fun copy_fragments :: "nat \<Rightarrow> (byte list option \<times> u32) list \<Rightarrow> byte list \<Rightarrow> byte list option" where
  "copy_fragments room [] buf = Some buf"
| "copy_fragments room ((dat, sz) # frs) buf =
     do {
       d \<leftarrow> dat;
       bs \<leftarrow> rd_range d 0 (unat sz);
       if length buf + unat sz \<le> room then copy_fragments room frs (buf @ bs) else None
     }"

definition reassemble_fragments ::
  "malloc_ok \<Rightarrow> FragmentEntry \<Rightarrow> (byte list option \<times> u32) option" where
  "reassemble_fragments mok e =
    do {
      sizes \<leftarrow> fe_fragment_sizes e;
      let n = unat (fe_total_fragments e);
      if n \<le> length sizes then do {
        let tot = sum_list (take n sizes);
        if \<not> mok SiteReassembled (unat tot) then Some (None, 0)
        else do {
          dat \<leftarrow> fe_fragment_data e;
          if n \<le> length dat then do {
            buf \<leftarrow> copy_fragments (unat tot) (zip (take n dat) (take n sizes)) [];
            Some (Some buf, tot)
          } else None
        }
      } else None
    }"

section \<open>Extension headers\<close>

record ext_info =
  x_frame_id :: u16
  x_frag_index :: u16
  x_total_frags :: u16
  x_abs_time :: u64
  x_video_codec :: byte
  x_video_frame_type :: byte
  x_video_resolution :: u16
  x_audio_codec :: byte
  x_audio_sample_rate :: byte
  x_audio_channels :: byte

definition zero_ext :: ext_info where
  "zero_ext = \<lparr>x_frame_id = 0, x_frag_index = 0, x_total_frags = 0, x_abs_time = 0,
     x_video_codec = 0, x_video_frame_type = 0, x_video_resolution = 0,
     x_audio_codec = 0, x_audio_sample_rate = 0, x_audio_channels = 0\<rparr>"

text \<open>
  \<open>ext_data\<close> points at position \<open>p\<close> of the frame in memory. The offset is a \<open>uint8_t\<close>, so
  \<open>offset += common_length\<close> wraps at 256; the comparisons are in \<open>int\<close> and do not wrap.
\<close>

definition parse_ext_fragment ::
  "byte list \<Rightarrow> nat \<Rightarrow> byte \<Rightarrow> byte \<Rightarrow> byte \<times> ext_info \<Rightarrow> (byte \<times> ext_info) option" where
  "parse_ext_fragment mem p ext_length flags = (\<lambda>(offset, x).
     if flags AND FLAG_FRAGMENT_W \<noteq> 0 \<and> unat offset + FRAGMENT_EXT_SIZE \<le> unat ext_length then do {
       fid \<leftarrow> read_be16 mem (p + unat offset);
       idx \<leftarrow> read_be16 mem (p + unat offset + 2);
       tot \<leftarrow> read_be16 mem (p + unat offset + 4);
       Some (offset + of_nat FRAGMENT_EXT_SIZE,
             x\<lparr>x_frame_id := fid, x_frag_index := idx, x_total_frags := tot\<rparr>)
     } else Some (offset, x))"

definition parse_ext_common ::
  "byte list \<Rightarrow> nat \<Rightarrow> byte \<Rightarrow> byte \<Rightarrow> byte \<times> ext_info \<Rightarrow> (byte \<times> ext_info) option" where
  "parse_ext_common mem p ext_length flags = (\<lambda>(offset, x).
     if flags AND FLAG_HAS_COMMON_W \<noteq> 0 \<and> unat offset + 2 \<le> unat ext_length then do {
       common_length \<leftarrow> rd mem (p + unat offset);
       common_flags \<leftarrow> rd mem (p + unat offset + 1);
       x' \<leftarrow> (if common_flags AND COMMON_ABS_TIME_W \<noteq> 0 \<and> 2 + 8 \<le> unat common_length
                \<and> unat offset + 2 + 8 \<le> unat ext_length
             then do { t \<leftarrow> read_be64 mem (p + unat offset + 2); Some (x\<lparr>x_abs_time := t\<rparr>) }
             else Some x);
       Some (offset + common_length, x')
     } else Some (offset, x))"

definition parse_ext_typed ::
  "byte list \<Rightarrow> nat \<Rightarrow> byte \<Rightarrow> byte \<Rightarrow> byte \<times> ext_info \<Rightarrow> ext_info option" where
  "parse_ext_typed mem p ext_length mtype = (\<lambda>(offset, x).
     if mtype = 0x01 \<and> unat offset + 4 \<le> unat ext_length then do {
       c \<leftarrow> rd mem (p + unat offset);
       ft \<leftarrow> rd mem (p + unat offset + 1);
       res \<leftarrow> read_be16 mem (p + unat offset + 2);
       Some (x\<lparr>x_video_codec := c, x_video_frame_type := ft, x_video_resolution := res\<rparr>)
     } else if mtype = 0x02 \<and> unat offset + 4 \<le> unat ext_length then do {
       c \<leftarrow> rd mem (p + unat offset);
       sr \<leftarrow> rd mem (p + unat offset + 1);
       ch \<leftarrow> rd mem (p + unat offset + 2);
       Some (x\<lparr>x_audio_codec := c, x_audio_sample_rate := sr, x_audio_channels := ch\<rparr>)
     } else Some x)"

definition parse_ext_headers ::
  "byte list \<Rightarrow> nat \<Rightarrow> byte \<Rightarrow> byte \<Rightarrow> byte \<Rightarrow> ext_info option" where
  "parse_ext_headers mem p ext_length flags mtype =
    do {
      s1 \<leftarrow> parse_ext_fragment mem p ext_length flags (0, zero_ext);
      s2 \<leftarrow> parse_ext_common mem p ext_length flags s1;
      parse_ext_typed mem p ext_length mtype s2
    }"

section \<open>Parsing one frame\<close>

definition meta_of :: "byte \<Rightarrow> u64 \<Rightarrow> ext_info \<Rightarrow> frame_meta" where
  "meta_of mtype ts x =
     \<lparr>msg_type = mtype, video_codec = x_video_codec x, video_frame_type = x_video_frame_type x,
      video_resolution = x_video_resolution x, timestamp = ts, abs_time = x_abs_time x,
      audio_codec = x_audio_codec x, audio_sample_rate = x_audio_sample_rate x,
      audio_channels = x_audio_channels x\<rparr>"

type_synonym parse_result = "(FrameParseStatus \<times> parser_state \<times> ParsedFrame) option"

text \<open>The branch for a frame without the fragment flag.\<close>

definition parse_whole ::
  "malloc_ok \<Rightarrow> parser_state \<Rightarrow> byte list \<Rightarrow> nat \<Rightarrow> u32 \<Rightarrow> frame_meta \<Rightarrow> ParsedFrame
    \<Rightarrow> parse_result" where
  "parse_whole mok st mem payload_data payload_length m res =
    (let res1 = res\<lparr>pf_payload := None, pf_meta := m, pf_payload_size := payload_length\<rparr> in
     if payload_length > 0 then
       if \<not> mok SitePayload (unat payload_length) then Some (FRAME_ERROR, st, res1)
       else do {
         bs \<leftarrow> rd_range mem payload_data (unat payload_length);
         Some (FRAME_COMPLETE, st, res1\<lparr>pf_payload := Some bs\<rparr>)
       }
     else Some (FRAME_COMPLETE, st, res1))"

text \<open>Storing a fragment's payload: \<open>Inl ()\<close> is the return on a failed allocation.\<close>

definition store_fragment ::
  "malloc_ok \<Rightarrow> byte list \<Rightarrow> nat \<Rightarrow> u32 \<Rightarrow> u16 \<Rightarrow> FragmentEntry
    \<Rightarrow> (FragmentEntry + FragmentEntry) option" where
  "store_fragment mok mem payload_data payload_length frag_index e =
    (let i = unat frag_index in
     if frag_index < fe_total_fragments e then do {
       present \<leftarrow> fe_fragment_present e;
       pr \<leftarrow> (if i < length present then Some (present ! i) else None);
       if \<not> pr then do {
         dat \<leftarrow> fe_fragment_data e;
         if i < length dat then
           if \<not> mok SiteFragment (unat payload_length) then
             Some (Inl (e\<lparr>fe_fragment_data := Some (dat[i := None])\<rparr>))
           else do {
             bs \<leftarrow> rd_range mem payload_data (unat payload_length);
             sizes \<leftarrow> fe_fragment_sizes e;
             if i < length sizes then
               Some (Inr (e\<lparr>fe_fragment_data := Some (dat[i := Some bs]),
                            fe_fragment_sizes := Some (sizes[i := payload_length]),
                            fe_fragment_present := Some (present[i := True]),
                            fe_received_count := fe_received_count e + 1\<rparr>))
             else None
           }
         else None
       } else Some (Inr e)
     } else Some (Inr e))"

text \<open>
  Storing a fragment in its entry, number \<open>idx\<close> of the table, and delivering the frame when all
  its fragments are there.
\<close>

definition deliver_fragment ::
  "malloc_ok \<Rightarrow> parser_state \<Rightarrow> byte list \<Rightarrow> nat \<Rightarrow> u32 \<Rightarrow> u16 \<Rightarrow> ParsedFrame
    \<Rightarrow> FragmentEntry list \<Rightarrow> nat \<Rightarrow> FragmentEntry \<Rightarrow> parse_result" where
  "deliver_fragment mok st mem payload_data payload_length frag_index res fs idx e1 =
    do {
      stored \<leftarrow> store_fragment mok mem payload_data payload_length frag_index e1;
      case stored of
        Inl e2 \<Rightarrow> Some (FRAME_ERROR, st\<lparr>g_fragments := Some (fs[idx := e2])\<rparr>, res)
      | Inr e2 \<Rightarrow>
          if fe_received_count e2 \<ge> fe_total_fragments e2 then do {
            r \<leftarrow> reassemble_fragments mok e2;
            let st' = st\<lparr>g_fragments := Some (fs[idx := free_fragment_entry e2])\<rparr>;
            case r of
              (None, _) \<Rightarrow> Some (FRAME_ERROR, st', res)
            | (Some buf, out_size) \<Rightarrow>
                Some (FRAME_COMPLETE, st',
                      res\<lparr>pf_meta := fe_meta e2, pf_payload := Some buf,
                          pf_payload_size := out_size\<rparr>)
          }
          else Some (FRAME_FRAGMENT_PENDING, st\<lparr>g_fragments := Some (fs[idx := e2])\<rparr>, res)
    }"

text \<open>The branch for a fragment, after its headers are parsed.\<close>

definition parse_fragment ::
  "malloc_ok \<Rightarrow> parser_state \<Rightarrow> byte list \<Rightarrow> nat \<Rightarrow> u32 \<Rightarrow> ext_info \<Rightarrow> frame_meta \<Rightarrow> ParsedFrame
    \<Rightarrow> parse_result" where
  "parse_fragment mok st mem payload_data payload_length x m res =
    (if x_total_frags x = 0 \<or> unat (x_total_frags x) > MAX_FRAGMENTS then
       Some (FRAME_ERROR, st, res)
     else do {
       fs \<leftarrow> g_fragments st;
       let (fs1, idx, fresh) =
         (case find_fragment_entry fs (x_frame_id x) of
            Some i \<Rightarrow> (fs, i, False)
          | None \<Rightarrow> (case alloc_fragment_entry mok fs (x_frame_id x) (x_total_frags x) of
                      (fs', i) \<Rightarrow> (fs', i, True)));
       if fresh \<and> fe_fragment_data (fs1 ! idx) = None then
         Some (FRAME_ERROR, st\<lparr>g_fragments := Some fs1\<rparr>, res)
       else deliver_fragment mok st mem payload_data payload_length (x_frag_index x) res fs1 idx
              (if x_frag_index x = 0 then (fs1 ! idx)\<lparr>fe_meta := m\<rparr> else fs1 ! idx)
     })"

text \<open>The fields of the fixed header that the parser uses.\<close>

definition header_ok_status :: "byte list \<Rightarrow> FrameParseStatus option option" where
  "header_ok_status mem =
    do {
      magic \<leftarrow> read_be16 mem 0;
      if magic \<noteq> PROTOCOL_MAGIC_W then Some (Some FRAME_ERROR)
      else do {
        version \<leftarrow> rd mem 2;
        if version \<noteq> PROTOCOL_VERSION_W then Some (Some FRAME_SKIP) else Some None
      }
    }"

definition frame_protocol_parse ::
  "malloc_ok \<Rightarrow> parser_state \<Rightarrow> byte list option \<Rightarrow> int \<Rightarrow> ParsedFrame option
    \<Rightarrow> (FrameParseStatus \<times> parser_state \<times> ParsedFrame option) option" where
  "frame_protocol_parse mok st data sz result =
    (case (result, data) of
       (None, _) \<Rightarrow> Some (FRAME_ERROR, st, result)
     | (_, None) \<Rightarrow> Some (FRAME_ERROR, st, result)
     | (Some res, Some mem) \<Rightarrow>
       if sz < int FIXED_HEADER_SIZE_W then Some (FRAME_ERROR, st, result)
       else do {
         hs \<leftarrow> header_ok_status mem;
         case hs of
           Some status \<Rightarrow> Some (status, st, result)
         | None \<Rightarrow> do {
             mtype \<leftarrow> rd mem 3;
             flags \<leftarrow> rd mem 4;
             ts \<leftarrow> read_be64 mem 5;
             ext_length \<leftarrow> rd mem 13;
             payload_length \<leftarrow> read_be32 mem 14;
             need \<leftarrow> i32_add (int FIXED_HEADER_SIZE_W + uint ext_length) (sint payload_length);
             if sz < need then Some (FRAME_ERROR, st, result)
             else do {
               let payload_data = FIXED_HEADER_SIZE_W + unat ext_length;
               x \<leftarrow> parse_ext_headers mem FIXED_HEADER_SIZE_W ext_length flags mtype;
               (status, st', res') \<leftarrow>
                 (if flags AND FLAG_FRAGMENT_W = 0
                  then parse_whole mok st mem payload_data payload_length (meta_of mtype ts x) res
                  else parse_fragment mok st mem payload_data payload_length x
                         (meta_of mtype ts x) res);
               Some (status, st', Some res')
             }
           }
       })"

end
