(* ===== verification/FrameParserInv.thy ===== *)
theory FrameParserInv
  imports FrameParser
begin

text \<open>
  The invariant of the reassembly table of src/wasm/frame_protocol.c and its preservation:
  every active entry has its three arrays, they agree with each other and with the count of
  received fragments, and no two active entries carry the same frame id. From it follows that
  a frame whose length fields are honest is parsed without undefined behaviour.
\<close>

section \<open>The invariant\<close>

text \<open>One reassembly slot: a present fragment has data of the recorded size, below 16 MiB.\<close>

fun slot_ok :: "byte list option \<Rightarrow> u32 \<Rightarrow> bool \<Rightarrow> bool" where
  "slot_ok (Some b) sz pr = (pr \<and> length b = unat sz \<and> length b < 2 ^ 24)"
| "slot_ok None sz pr = (\<not> pr \<and> sz = 0)"

fun arrays_ok :: "nat \<Rightarrow> byte list option list option \<Rightarrow> u32 list option \<Rightarrow> bool list option \<Rightarrow> bool"
  where
  "arrays_ok n (Some d) (Some s) (Some p) =
     (length d = n \<and> length s = n \<and> length p = n \<and> (\<forall>i<n. slot_ok (d ! i) (s ! i) (p ! i)))"
| "arrays_ok n _ _ _ = False"

definition entry_ok :: "FragmentEntry \<Rightarrow> bool" where
  "entry_ok e \<longleftrightarrow>
     0 < fe_total_fragments e \<and> unat (fe_total_fragments e) \<le> MAX_FRAGMENTS
     \<and> arrays_ok (unat (fe_total_fragments e)) (fe_fragment_data e) (fe_fragment_sizes e)
         (fe_fragment_present e)
     \<and> (case fe_fragment_present e of None \<Rightarrow> False
        | Some p \<Rightarrow> unat (fe_received_count e) = length (filter id p))"

definition entry_inv :: "FragmentEntry \<Rightarrow> bool" where
  "entry_inv e \<longleftrightarrow>
     (fe_active e \<longrightarrow> entry_ok e \<and> fe_received_count e < fe_total_fragments e)"

definition table_inv :: "FragmentEntry list \<Rightarrow> bool" where
  "table_inv fs \<longleftrightarrow> length fs = g_max_entries \<and> list_all entry_inv fs
     \<and> (\<forall>i<length fs. \<forall>j<length fs. fe_active (fs ! i) \<and> fe_active (fs ! j)
            \<and> fe_frame_id (fs ! i) = fe_frame_id (fs ! j) \<longrightarrow> i = j)"

definition parser_inv :: "parser_state \<Rightarrow> bool" where
  "parser_inv st \<longleftrightarrow> (case g_fragments st of None \<Rightarrow> \<not> g_initialized st
     | Some fs \<Rightarrow> g_initialized st \<and> table_inv fs)"

fun_cases arrays_okE: "arrays_ok n d s p"

lemma entry_okE:
  assumes "entry_ok e"
  obtains d s p where "fe_fragment_data e = Some d" "fe_fragment_sizes e = Some s"
    "fe_fragment_present e = Some p"
    "length d = unat (fe_total_fragments e)" "length s = unat (fe_total_fragments e)"
    "length p = unat (fe_total_fragments e)"
    "\<forall>i<unat (fe_total_fragments e). slot_ok (d ! i) (s ! i) (p ! i)"
    "0 < fe_total_fragments e" "unat (fe_total_fragments e) \<le> MAX_FRAGMENTS"
    "unat (fe_received_count e) = length (filter id p)"
  using assms unfolding entry_ok_def by (auto elim!: arrays_okE split: option.splits)

lemma entry_ok_meta [simp]: "entry_ok (e\<lparr>fe_meta := m\<rparr>) = entry_ok e"
  by (simp add: entry_ok_def split: option.splits)

section \<open>The initial table\<close>

lemma inactive_inv [simp]: "\<not> fe_active e \<Longrightarrow> entry_inv e"
  by (simp add: entry_inv_def)

lemma free_fragment_entry_inactive [simp]: "\<not> fe_active (free_fragment_entry e)"
  by (simp add: free_fragment_entry_def)

lemma init_inv [inv_intros]: "parser_inv st \<Longrightarrow> parser_inv (snd (frame_protocol_init mok st))"
  by (auto simp: frame_protocol_init_def parser_inv_def table_inv_def zero_entry_def
      list_all_iff split: option.splits)

lemma destroy_inv [inv_intros]: "parser_inv (frame_protocol_destroy st)"
  by (simp add: frame_protocol_destroy_def parser_inv_def)

section \<open>Counting present fragments\<close>

lemma length_filter_update_True:
  "i < length p \<Longrightarrow> \<not> p ! i \<Longrightarrow> length (filter id (p[i := True])) = Suc (length (filter id p))"
  by (induction p arbitrary: i) (auto split: nat.splits)

lemma filter_id_full: "length (filter id p) = length p \<Longrightarrow> i < length p \<Longrightarrow> p ! i"
  by (metis id_apply length_filter_less nat_neq_iff nth_mem)

section \<open>Reassembling a full entry\<close>

lemma copy_fragments_defined:
  assumes "\<forall>(d, s)\<in>set frs. \<exists>b. d = Some b \<and> length b = unat s"
    and "length buf + sum_list (map (unat \<circ> snd) frs) \<le> room"
  shows "copy_fragments room frs buf = Some (buf @ concat (map (the \<circ> fst) frs))"
  using assms
proof (induction frs arbitrary: buf)
  case Nil
  then show ?case by simp
next
  case (Cons fr frs)
  obtain d s where fr: "fr = (d, s)" by (cases fr)
  with Cons.prems(1) obtain b where b: "d = Some b" "length b = unat s" by auto
  with Cons.prems(2) fr
  have "length (buf @ b) + sum_list (map (unat \<circ> snd) frs) \<le> room" by (simp add: o_def)
  from Cons.IH [OF _ this] Cons.prems(1) have
    "copy_fragments room frs (buf @ b) = Some ((buf @ b) @ concat (map (the \<circ> fst) frs))"
    by (simp add: o_def)
  with fr b Cons.prems(2) show ?case by (simp add: o_def)
qed

lemma unat_sum_list_words:
  fixes ws :: "u32 list"
  assumes "sum_list (map unat ws) < 2 ^ 32"
  shows "unat (sum_list ws) = sum_list (map unat ws)"
  using assms by (induction ws) (auto simp: unat_word_ariths)

lemma sum_list_bound:
  assumes "\<forall>x\<in>set xs. x \<le> (b::nat)"
  shows "sum_list xs \<le> length xs * b"
  using assms by (induction xs) auto

text \<open>A full entry reassembles to the concatenation of its slots, in index order.\<close>

lemma reassemble_full:
  assumes e: "entry_ok e" and full: "fe_received_count e \<ge> fe_total_fragments e"
    and d: "fe_fragment_data e = Some d"
  shows "reassemble_fragments mok e =
    (let buf = concat (map the d) in
     if mok SiteReassembled (length buf) then Some (Some buf, of_nat (length buf))
     else Some (None, 0))"
proof -
  from e d obtain s p where s: "fe_fragment_sizes e = Some s" and p: "fe_fragment_present e = Some p"
    and len: "length d = unat (fe_total_fragments e)" "length s = length d" "length p = length d"
    and slots: "\<forall>i<length d. slot_ok (d ! i) (s ! i) (p ! i)"
    and small: "length d \<le> MAX_FRAGMENTS"
    and count: "unat (fe_received_count e) = length (filter id p)"
    by (elim entry_okE) auto
  from full count len have "length p \<le> length (filter id p)" by (simp add: word_le_nat_alt)
  then have "length (filter id p) = length p" by (intro le_antisym) auto
  then have pres: "p ! i" if "i < length d" for i using that len by (auto intro: filter_id_full)
  have slot: "\<exists>b. d ! i = Some b \<and> length b = unat (s ! i) \<and> length b < 2 ^ 24"
    if "i < length d" for i
    using slots pres that by (cases "d ! i") (fastforce)+
  have zip: "\<forall>(x, y)\<in>set (zip d s). \<exists>b. x = Some b \<and> length b = unat y"
    using slot len by (fastforce simp: in_set_zip)
  have sizes: "map unat s = map (length \<circ> the) d"
    using slot len by (intro nth_equalityI) fastforce+
  then have total: "sum_list (map unat s) = length (concat (map the d))"
    by (simp add: length_concat o_def)
  have "\<forall>x\<in>set (map unat s). x \<le> 2 ^ 24 - 1"
    using slot len by (fastforce simp: in_set_conv_nth)
  from sum_list_bound [OF this] have "sum_list (map unat s) \<le> 256 * (2 ^ 24 - 1)"
    using len small by (simp add: MAX_FRAGMENTS_def)
  then have lt: "sum_list (map unat s) < 2 ^ 32" by simp
  have tot: "unat (sum_list s) = length (concat (map the d))"
    using unat_sum_list_words [OF lt] total by simp
  then have tot': "sum_list s = of_nat (length (concat (map the d)))"
    by (simp flip: tot)
  have copy: "copy_fragments (length (concat (map the d))) (zip d s) [] = Some (concat (map the d))"
    using copy_fragments_defined [OF zip, of "[]" "length (concat (map the d))"] total len
    by (simp flip: map_map)
  show ?thesis
    using s d len tot copy by (simp add: reassemble_fragments_def Let_def tot')
qed

section \<open>Storing a fragment\<close>

lemma store_fragment_cases:
  assumes e: "entry_ok e" and room: "fe_received_count e < fe_total_fragments e"
    and mem: "q + unat pl \<le> length mem" and pl: "unat pl < 2 ^ 24"
    and d: "fe_fragment_data e = Some d"
  shows "store_fragment mok mem q pl i e =
    (if i < fe_total_fragments e \<and> d ! unat i = None then
       if mok SiteFragment (unat pl) then
         Some (Inr (e\<lparr>fe_fragment_data := Some (d[unat i := Some (take (unat pl) (drop q mem))]),
           fe_fragment_sizes := map_option (\<lambda>s. s[unat i := pl]) (fe_fragment_sizes e),
           fe_fragment_present := map_option (\<lambda>p. p[unat i := True]) (fe_fragment_present e),
           fe_received_count := fe_received_count e + 1\<rparr>))
       else Some (Inl e)
     else Some (Inr e))"
proof -
  from e d obtain s p where s: "fe_fragment_sizes e = Some s" and p: "fe_fragment_present e = Some p"
    and len: "length d = unat (fe_total_fragments e)" "length s = length d" "length p = length d"
    and slots: "\<forall>i<length d. slot_ok (d ! i) (s ! i) (p ! i)"
    by (elim entry_okE) auto
  show ?thesis
  proof (cases "i < fe_total_fragments e")
    case True
    then have i: "unat i < length d" using len by (simp add: word_less_nat_alt)
    with slots have "p ! unat i \<longleftrightarrow> d ! unat i \<noteq> None"
      by (cases "d ! unat i") fastforce+
    moreover have "e\<lparr>fe_fragment_data := Some (d[unat i := None])\<rparr> = e" if "d ! unat i = None"
      using d list_update_id [of d "unat i"] that by simp
    ultimately show ?thesis using True i d s p len mem
      by (auto simp: store_fragment_def Let_def)
  qed (simp add: store_fragment_def)
qed

lemma store_keeps_ok:
  assumes e: "entry_ok e" and room: "fe_received_count e < fe_total_fragments e"
    and mem: "q + unat pl \<le> length mem" and pl: "unat pl < 2 ^ 24"
    and st: "store_fragment mok mem q pl i e = Some (Inr e')"
  shows "entry_ok e' \<and> fe_total_fragments e' = fe_total_fragments e
    \<and> fe_frame_id e' = fe_frame_id e \<and> fe_active e' = fe_active e
    \<and> fe_received_count e' \<le> fe_total_fragments e'"
proof -
  from e obtain d s p where d: "fe_fragment_data e = Some d"
    and s: "fe_fragment_sizes e = Some s" and p: "fe_fragment_present e = Some p"
    and len: "length d = unat (fe_total_fragments e)" "length s = unat (fe_total_fragments e)"
      "length p = unat (fe_total_fragments e)"
    and slots: "\<forall>i<unat (fe_total_fragments e). slot_ok (d ! i) (s ! i) (p ! i)"
    and tot: "0 < fe_total_fragments e" "unat (fe_total_fragments e) \<le> MAX_FRAGMENTS"
    and count: "unat (fe_received_count e) = length (filter id p)"
    by (elim entry_okE) auto
  show ?thesis
  proof (cases "i < fe_total_fragments e \<and> d ! unat i = None")
    case False
    with st store_fragment_cases [OF e room mem pl d] e room show ?thesis
      by (auto split: if_splits)
  next
    case True
    then have i: "unat i < unat (fe_total_fragments e)" by (simp add: word_less_nat_alt)
    with slots True have np: "\<not> p ! unat i" by force
    from room have room': "unat (fe_received_count e) < unat (fe_total_fragments e)"
      by (simp add: word_less_nat_alt)
    then have inc: "unat (fe_received_count e + 1) = Suc (unat (fe_received_count e))"
      using tot by (simp add: unat_word_ariths MAX_FRAGMENTS_def)
    from st store_fragment_cases [OF e room mem pl d] True
    have e': "e' = e\<lparr>fe_fragment_data := Some (d[unat i := Some (take (unat pl) (drop q mem))]),
           fe_fragment_sizes := Some (s[unat i := pl]),
           fe_fragment_present := Some (p[unat i := True]),
           fe_received_count := fe_received_count e + 1\<rparr>"
      by (auto simp: s p split: if_splits)
    show ?thesis unfolding e'
      using len tot slots mem pl i np count inc room'
      by (auto simp: entry_ok_def nth_list_update length_filter_update_True word_le_nat_alt)
  qed
qed

section \<open>Allocating an entry\<close>

definition arrays_alloc_ok :: "malloc_ok \<Rightarrow> bool" where
  "arrays_alloc_ok mok \<longleftrightarrow>
     (\<forall>n\<in>{..MAX_FRAGMENTS}. mok SiteData n \<and> mok SiteSizes n \<and> mok SitePresent n)"

definition fresh_entry :: "u16 \<Rightarrow> u16 \<Rightarrow> FragmentEntry" where
  "fresh_entry fid tot = zero_entry\<lparr>fe_frame_id := fid, fe_total_fragments := tot,
     fe_active := True, fe_fragment_data := Some (replicate (unat tot) None),
     fe_fragment_sizes := Some (replicate (unat tot) 0),
     fe_fragment_present := Some (replicate (unat tot) False)\<rparr>"

lemma fresh_entry_inv:
  assumes "0 < tot" and "unat tot \<le> MAX_FRAGMENTS"
  shows "entry_inv (fresh_entry fid tot)"
  using assms
  by (auto simp: fresh_entry_def entry_inv_def entry_ok_def zero_entry_def)

lemma alloc_fragment_entry_eq:
  assumes "arrays_alloc_ok mok" and "0 < tot" and "unat tot \<le> MAX_FRAGMENTS"
    and "length fs = g_max_entries"
  shows "\<exists>i<length fs. alloc_fragment_entry mok fs fid tot = (fs[i := fresh_entry fid tot], i)
    \<and> (\<not> fe_active (fs ! i) \<or> i = 0)"
proof -
  from assms have "0 < unat tot" by (simp add: word_less_nat_alt)
  with assms have e: "(if 0 < unat tot \<and> unat tot \<le> MAX_FRAGMENTS then
      (zero_entry\<lparr>fe_frame_id := fid, fe_total_fragments := tot, fe_active := True\<rparr>)
        \<lparr>fe_fragment_data := (if mok SiteData (unat tot) then Some (replicate (unat tot) None) else None),
          fe_fragment_sizes := (if mok SiteSizes (unat tot) then Some (replicate (unat tot) 0) else None),
          fe_fragment_present := (if mok SitePresent (unat tot) then Some (replicate (unat tot) False) else None)\<rparr>
      else zero_entry\<lparr>fe_frame_id := fid, fe_total_fragments := tot, fe_active := True\<rparr>)
      = fresh_entry fid tot"
    by (simp add: fresh_entry_def arrays_alloc_ok_def)
  show ?thesis
  proof (cases "find_idx (\<lambda>e. \<not> fe_active e) fs")
    case None
    with assms(4) show ?thesis
      unfolding alloc_fragment_entry_def Let_def e by (auto simp: g_max_entries_def)
  next
    case (Some i)
    with find_idx_SomeD [OF Some] show ?thesis
      unfolding alloc_fragment_entry_def Let_def e by auto
  qed
qed

section \<open>Updating the table\<close>

lemma table_inv_nth: "table_inv fs \<Longrightarrow> i < length fs \<Longrightarrow> entry_inv (fs ! i)"
  by (simp add: table_inv_def list_all_length)

lemma table_inv_ids:
  assumes "table_inv fs" "i < length fs" "j < length fs" "i \<noteq> j" "fe_active (fs ! i)" "fe_active (fs ! j)"
  shows "fe_frame_id (fs ! i) \<noteq> fe_frame_id (fs ! j)"
  using assms by (auto simp: table_inv_def)

text \<open>An entry may replace the one at \<open>i\<close> if no other active entry has its id.\<close>

lemma table_inv_update:
  assumes "table_inv fs" and "entry_inv e"
    and "fe_active e \<Longrightarrow> \<forall>j<length fs. j \<noteq> i \<longrightarrow> fe_active (fs ! j) \<longrightarrow> fe_frame_id (fs ! j) \<noteq> fe_frame_id e"
  shows "table_inv (fs[i := e])"
proof (cases "i < length fs")
  case True
  then show ?thesis using assms
    by (auto simp: table_inv_def list_all_length nth_list_update)
qed (use assms in \<open>simp add: list_update_beyond\<close>)

lemma table_inv_update_same:
  assumes "table_inv fs" "i < length fs" "fe_active (fs ! i)" "entry_inv e"
    and "fe_frame_id e = fe_frame_id (fs ! i)"
  shows "table_inv (fs[i := e])"
  using assms table_inv_ids [OF assms(1)] by (intro table_inv_update) auto

lemma find_fragment_entryD:
  assumes "find_fragment_entry fs fid = Some i"
  shows "i < length fs" "fe_active (fs ! i)" "fe_frame_id (fs ! i) = fid"
  using find_idx_SomeD [OF assms [unfolded find_fragment_entry_def]] by auto

lemma find_fragment_entry_NoneD:
  "find_fragment_entry fs fid = None \<Longrightarrow> j < length fs \<Longrightarrow> fe_active (fs ! j) \<Longrightarrow> fe_frame_id (fs ! j) \<noteq> fid"
  by (auto simp: find_fragment_entry_def find_idx_None_iff)

section \<open>Reading the headers stays inside the frame\<close>

lemma parse_ext_headers_defined:
  assumes "p + unat ext \<le> length mem"
  shows "\<exists>x. parse_ext_headers mem p ext flags mt = Some x"
proof -
  have rd16: "\<exists>v. read_be16 mem q = Some v" if "q + 2 \<le> p + unat ext" for q
    using be16.re_total [of q mem] that assms by simp
  have rd64: "\<exists>v. read_be64 mem q = Some v" if "q + 8 \<le> p + unat ext" for q
    using be64.re_total [of q mem] that assms by simp
  have rd1: "\<exists>v. rd mem q = Some v" if "q < p + unat ext" for q
    using that assms by simp
  have frag: "\<exists>s'. parse_ext_fragment mem p ext flags s = Some s'" for s
  proof (cases "flags AND FLAG_FRAGMENT_W \<noteq> 0 \<and> unat (fst s) + FRAGMENT_EXT_SIZE \<le> unat ext")
    case True
    then show ?thesis
      using rd16 [of "p + unat (fst s)"] rd16 [of "p + unat (fst s) + 2"] rd16 [of "p + unat (fst s) + 4"]
      by (auto simp: parse_ext_fragment_def FRAGMENT_EXT_SIZE_def split: prod.splits)
  qed (auto simp: parse_ext_fragment_def split: prod.splits)
  have comm: "\<exists>s'. parse_ext_common mem p ext flags s = Some s'" for s
  proof (cases "flags AND FLAG_HAS_COMMON_W \<noteq> 0 \<and> unat (fst s) + 2 \<le> unat ext")
    case True
    then have "\<exists>v. rd mem (p + unat (fst s)) = Some v" "\<exists>v. rd mem (p + unat (fst s) + 1) = Some v"
      using rd1 by auto
    moreover have "unat (fst s) + 2 + 8 \<le> unat ext \<Longrightarrow> \<exists>v. read_be64 mem (p + unat (fst s) + 2) = Some v"
      using rd64 [of "p + unat (fst s) + 2"] by simp
    ultimately show ?thesis using True
      by (auto simp: parse_ext_common_def split: prod.splits)
  qed (auto simp: parse_ext_common_def split: prod.splits)
  have typed: "\<exists>x. parse_ext_typed mem p ext mt s = Some x" for s
  proof (cases "unat (fst s) + 4 \<le> unat ext")
    case True
    then have "\<exists>v. rd mem (p + unat (fst s)) = Some v" "\<exists>v. rd mem (p + unat (fst s) + 1) = Some v"
      "\<exists>v. rd mem (p + unat (fst s) + 2) = Some v" "\<exists>v. read_be16 mem (p + unat (fst s) + 2) = Some v"
      using rd1 rd16 [of "p + unat (fst s) + 2"] by auto
    with True show ?thesis by (auto simp: parse_ext_typed_def split: prod.splits)
  qed (auto simp: parse_ext_typed_def split: prod.splits)
  obtain s1 where s1: "parse_ext_fragment mem p ext flags (0, zero_ext) = Some s1" using frag by blast
  obtain s2 where s2: "parse_ext_common mem p ext flags s1 = Some s2" using comm by blast
  from s1 s2 typed [of s2] show ?thesis by (auto simp: parse_ext_headers_def)
qed

section \<open>Parsing keeps the invariant\<close>

lemma store_fragment_total:
  assumes "entry_ok e" and "fe_received_count e < fe_total_fragments e"
    and "q + unat pl \<le> length mem" and "unat pl < 2 ^ 24"
  obtains "store_fragment mok mem q pl i e = Some (Inl e)"
  | e' where "store_fragment mok mem q pl i e = Some (Inr e')"
proof -
  from assms(1) obtain d where "fe_fragment_data e = Some d" by (rule entry_okE)
  from store_fragment_cases [OF assms this, of mok i] that show thesis by (metis (no_types))
qed

lemma parse_fragment_found:
  assumes "x_total_frags x \<noteq> 0" and "unat (x_total_frags x) \<le> MAX_FRAGMENTS"
    and "g_fragments st = Some fs" and "find_fragment_entry fs (x_frame_id x) = Some i"
  shows "parse_fragment mok st mem q pl x m res =
    deliver_fragment mok st mem q pl (x_frag_index x) res fs i
      (if x_frag_index x = 0 then (fs ! i)\<lparr>fe_meta := m\<rparr> else fs ! i)"
  using assms by (simp add: parse_fragment_def)

lemma parse_fragment_fresh:
  assumes "x_total_frags x \<noteq> 0" and "unat (x_total_frags x) \<le> MAX_FRAGMENTS"
    and "g_fragments st = Some fs" and "find_fragment_entry fs (x_frame_id x) = None"
    and "alloc_fragment_entry mok fs (x_frame_id x) (x_total_frags x) = (fs1, i)"
    and "fe_fragment_data (fs1 ! i) \<noteq> None"
  shows "parse_fragment mok st mem q pl x m res =
    deliver_fragment mok st mem q pl (x_frag_index x) res fs1 i
      (if x_frag_index x = 0 then (fs1 ! i)\<lparr>fe_meta := m\<rparr> else fs1 ! i)"
  using assms by (auto simp: parse_fragment_def)

lemma deliver_fragment_safe:
  assumes inv: "table_inv fs1" and ini: "g_initialized st"
    and i: "i < length fs1" "fe_active (fs1 ! i)"
    and e1: "entry_ok e1" "fe_received_count e1 < fe_total_fragments e1" "fe_active e1"
      "fe_frame_id e1 = fe_frame_id (fs1 ! i)"
    and mem: "q + unat pl \<le> length mem" and pl: "unat pl < 2 ^ 24"
  shows "\<exists>status st' res'. deliver_fragment mok st mem q pl idx res fs1 i e1 = Some (status, st', res')
    \<and> parser_inv st' \<and> g_initialized st'"
proof (rule store_fragment_total [OF e1(1,2) mem pl, of mok idx])
  assume "store_fragment mok mem q pl idx e1 = Some (Inl e1)"
  moreover have "table_inv (fs1[i := e1])"
    using inv i e1 by (intro table_inv_update_same) (auto simp: entry_inv_def)
  ultimately show ?thesis using ini by (simp add: deliver_fragment_def parser_inv_def)
next
  fix e2
  assume stored: "store_fragment mok mem q pl idx e1 = Some (Inr e2)"
  note keeps = store_keeps_ok [OF e1(1,2) mem pl stored]
  show ?thesis
  proof (cases "fe_received_count e2 \<ge> fe_total_fragments e2")
    case True
    obtain d2 where "fe_fragment_data e2 = Some d2" using keeps by (auto elim: entry_okE)
    note reassemble_full [OF _ True this, of mok]
    moreover have "table_inv (fs1[i := free_fragment_entry e2])"
      using inv by (intro table_inv_update) auto
    ultimately show ?thesis using True stored ini keeps
      by (auto simp: deliver_fragment_def Let_def parser_inv_def)
  next
    case False
    have "table_inv (fs1[i := e2])"
      using inv i e1 keeps False by (intro table_inv_update_same) (auto simp: entry_inv_def)
    with False stored ini show ?thesis by (simp add: deliver_fragment_def parser_inv_def)
  qed
qed

lemma table_entry_ready:
  assumes "table_inv fs" and "i < length fs" and "fe_active (fs ! i)"
  shows "entry_ok (fs ! i)" "fe_received_count (fs ! i) < fe_total_fragments (fs ! i)"
  using table_inv_nth [OF assms(1,2)] assms(3) by (auto simp: entry_inv_def)

lemma alloc_keeps_table:
  assumes "arrays_alloc_ok mok" and "0 < tot" and "unat tot \<le> MAX_FRAGMENTS"
    and "table_inv fs" and "find_fragment_entry fs fid = None"
  obtains i where "i < length fs"
    "alloc_fragment_entry mok fs fid tot = (fs[i := fresh_entry fid tot], i)"
    "table_inv (fs[i := fresh_entry fid tot])"
proof -
  obtain i where i: "i < length fs"
    "alloc_fragment_entry mok fs fid tot = (fs[i := fresh_entry fid tot], i)"
    using alloc_fragment_entry_eq [OF assms(1-3), of fs fid] assms(4)
    unfolding table_inv_def by blast
  have "table_inv (fs[i := fresh_entry fid tot])"
    using find_fragment_entry_NoneD [OF assms(5)] fresh_entry_inv [OF assms(2,3)] assms(4)
    by (intro table_inv_update) (auto simp: fresh_entry_def zero_entry_def)
  with i that show thesis by blast
qed

lemma fresh_entry_simps [simp]:
  "fe_active (fresh_entry fid tot)" "fe_frame_id (fresh_entry fid tot) = fid"
  "fe_total_fragments (fresh_entry fid tot) = tot" "fe_received_count (fresh_entry fid tot) = 0"
  "fe_fragment_data (fresh_entry fid tot) = Some (replicate (unat tot) None)"
  "fe_fragment_sizes (fresh_entry fid tot) = Some (replicate (unat tot) 0)"
  "fe_fragment_present (fresh_entry fid tot) = Some (replicate (unat tot) False)"
  "fe_meta (fresh_entry fid tot) = zero_meta"
  by (simp_all add: fresh_entry_def zero_entry_def)

lemma parse_fragment_safe:
  assumes fs: "g_fragments st = Some fs" and inv: "table_inv fs" and ini: "g_initialized st"
    and alloc: "arrays_alloc_ok mok"
    and mem: "q + unat pl \<le> length mem" and pl: "unat pl < 2 ^ 24"
  shows "\<exists>status st' res'. parse_fragment mok st mem q pl x m res = Some (status, st', res')
    \<and> parser_inv st' \<and> g_initialized st'"
proof (cases "x_total_frags x = 0 \<or> unat (x_total_frags x) > MAX_FRAGMENTS")
  case True
  then show ?thesis using fs inv ini by (auto simp: parse_fragment_def parser_inv_def)
next
  case False
  then have tot: "x_total_frags x \<noteq> 0" "unat (x_total_frags x) \<le> MAX_FRAGMENTS" by auto
  show ?thesis
  proof (cases "find_fragment_entry fs (x_frame_id x)")
    case (Some i)
    note i = find_fragment_entryD [OF Some] table_entry_ready [OF inv find_fragment_entryD(1,2) [OF Some]]
    show ?thesis unfolding parse_fragment_found [OF tot fs Some]
      by (rule deliver_fragment_safe [OF inv ini i(1,2) _ _ _ _ mem pl]) (use i in auto)
  next
    case None
    have pos: "0 < x_total_frags x" using tot(1) by (simp add: word_gt_0)
    from alloc_keeps_table [OF alloc pos tot(2) inv None] obtain i where
      i: "i < length fs" and
      al: "alloc_fragment_entry mok fs (x_frame_id x) (x_total_frags x) =
        (fs[i := fresh_entry (x_frame_id x) (x_total_frags x)], i)" and
      inv': "table_inv (fs[i := fresh_entry (x_frame_id x) (x_total_frags x)])" by blast
    have act: "fe_active (fs[i := fresh_entry (x_frame_id x) (x_total_frags x)] ! i)" using i by simp
    note ready = table_entry_ready [OF inv' _ act]
    have data: "fe_fragment_data (fs[i := fresh_entry (x_frame_id x) (x_total_frags x)] ! i) \<noteq> None"
      using i by simp
    show ?thesis unfolding parse_fragment_fresh [OF tot fs None al data]
      by (rule deliver_fragment_safe [OF inv' ini _ act _ _ _ _ mem pl]) (use i ready in auto)
  qed
qed

lemma parse_whole_safe:
  assumes "q + unat pl \<le> length mem"
  shows "\<exists>status res'. parse_whole mok st mem q pl m res = Some (status, st, res')"
  using assms by (auto simp: parse_whole_def Let_def)

section \<open>The parser entry point\<close>

text \<open>The \<open>payload_length\<close> field of a frame, and the frames whose length arithmetic stays in \<open>int\<close>.\<close>

definition payload_length_field :: "byte list \<Rightarrow> u32" where
  "payload_length_field mem = (case read_be32 mem 14 of Some v \<Rightarrow> v | None \<Rightarrow> 0)"

definition honest_length :: "byte list \<Rightarrow> bool" where
  "honest_length mem \<longleftrightarrow> unat (payload_length_field mem) < 2 ^ 31 - 275"

lemma header_ok_status_defined:
  "20 \<le> length mem \<Longrightarrow> \<exists>hs. header_ok_status mem = Some hs"
  using be16.re_total [of 0 mem] by (auto simp: header_ok_status_def)

lemma frame_protocol_parse_body:
  assumes len: "FIXED_HEADER_SIZE_W \<le> length mem" and hon: "honest_length mem"
    and ok: "header_ok_status mem = Some None"
  obtains mt flags ts ext pl where
    "read_be32 mem 14 = Some pl" "rd mem 13 = Some ext" "sint pl = int (unat pl)"
    "frame_protocol_parse mok st (Some mem) (int (length mem)) (Some res) =
      (if int (length mem) < int FIXED_HEADER_SIZE_W + uint ext + sint pl
       then Some (FRAME_ERROR, st, Some res)
       else do {
         x \<leftarrow> parse_ext_headers mem FIXED_HEADER_SIZE_W ext flags mt;
         (status, st', res') \<leftarrow>
           (if flags AND FLAG_FRAGMENT_W = 0
            then parse_whole mok st mem (FIXED_HEADER_SIZE_W + unat ext) pl (meta_of mt ts x) res
            else parse_fragment mok st mem (FIXED_HEADER_SIZE_W + unat ext) pl x (meta_of mt ts x) res);
         Some (status, st', Some res')
       })"
proof -
  have l: "20 \<le> length mem" using len by (simp add: FIXED_HEADER_SIZE_W_def)
  obtain ts where ts: "read_be64 mem 5 = Some ts" using be64.re_total [of 5 mem] l by auto
  obtain pl where pl: "read_be32 mem 14 = Some pl" using be32.re_total [of 14 mem] l by auto
  from pl hon have small: "unat pl < 2 ^ 31 - 275"
    by (simp add: honest_length_def payload_length_field_def)
  then have s: "sint pl = int (unat pl)"
    by (intro sint_small32) simp
  have b: "uint (mem ! 13) \<le> 255" "0 \<le> uint (mem ! 13)"
    using uint_bounded [of "mem ! 13"] by simp_all
  have "uint pl < 2147483373" "0 \<le> uint pl" using uint_lt_of_unat [OF small] by simp_all
  with b have "i32_add (int FIXED_HEADER_SIZE_W + uint (mem ! 13)) (sint pl)
      = Some (int FIXED_HEADER_SIZE_W + uint (mem ! 13) + sint pl)"
    by (simp add: s i32_add_def FIXED_HEADER_SIZE_W_def)
  with l ts pl ok have
    "frame_protocol_parse mok st (Some mem) (int (length mem)) (Some res) =
      (if int (length mem) < int FIXED_HEADER_SIZE_W + uint (mem ! 13) + sint pl
       then Some (FRAME_ERROR, st, Some res)
       else do {
         x \<leftarrow> parse_ext_headers mem FIXED_HEADER_SIZE_W (mem ! 13) (mem ! 4) (mem ! 3);
         (status, st', res') \<leftarrow>
           (if mem ! 4 AND FLAG_FRAGMENT_W = 0
            then parse_whole mok st mem (FIXED_HEADER_SIZE_W + unat (mem ! 13)) pl
              (meta_of (mem ! 3) ts x) res
            else parse_fragment mok st mem (FIXED_HEADER_SIZE_W + unat (mem ! 13)) pl x
              (meta_of (mem ! 3) ts x) res);
         Some (status, st', Some res')
       })"
    unfolding frame_protocol_parse_def FIXED_HEADER_SIZE_W_def by (simp add: Let_def)
  then show thesis using pl s l by (intro that [of pl "mem ! 13"]) simp_all
qed

text \<open>
  Undefined behaviour is excluded: a frame handed over with its true length, below 16 MiB and
  with a payload length that fits the \<open>int\<close> arithmetic, is parsed to a status from any
  state that satisfies the invariant, and the invariant holds afterwards.
\<close>

lemma parse_defined_and_inv:
  assumes inv: "parser_inv st" and ini: "g_initialized st" and alloc: "arrays_alloc_ok mok"
    and hon: "honest_length mem" and short: "length mem < 2 ^ 24"
  shows "\<exists>status st' res'. frame_protocol_parse mok st (Some mem) (int (length mem)) (Some res)
      = Some (status, st', Some res') \<and> parser_inv st' \<and> g_initialized st'"
proof (cases "FIXED_HEADER_SIZE_W \<le> length mem")
  case False
  with inv ini show ?thesis by (simp add: frame_protocol_parse_def)
next
  case len: True
  then have l20: "20 \<le> length mem" by (simp add: FIXED_HEADER_SIZE_W_def)
  obtain hs where hs: "header_ok_status mem = Some hs" using header_ok_status_defined [OF l20] by blast
  show ?thesis
  proof (cases hs)
    case (Some status)
    with hs inv ini len show ?thesis by (simp add: frame_protocol_parse_def)
  next
    case None
    with hs have ok: "header_ok_status mem = Some None" by simp
    obtain mt flags ts ext pl where pl: "sint pl = int (unat pl)"
      and parse: "frame_protocol_parse mok st (Some mem) (int (length mem)) (Some res) =
      (if int (length mem) < int FIXED_HEADER_SIZE_W + uint ext + sint pl
       then Some (FRAME_ERROR, st, Some res)
       else do {
         x \<leftarrow> parse_ext_headers mem FIXED_HEADER_SIZE_W ext flags mt;
         (status, st', res') \<leftarrow>
           (if flags AND FLAG_FRAGMENT_W = 0
            then parse_whole mok st mem (FIXED_HEADER_SIZE_W + unat ext) pl (meta_of mt ts x) res
            else parse_fragment mok st mem (FIXED_HEADER_SIZE_W + unat ext) pl x (meta_of mt ts x) res);
         Some (status, st', Some res')
       })"
      by (rule frame_protocol_parse_body [OF len hon ok]) blast
    show ?thesis
    proof (cases "int (length mem) < int FIXED_HEADER_SIZE_W + uint ext + sint pl")
      case True
      with parse inv ini show ?thesis by simp
    next
      case False
      then have "int (FIXED_HEADER_SIZE_W + unat ext + unat pl) \<le> int (length mem)"
        unfolding pl by (simp only: of_nat_add uint_nat)
      then have room: "FIXED_HEADER_SIZE_W + unat ext + unat pl \<le> length mem" by linarith
      then have small: "unat pl < 2 ^ 24" using short by linarith
      obtain x where x: "parse_ext_headers mem FIXED_HEADER_SIZE_W ext flags mt = Some x"
        using parse_ext_headers_defined [of FIXED_HEADER_SIZE_W ext mem] room by auto
      obtain fs where fs: "g_fragments st = Some fs" "table_inv fs"
        using inv ini by (auto simp: parser_inv_def split: option.splits)
      show ?thesis
        using parse False x inv ini
          parse_whole_safe [OF room, of mok st "meta_of mt ts x" res]
          parse_fragment_safe [OF fs ini alloc room small, of x "meta_of mt ts x" res]
        by (cases "flags AND FLAG_FRAGMENT_W = 0") auto
    qed
  qed
qed

end
