(* ===== verification/FrameRoundtrip.thy ===== *)
theory FrameRoundtrip
  imports FrameEncoder FrameParserInv
begin

text \<open>
  The server's encoder (src/server/frame_protocol.cpp) against the browser's parser
  (src/wasm/frame_protocol.c): what is sent is what is delivered. The locale \<open>media_kind\<close> is
  what the argument needs of a message type and its four bytes of type-specific header; video
  and audio are its interpretations.
\<close>

section \<open>Header reads relative to the extension area\<close>

lemma rd_drop: "p \<le> length mem \<Longrightarrow> rd mem (p + q) = rd (drop p mem) q"
  using rd_append_plus(1) [of "take p mem" "drop p mem" q] by simp

lemma read_be16_drop: "p \<le> length mem \<Longrightarrow> read_be16 mem (p + q) = read_be16 (drop p mem) q"
  using be16.re_append_right [of "take p mem" "p + q" "drop p mem"] by simp

lemma read_be64_drop: "p \<le> length mem \<Longrightarrow> read_be64 mem (p + q) = read_be64 (drop p mem) q"
  using be64.re_append_right [of "take p mem" "p + q" "drop p mem"] by simp

lemmas reads_drop = rd_drop read_be16_drop read_be64_drop
  rd_drop [where q = "Suc q" for q, simplified] rd_drop [where q = "Suc (Suc q)" for q, simplified]
  read_be16_drop [where q = "Suc (Suc q)" for q, simplified]
  read_be64_drop [where q = "Suc (Suc q)" for q, simplified]

lemma parse_ext_typed_drop:
  "p \<le> length mem \<Longrightarrow> parse_ext_typed mem p ext mt s = parse_ext_typed (drop p mem) 0 ext mt s"
  by (cases s) (simp add: parse_ext_typed_def reads_drop add.assoc cong: if_cong)

lemma parse_ext_headers_drop:
  assumes "p \<le> length mem"
  shows "parse_ext_headers mem p ext flags mt = parse_ext_headers (drop p mem) 0 ext flags mt"
proof -
  have "parse_ext_fragment mem p ext flags s = parse_ext_fragment (drop p mem) 0 ext flags s" for s
    using assms by (cases s) (simp add: parse_ext_fragment_def reads_drop add.assoc cong: if_cong)
  moreover have "parse_ext_common mem p ext flags s = parse_ext_common (drop p mem) 0 ext flags s" for s
    using assms by (cases s) (simp add: parse_ext_common_def reads_drop add.assoc cong: if_cong)
  ultimately show ?thesis
    using parse_ext_typed_drop [OF assms] by (simp add: parse_ext_headers_def)
qed

section \<open>Reading a fixed header back\<close>

lemma fixed_header_reads:
  assumes mem: "mem = fixed_header mt flags ts ext len @ e"
  shows "header_ok_status mem = Some None" "rd mem 3 = Some (MsgType_code mt)"
    "rd mem 4 = Some flags" "read_be64 mem 5 = Some ts" "rd mem 13 = Some ext"
    "read_be32 mem 14 = Some len"
  unfolding mem fixed_header_def header_ok_status_def
  by (simp_all add: layout_simps PROTOCOL_MAGIC_def PROTOCOL_MAGIC_W_def PROTOCOL_VERSION_def
      PROTOCOL_VERSION_W_def)

lemma parse_encoded:
  assumes e: "length e = unat ext" and p: "length p = unat len" and small: "length p < 2 ^ 24"
    and mem: "mem = fixed_header mt flags ts ext len @ e @ p"
  shows "frame_protocol_parse mok st (Some mem) (int (length mem)) (Some res) =
      do {
        x \<leftarrow> parse_ext_headers (e @ p) 0 ext flags (MsgType_code mt);
        (status, st', res') \<leftarrow>
          (if flags AND FLAG_FRAGMENT_W = 0
           then parse_whole mok st mem (20 + unat ext) len (meta_of (MsgType_code mt) ts x) res
           else parse_fragment mok st mem (20 + unat ext) len x (meta_of (MsgType_code mt) ts x) res);
        Some (status, st', Some res')
      }"
proof -
  note reads = fixed_header_reads [OF mem]
  have l: "length mem = 20 + unat ext + unat len" unfolding mem using e p
    by (simp add: FIXED_HEADER_SIZE_def)
  have "unat len < 2 ^ 31" using p small by simp
  from sint_small32 [OF this] have s: "sint len = int (unat len)" .
  have u: "uint len < 2 ^ 24" using uint_lt_of_unat [of len "2 ^ 24"] p small by simp
  have b: "uint ext \<le> 255" "0 \<le> uint ext" using uint_bounded [of ext] by simp_all
  have i: "i32_add (20 + uint ext) (sint len) = Some (20 + uint ext + uint len)"
    using b u uint_ge_0 [of len] by (simp add: s i32_add_def)
  have n: "\<not> int (length mem) < 20 + uint ext + uint len" by (simp add: l)
  have n': "\<not> uint ext + uint len < 0" using uint_ge_0 [of ext] uint_ge_0 [of len] by linarith
  have d: "drop 20 mem = e @ p" by (simp add: mem FIXED_HEADER_SIZE_def)
  have pe: "parse_ext_headers mem 20 ext flags mt' = parse_ext_headers (e @ p) 0 ext flags mt'" for mt'
    using parse_ext_headers_drop [of 20 mem] l d by simp
  show ?thesis
    unfolding frame_protocol_parse_def FIXED_HEADER_SIZE_W_def
    using reads i n n' l by (simp add: Let_def pe)
qed

section \<open>Entries during reassembly\<close>

text \<open>The entry of a frame of which the fragments in \<open>S\<close> have arrived.\<close>

definition partial_entry ::
  "u16 \<Rightarrow> u16 \<Rightarrow> (nat \<Rightarrow> byte list) \<Rightarrow> frame_meta \<Rightarrow> nat set \<Rightarrow> FragmentEntry" where
  "partial_entry fid tot c M S = (fresh_entry fid tot)
     \<lparr>fe_received_count := of_nat (card S),
      fe_fragment_data := Some (map (\<lambda>j. if j \<in> S then Some (c j) else None) [0..<unat tot]),
      fe_fragment_sizes := Some (map (\<lambda>j. if j \<in> S then of_nat (length (c j)) else 0) [0..<unat tot]),
      fe_fragment_present := Some (map (\<lambda>j. j \<in> S) [0..<unat tot]),
      fe_meta := (if 0 \<in> S then M else zero_meta)\<rparr>"

lemma partial_entry_empty: "partial_entry fid tot c M {} = fresh_entry fid tot"
  by (simp add: partial_entry_def fresh_entry_def zero_entry_def map_replicate_const)

lemma partial_entry_simps [simp]:
  "fe_active (partial_entry fid tot c M S)" "fe_frame_id (partial_entry fid tot c M S) = fid"
  "fe_total_fragments (partial_entry fid tot c M S) = tot"
  "fe_received_count (partial_entry fid tot c M S) = of_nat (card S)"
  "fe_fragment_data (partial_entry fid tot c M S)
    = Some (map (\<lambda>j. if j \<in> S then Some (c j) else None) [0..<unat tot])"
  "fe_meta (partial_entry fid tot c M S) = (if 0 \<in> S then M else zero_meta)"
  by (simp_all add: partial_entry_def)

lemma card_below:
  assumes "S \<subseteq> {..<n::nat}" shows "card S \<le> n" "card S < n \<longleftrightarrow> S \<noteq> {..<n}"
proof -
  show "card S \<le> n" using card_mono [OF _ assms] by simp
  have "card S = n \<Longrightarrow> S = {..<n}" using card_subset_eq [OF _ assms] by simp
  with \<open>card S \<le> n\<close> show "card S < n \<longleftrightarrow> S \<noteq> {..<n}" by (auto simp: le_less)
qed

lemma partial_entry_ok:
  assumes S: "S \<subseteq> {..<unat tot}" and tot: "0 < tot" "unat tot \<le> MAX_FRAGMENTS"
    and c: "\<And>j. length (c j) < 2 ^ 24"
  shows "entry_ok (partial_entry fid tot c M S)"
proof -
  have "length (filter id (map (\<lambda>j. j \<in> S) [0..<unat tot])) = card {j. j < unat tot \<and> j \<in> S}"
    by (simp add: filter_map o_def length_filter_conv_card cong: conj_cong)
  also have "{j. j < unat tot \<and> j \<in> S} = S" using S by auto
  finally have count: "length (filter id (map (\<lambda>j. j \<in> S) [0..<unat tot])) = card S" .
  have "card S < 2 ^ 16" using card_below(1) [OF S] tot(2) by (simp add: MAX_FRAGMENTS_def)
  then have card: "unat (of_nat (card S) :: u16) = card S" by simp
  have "unat (of_nat (length (c j)) :: u32) = length (c j)" for j using c [of j] by simp
  with tot count card c show ?thesis by (simp add: entry_ok_def partial_entry_def)
qed

lemma partial_entry_insert:
  assumes "i < unat tot" and "i \<notin> S" and "finite S"
    and e_def: "e = partial_entry fid tot c M S"
  shows "(if i = 0 then e\<lparr>fe_meta := M\<rparr> else e)
      \<lparr>fe_fragment_data := Some ((map (\<lambda>j. if j \<in> S then Some (c j) else None) [0..<unat tot])[i := Some (c i)]),
       fe_fragment_sizes := map_option (\<lambda>s. s[i := of_nat (length (c i))]) (fe_fragment_sizes e),
       fe_fragment_present := map_option (\<lambda>p. p[i := True]) (fe_fragment_present e),
       fe_received_count := fe_received_count e + 1\<rparr>
    = partial_entry fid tot c M (insert i S)"
proof -
  have "(map (\<lambda>j. if j \<in> S then Some (c j) else None) [0..<unat tot])[i := Some (c i)]
      = map (\<lambda>j. if j \<in> insert i S then Some (c j) else None) [0..<unat tot]"
    "(map (\<lambda>j. if j \<in> S then of_nat (length (c j)) else (0 :: u32)) [0..<unat tot])[i := of_nat (length (c i))]
      = map (\<lambda>j. if j \<in> insert i S then of_nat (length (c j)) else 0) [0..<unat tot]"
    "(map (\<lambda>j. j \<in> S) [0..<unat tot])[i := True] = map (\<lambda>j. j \<in> insert i S) [0..<unat tot]"
    using assms(1) by (auto intro!: nth_equalityI simp: nth_list_update split: if_splits)
  then show ?thesis using assms(2,3)
    by (auto simp: e_def partial_entry_def fresh_entry_def zero_entry_def)
qed

text \<open>Storing the next fragment, and delivering when it is the last.\<close>

lemma deliver_next:
  assumes S: "S \<subseteq> {..<unat tot}" and i: "i < unat tot" "i \<notin> S"
    and tot: "0 < tot" "unat tot \<le> MAX_FRAGMENTS" and c: "\<And>j. length (c j) < 2 ^ 24"
    and mem: "drop q mem = c i" and q: "q \<le> length mem"
    and mok: "\<forall>site n. mok site n"
    and entry: "fs ! idx = partial_entry fid tot c M S" "idx < length fs"
  shows "deliver_fragment mok st mem q (of_nat (length (c i))) (of_nat i) res fs idx
      (if i = 0 then (fs ! idx)\<lparr>fe_meta := M\<rparr> else fs ! idx)
    = (if insert i S = {..<unat tot} then
         Some (FRAME_COMPLETE,
           st\<lparr>g_fragments := Some (fs[idx := free_fragment_entry (partial_entry fid tot c M (insert i S))])\<rparr>,
           \<lparr>pf_meta = M, pf_payload = Some (concat (map c [0..<unat tot])),
            pf_payload_size = of_nat (length (concat (map c [0..<unat tot])))\<rparr>)
       else Some (FRAME_FRAGMENT_PENDING,
           st\<lparr>g_fragments := Some (fs[idx := partial_entry fid tot c M (insert i S)])\<rparr>, res))"
proof -
  have fin: "finite S" using S finite_subset by blast
  let ?e = "if i = 0 then (fs ! idx)\<lparr>fe_meta := M\<rparr> else fs ! idx"
  let ?e' = "partial_entry fid tot c M (insert i S)"
  have iw: "unat (of_nat i :: u16) = i" "(of_nat i :: u16) < tot"
    using i(1) tot(2) by (auto simp: MAX_FRAGMENTS_def word_less_nat_alt)
  have cl: "unat (of_nat (length (c i)) :: u32) = length (c i)" using c [of i] by simp
  have ok: "entry_ok ?e" using partial_entry_ok [where fid = fid and M = M, OF S tot c] entry by simp
  have S': "insert i S \<subseteq> {..<unat tot}" using S i by auto
  have "S \<noteq> {..<unat tot}" using i by auto
  with card_below [OF S] have lt: "card S < unat tot" by simp
  have small: "card S < 2 ^ 16" using lt tot(2) by (simp add: MAX_FRAGMENTS_def)
  have cnt: "fe_received_count ?e < fe_total_fragments ?e"
    using lt small entry by (simp add: word_less_nat_alt)
  have len: "q + length (c i) \<le> length mem" using mem q by (metis add_le_imp_le_diff length_drop le_diff_conv2 order_refl add.commute)
  have d: "fe_fragment_data ?e = Some (map (\<lambda>j. if j \<in> S then Some (c j) else None) [0..<unat tot])"
    using entry by simp
  have none: "(map (\<lambda>j. if j \<in> S then Some (c j) else None) [0..<unat tot]) ! i = None"
    using i by simp
  have stored: "store_fragment mok mem q (of_nat (length (c i))) (of_nat i) ?e = Some (Inr ?e')"
    using store_fragment_cases [OF ok cnt _ _ d, of q "of_nat (length (c i))" mem mok "of_nat i"]
      len c [of i] partial_entry_insert [OF i fin entry(1)] iw none mok entry
    by (auto simp: cl mem)
  have card': "unat (of_nat (card (insert i S)) :: u16) = card (insert i S)"
    using card_below(1) [OF S'] tot(2) by (simp add: MAX_FRAGMENTS_def)
  show ?thesis
  proof (cases "insert i S = {..<unat tot}")
    case True
    have full: "fe_total_fragments ?e' \<le> fe_received_count ?e'"
      using True by (simp add: word_le_nat_alt)
    have data: "fe_fragment_data ?e' = Some (map (Some \<circ> c) [0..<unat tot])"
      using True by (auto simp: partial_entry_def)
    have "0 \<in> insert i S" using True tot(1) by (simp add: word_gt_0_no unat_gt_0 word_neq_0_conv)
    then show ?thesis
      using stored full reassemble_full [OF partial_entry_ok [OF S' tot c] full data, of mok] mok True
      by (simp add: deliver_fragment_def Let_def o_def)
  next
    case False
    with card_below [OF S'] have "card (insert i S) < unat tot" by simp
    then have "\<not> fe_total_fragments ?e' \<le> fe_received_count ?e'"
      using card' by (simp add: word_le_nat_alt)
    with stored False show ?thesis by (simp add: deliver_fragment_def)
  qed
qed

text \<open>The parser has received the fragments in \<open>S\<close> of frame \<open>fid\<close>, and no others of it.\<close>

definition reassembling ::
  "parser_state \<Rightarrow> u16 \<Rightarrow> u16 \<Rightarrow> (nat \<Rightarrow> byte list) \<Rightarrow> frame_meta \<Rightarrow> nat set \<Rightarrow> bool" where
  "reassembling st fid tot c M S \<longleftrightarrow> parser_inv st \<and> (\<exists>fs. g_fragments st = Some fs \<and>
     (case find_fragment_entry fs fid of None \<Rightarrow> S = {}
      | Some idx \<Rightarrow> fs ! idx = partial_entry fid tot c M S))"

lemma all_alloc: "\<forall>site n. mok site n \<Longrightarrow> arrays_alloc_ok mok"
  by (simp add: arrays_alloc_ok_def)

lemma parser_invD:
  "parser_inv st \<Longrightarrow> g_fragments st = Some fs \<Longrightarrow> table_inv fs \<and> g_initialized st"
  by (auto simp: parser_inv_def)

lemma find_after_free:
  assumes inv: "table_inv fs" and find: "find_fragment_entry fs fid = Some idx" and e: "\<not> fe_active e"
  shows "find_fragment_entry (fs[idx := e]) fid = None"
proof (rule ccontr)
  assume "find_fragment_entry (fs[idx := e]) fid \<noteq> None"
  then obtain j where "find_fragment_entry (fs[idx := e]) fid = Some j" by auto
  note j = find_fragment_entryD [OF this]
  with e have "j \<noteq> idx" by (auto simp: nth_list_update)
  with j find_fragment_entryD [OF find] table_inv_ids [OF inv] show False by auto
qed

text \<open>The entry that the next fragment goes to, found or allocated.\<close>

lemma parse_fragment_entry:
  assumes re: "reassembling st fid tot c M S" and tot: "tot \<noteq> 0" "unat tot \<le> MAX_FRAGMENTS"
    and mok: "\<forall>site n. mok site n" and x: "x_frame_id x = fid" "x_total_frags x = tot"
  obtains fs idx where "table_inv fs" "idx < length fs" "find_fragment_entry fs fid = Some idx"
    "fs ! idx = partial_entry fid tot c M S"
    "parse_fragment mok st mem q pl x m res =
      deliver_fragment mok st mem q pl (x_frag_index x) res fs idx
        (if x_frag_index x = 0 then (fs ! idx)\<lparr>fe_meta := m\<rparr> else fs ! idx)"
proof -
  obtain fs where fs: "g_fragments st = Some fs" and inv: "table_inv fs"
    and S: "case find_fragment_entry fs fid of None \<Rightarrow> S = {}
      | Some idx \<Rightarrow> fs ! idx = partial_entry fid tot c M S"
    using re parser_invD unfolding reassembling_def by blast
  show thesis
  proof (cases "find_fragment_entry fs fid")
    case (Some idx)
    then show thesis
      using that [OF inv find_fragment_entryD(1) [OF Some] Some] S
        parse_fragment_found [of x st fs idx] tot fs x by simp
  next
    case None
    have pos: "0 < tot" using tot(1) by (simp add: word_gt_0)
    obtain i where i: "i < length fs"
      "alloc_fragment_entry mok fs fid tot = (fs[i := fresh_entry fid tot], i)"
      "table_inv (fs[i := fresh_entry fid tot])"
      using alloc_keeps_table [OF all_alloc pos tot(2) inv None, of mok] mok by blast
    have "find_fragment_entry (fs[i := fresh_entry fid tot]) fid = Some i"
      using find_idx_update_new [OF None [unfolded find_fragment_entry_def] i(1)]
      by (simp add: find_fragment_entry_def)
    with that [OF i(3) _ this] show thesis
      using parse_fragment_fresh [of x st fs mok "fs[i := fresh_entry fid tot]" i] None S i tot fs x
      by (simp add: partial_entry_empty)
  qed
qed

lemma parse_fragment_next:
  assumes re: "reassembling st fid tot c M S" and tot: "tot \<noteq> 0" "unat tot \<le> MAX_FRAGMENTS"
    and S: "S \<subseteq> {..<unat tot}" and i: "i < unat tot" "i \<notin> S"
    and c: "\<And>j. length (c j) < 2 ^ 24" and mem: "drop q mem = c i" "q \<le> length mem"
    and mok: "\<forall>site n. mok site n"
    and x: "x_frame_id x = fid" "x_frag_index x = of_nat i" "x_total_frags x = tot"
    and m: "i = 0 \<Longrightarrow> m = M"
  shows "\<exists>st'. (if insert i S = {..<unat tot} then
      parse_fragment mok st mem q (of_nat (length (c i))) x m res
        = Some (FRAME_COMPLETE, st', \<lparr>pf_meta = M, pf_payload = Some (concat (map c [0..<unat tot])),
            pf_payload_size = of_nat (length (concat (map c [0..<unat tot])))\<rparr>)
        \<and> reassembling st' fid tot c M {}
      else parse_fragment mok st mem q (of_nat (length (c i))) x m res
        = Some (FRAME_FRAGMENT_PENDING, st', res) \<and> reassembling st' fid tot c M (insert i S))"
proof -
  obtain fs idx where fs: "table_inv fs" "idx < length fs" "find_fragment_entry fs fid = Some idx"
    "fs ! idx = partial_entry fid tot c M S"
    and parse: "parse_fragment mok st mem q (of_nat (length (c i))) x m res =
      deliver_fragment mok st mem q (of_nat (length (c i))) (x_frag_index x) res fs idx
        (if x_frag_index x = 0 then (fs ! idx)\<lparr>fe_meta := m\<rparr> else fs ! idx)"
    by (rule parse_fragment_entry [OF re tot mok x(1,3)])
  have pos: "0 < tot" using tot(1) by (simp add: word_gt_0)
  have "unat (of_nat i :: u16) = i" using i tot(2) by (simp add: MAX_FRAGMENTS_def)
  then have i0: "x_frag_index x = 0 \<longleftrightarrow> i = 0" by (simp add: x(2) word_unat_eq_iff)
  have parse': "parse_fragment mok st mem q (of_nat (length (c i))) x m res =
      deliver_fragment mok st mem q (of_nat (length (c i))) (of_nat i) res fs idx
        (if i = 0 then (fs ! idx)\<lparr>fe_meta := M\<rparr> else fs ! idx)"
    using parse i0 m x(2) by simp
  note deliver = deliver_next [OF S i pos tot(2) c mem mok fs(4,2), of st res]
  have ini: "g_initialized st"
    using re unfolding reassembling_def parser_inv_def by (auto split: option.splits)
  show ?thesis
  proof (cases "insert i S = {..<unat tot}")
    case True
    let ?e = "free_fragment_entry (partial_entry fid tot c M (insert i S))"
    have inv': "table_inv (fs[idx := ?e])" using fs(1) by (intro table_inv_update) auto
    have "find_fragment_entry (fs[idx := ?e]) fid = None"
      using find_after_free [OF fs(1,3)] by simp
    with inv' ini have "reassembling (st\<lparr>g_fragments := Some (fs[idx := ?e])\<rparr>) fid tot c M {}"
      by (simp add: reassembling_def parser_inv_def)
    with True parse' deliver show ?thesis by auto
  next
    case False
    let ?e = "partial_entry fid tot c M (insert i S)"
    have S': "insert i S \<subseteq> {..<unat tot}" using S i by auto
    have cb: "card (insert i S) < unat tot" using card_below [OF S'] False by simp
    then have "unat (of_nat (card (insert i S)) :: u16) = card (insert i S)"
      using tot(2) by (simp add: MAX_FRAGMENTS_def)
    with cb have "(of_nat (card (insert i S)) :: u16) < tot" by (simp add: word_less_nat_alt)
    with partial_entry_ok [where fid = fid and M = M, OF S' pos tot(2) c] have "entry_inv ?e"
      unfolding entry_inv_def by simp
    then have inv': "table_inv (fs[idx := ?e])"
      using fs(1,2) find_fragment_entryD [OF fs(3)] by (intro table_inv_update_same) auto
    have "find_fragment_entry (fs[idx := ?e]) fid = Some idx"
      using find_idx_update_hit [OF fs(3) [unfolded find_fragment_entry_def]]
      by (simp add: find_fragment_entry_def)
    with inv' ini fs(2) have "reassembling (st\<lparr>g_fragments := Some (fs[idx := ?e])\<rparr>) fid tot c M (insert i S)"
      by (simp add: reassembling_def parser_inv_def)
    with False parse' deliver show ?thesis by auto
  qed
qed

section \<open>A sequence of frames\<close>

text \<open>Frames handed to the parser one after the other, each result reused for the next call.\<close>

fun parse_seq ::
  "malloc_ok \<Rightarrow> parser_state \<Rightarrow> ParsedFrame option \<Rightarrow> byte list list
    \<Rightarrow> (FrameParseStatus list \<times> parser_state \<times> ParsedFrame option) option" where
  "parse_seq mok st res [] = Some ([], st, res)"
| "parse_seq mok st res (f # fs) = do {
     (status, st', res') \<leftarrow> frame_protocol_parse mok st (Some f) (int (length f)) res;
     (statuses, st'', res'') \<leftarrow> parse_seq mok st' res' fs;
     Some (status # statuses, st'', res'')
   }"

section \<open>The kinds of media\<close>

locale media_kind =
  fixes mt :: MsgType and te :: "byte list" and typed :: "ext_info \<Rightarrow> ext_info"
  assumes length_te: "length te = 4"
    and typed_at: "length pre = unat off \<Longrightarrow> unat off + 4 \<le> unat ext \<Longrightarrow>
      parse_ext_typed (pre @ te @ post) 0 ext (MsgType_code mt) (off, x) = Some (typed x)"
    and typed_frag: "typed (x\<lparr>x_frame_id := f, x_frag_index := i, x_total_frags := n\<rparr>)
      = (typed x)\<lparr>x_frame_id := f, x_frag_index := i, x_total_frags := n\<rparr>"
begin

lemma typed_absent:
  "unat ext < unat off + 4 \<Longrightarrow> parse_ext_typed mem p ext m (off, x) = Some x"
  by (simp add: parse_ext_typed_def)

lemma ext_whole:
  "parse_ext_headers (common_ext t @ te @ post) 0 14 FLAG_HAS_COMMON (MsgType_code mt)
    = Some (typed (zero_ext\<lparr>x_abs_time := t\<rparr>))"
  using typed_at [of "common_ext t" 10 14]
  by (simp add: parse_ext_headers_def parse_ext_fragment_def parse_ext_common_def wasm_consts
      protocol_consts common_ext_def layout_simps)

lemma ext_first:
  "parse_ext_headers (fragment_ext fid i tot @ common_ext t @ te @ post) 0 20
     (FLAG_FRAGMENT OR FLAG_HAS_COMMON) (MsgType_code mt)
    = Some (typed (zero_ext\<lparr>x_frame_id := fid, x_frag_index := i, x_total_frags := tot,
        x_abs_time := t\<rparr>))"
  using typed_at [of "fragment_ext fid i tot @ common_ext t" 16 20]
  by (simp add: parse_ext_headers_def parse_ext_fragment_def parse_ext_common_def wasm_consts
      protocol_consts common_ext_def fragment_ext_def layout_simps)

lemma ext_later:
  "parse_ext_headers (fragment_ext fid i tot @ post) 0 6 FLAG_FRAGMENT (MsgType_code mt)
    = Some (zero_ext\<lparr>x_frame_id := fid, x_frag_index := i, x_total_frags := tot\<rparr>)"
  by (simp add: parse_ext_headers_def parse_ext_fragment_def parse_ext_common_def wasm_consts
      protocol_consts fragment_ext_def layout_simps typed_absent)

lemma whole_frame:
  assumes small: "length payload \<le> FRAGMENT_THRESHOLD" and mok: "mok SitePayload (length payload)"
    and frame: "encode_media mt te payload ts t fid = [f]"
  shows "frame_protocol_parse mok st (Some f) (int (length f)) (Some res)
    = Some (FRAME_COMPLETE, st, Some \<lparr>pf_meta = meta_of (MsgType_code mt) ts (typed (zero_ext\<lparr>x_abs_time := t\<rparr>)),
        pf_payload = (if payload = [] then None else Some payload),
        pf_payload_size = of_nat (length payload)\<rparr>)"
proof -
  have f: "f = fixed_header mt FLAG_HAS_COMMON ts 14 (of_nat (length payload))
      @ (common_ext t @ te) @ payload"
    using frame small by (simp add: encode_media_def)
  have len: "length payload < 2 ^ 24" using small by (simp add: FRAGMENT_THRESHOLD_def)
  then have u: "unat (of_nat (length payload) :: u32) = length payload" by simp
  have "drop (20 + unat (14 :: byte)) f = payload"
    by (simp add: f length_te FIXED_HEADER_SIZE_def)
  moreover have "length f = 34 + length payload"
    by (simp add: f length_te FIXED_HEADER_SIZE_def)
  ultimately have body: "rd_range f (20 + unat (14 :: byte)) (length payload) = Some payload"
    by simp
  have pos: "0 < (of_nat (length payload) :: u32) \<longleftrightarrow> payload \<noteq> []"
    using u by (metis length_greater_0_conv unat_0 word_less_nat_alt)
  have "parse_whole mok st f (20 + unat (14 :: byte)) (of_nat (length payload)) m res
      = Some (FRAME_COMPLETE, st, \<lparr>pf_meta = m, pf_payload = (if payload = [] then None else Some payload),
          pf_payload_size = of_nat (length payload)\<rparr>)" for m
    using body mok pos u unfolding parse_whole_def Let_def by (simp del: rd_range_defined)
  then show ?thesis
    using parse_encoded [of "common_ext t @ te" 14 payload, OF _ _ len f] ext_whole [of t payload]
    by (simp add: length_te u FLAG_HAS_COMMON_def FLAG_FRAGMENT_W_def)
qed

text \<open>The parser's view of fragment \<open>i\<close> of a frame.\<close>

lemma parse_of_fragment:
  assumes f: "f = media_fragment mt te payload ts t fid tot i"
  shows "\<exists>q \<le> length f. drop q f = chunk FRAGMENT_THRESHOLD payload i \<and>
    (\<exists>x. x_frame_id x = fid \<and> x_frag_index x = of_nat i \<and> x_total_frags x = tot \<and>
      (i = 0 \<longrightarrow> meta_of (MsgType_code mt) ts x
         = meta_of (MsgType_code mt) ts (typed (zero_ext\<lparr>x_abs_time := t\<rparr>))) \<and>
      frame_protocol_parse mok st (Some f) (int (length f)) (Some res) = do {
        (status, st', res') \<leftarrow>
           parse_fragment mok st f q (of_nat (length (chunk FRAGMENT_THRESHOLD payload i))) x
             (meta_of (MsgType_code mt) ts x) res;
        Some (status, st', Some res') })"
proof -
  let ?c = "chunk FRAGMENT_THRESHOLD payload i"
  have len: "length ?c < 2 ^ 24" by (simp add: length_chunk FRAGMENT_THRESHOLD_def min_def)
  then have u: "unat (of_nat (length ?c) :: u32) = length ?c" by simp
  show ?thesis
  proof (cases "i = 0")
    case True
    have f: "f = fixed_header mt (FLAG_FRAGMENT OR FLAG_HAS_COMMON) ts 20 (of_nat (length ?c))
        @ (fragment_ext fid 0 tot @ common_ext t @ te) @ ?c"
      using f True by (simp add: media_fragment_def Let_def)
    let ?x = "typed (zero_ext\<lparr>x_frame_id := fid, x_frag_index := 0, x_total_frags := tot, x_abs_time := t\<rparr>)"
    have x: "?x = (typed (zero_ext\<lparr>x_abs_time := t\<rparr>))
        \<lparr>x_frame_id := fid, x_frag_index := 0, x_total_frags := tot\<rparr>"
      using typed_frag [where x = "zero_ext\<lparr>x_abs_time := t\<rparr>" and f = fid and i = 0 and n = tot] by (simp add: zero_ext_def)
    have parse: "frame_protocol_parse mok st (Some f) (int (length f)) (Some res) = do {
        (status, st', res') \<leftarrow>
           parse_fragment mok st f 40 (of_nat (length ?c)) ?x (meta_of (MsgType_code mt) ts ?x) res;
        Some (status, st', Some res') }"
      using parse_encoded [of "fragment_ext fid 0 tot @ common_ext t @ te" 20 ?c, OF _ _ len f]
        ext_first [of fid 0 tot t ?c]
      by (simp add: length_te u FLAG_FRAGMENT_def FLAG_HAS_COMMON_def FLAG_FRAGMENT_W_def)
    have "drop 40 f = ?c" "40 \<le> length f" by (simp_all add: f length_te FIXED_HEADER_SIZE_def)
    moreover have "meta_of (MsgType_code mt) ts ?x = meta_of (MsgType_code mt) ts (typed (zero_ext\<lparr>x_abs_time := t\<rparr>))"
      unfolding x by (simp add: meta_of_def)
    moreover have "x_frame_id ?x = fid \<and> x_frag_index ?x = of_nat i \<and> x_total_frags ?x = tot"
      unfolding x using True by simp
    ultimately show ?thesis using parse True by blast
  next
    case False
    have f: "f = fixed_header mt FLAG_FRAGMENT ts 6 (of_nat (length ?c))
        @ fragment_ext fid (of_nat i) tot @ ?c"
      using f False by (simp add: media_fragment_def Let_def)
    let ?x = "zero_ext\<lparr>x_frame_id := fid, x_frag_index := of_nat i, x_total_frags := tot\<rparr>"
    have parse: "frame_protocol_parse mok st (Some f) (int (length f)) (Some res) = do {
        (status, st', res') \<leftarrow>
           parse_fragment mok st f 26 (of_nat (length ?c)) ?x (meta_of (MsgType_code mt) ts ?x) res;
        Some (status, st', Some res') }"
      using parse_encoded [of "fragment_ext fid (of_nat i) tot" 6 ?c, OF _ _ len f]
        ext_later [of fid "of_nat i" tot ?c]
      by (simp add: u FLAG_FRAGMENT_def FLAG_FRAGMENT_W_def)
    have "drop 26 f = ?c" "26 \<le> length f" by (simp_all add: f FIXED_HEADER_SIZE_def)
    moreover have "x_frame_id ?x = fid \<and> x_frag_index ?x = of_nat i \<and> x_total_frags ?x = tot" by simp
    ultimately show ?thesis using parse False by blast
  qed
qed

text \<open>
  The fragments of a frame in any order: every one but the last is pending, the last one
  delivers the payload with the metadata of fragment 0, and the entry is free again.
\<close>

lemma fragments_any_order:
  assumes n: "n = n_fragments (length payload)" "0 < n" "n \<le> MAX_FRAGMENTS"
    and frames: "\<And>i. i < n \<Longrightarrow> F i = media_fragment mt te payload ts t fid (of_nat n) i"
    and mok: "\<forall>site k. mok site k"
    and ks: "distinct ks" "set ks \<inter> S = {}" "set ks \<union> S = {..<n}" "ks \<noteq> []"
    and M: "M = meta_of (MsgType_code mt) ts (typed (zero_ext\<lparr>x_abs_time := t\<rparr>))"
    and re: "reassembling st fid (of_nat n) (chunk FRAGMENT_THRESHOLD payload) M S"
  shows "\<exists>st'. parse_seq mok st (Some res) (map F ks)
      = Some (replicate (length ks - 1) FRAME_FRAGMENT_PENDING @ [FRAME_COMPLETE], st',
          Some \<lparr>pf_meta = M, pf_payload = Some payload, pf_payload_size = of_nat (length payload)\<rparr>)
    \<and> reassembling st' fid (of_nat n) (chunk FRAGMENT_THRESHOLD payload) M {}"
  using ks re
proof (induction ks arbitrary: S st)
  case Nil
  then show ?case by simp
next
  case (Cons i js)
  let ?c = "chunk FRAGMENT_THRESHOLD payload"
  have un: "unat (of_nat n :: u16) = n" using n(3) by (simp add: MAX_FRAGMENTS_def)
  have tot: "(of_nat n :: u16) \<noteq> 0" "unat (of_nat n :: u16) \<le> MAX_FRAGMENTS"
    using un n(2,3) by (auto simp: unat_eq_0 [symmetric])
  have i: "i < n" "i \<notin> S" "S \<subseteq> {..<n}" using Cons.prems by auto
  have c: "length (?c j) < 2 ^ 24" for j by (simp add: length_chunk FRAGMENT_THRESHOLD_def min_def)
  have i16: "i < 65536" using i n(3) by (simp add: MAX_FRAGMENTS_def)
  obtain q x where q: "q \<le> length (F i)" "drop q (F i) = ?c i"
    and x: "x_frame_id x = fid" "x_frag_index x = of_nat i" "x_total_frags x = of_nat n"
      "i = 0 \<longrightarrow> meta_of (MsgType_code mt) ts x = M"
    and parse: "frame_protocol_parse mok st (Some (F i)) (int (length (F i))) (Some res) = do {
        (status, st', res') \<leftarrow>
           parse_fragment mok st (F i) q (of_nat (length (?c i))) x (meta_of (MsgType_code mt) ts x) res;
        Some (status, st', Some res') }"
    using parse_of_fragment [OF frames [OF i(1)], of mok st res] M by blast
  note next_frag = parse_fragment_next [where m = "meta_of (MsgType_code mt) ts x" and res = res,
      OF Cons.prems(5) tot _ _ _ c q(2,1) mok x(1-3), unfolded un, OF i(3,1,2)]
  have total: "concat (map ?c [0..<n]) = payload"
    using n_fragments_covers [of "length payload"] n(1) by (simp add: concat_chunks)
  show ?case
  proof (cases "js = []")
    case True
    then have all: "insert i S = {..<n}" using Cons.prems by auto
    from next_frag x(4) all obtain st' where
      st': "parse_fragment mok st (F i) q (of_nat (length (?c i))) x (meta_of (MsgType_code mt) ts x) res
        = Some (FRAME_COMPLETE, st', \<lparr>pf_meta = M, pf_payload = Some payload,
            pf_payload_size = of_nat (length payload)\<rparr>)"
      "reassembling st' fid (of_nat n) ?c M {}" unfolding total by auto
    then show ?thesis using parse True by (intro exI [of _ st']) simp
  next
    case False
    then obtain j where "j \<in> set js" by (cases js) auto
    then have "j \<in> {..<n}" "j \<notin> insert i S" using Cons.prems(1-3) by auto
    then have "insert i S \<noteq> {..<n}" by blast
    with next_frag x(4) obtain st1 where
      st1: "parse_fragment mok st (F i) q (of_nat (length (?c i))) x (meta_of (MsgType_code mt) ts x) res
        = Some (FRAME_FRAGMENT_PENDING, st1, res)"
      and re1: "reassembling st1 fid (of_nat n) ?c M (insert i S)" by auto
    have js: "distinct js" "set js \<inter> insert i S = {}" "set js \<union> insert i S = {..<n}"
      using Cons.prems(1-3) by auto
    from Cons.IH [OF js False re1] obtain st' where
      "parse_seq mok st1 (Some res) (map F js)
        = Some (replicate (length js - 1) FRAME_FRAGMENT_PENDING @ [FRAME_COMPLETE], st',
          Some \<lparr>pf_meta = M, pf_payload = Some payload, pf_payload_size = of_nat (length payload)\<rparr>)"
      and st': "reassembling st' fid (of_nat n) ?c M {}" by blast
    moreover have "replicate (length (i # js) - 1) FRAME_FRAGMENT_PENDING
        = FRAME_FRAGMENT_PENDING # replicate (length js - 1) FRAME_FRAGMENT_PENDING"
      using False by (cases js) auto
    ultimately show ?thesis using st1 parse by (intro exI [of _ st']) simp
  qed
qed

end

interpretation video: media_kind VIDEO "video_ext codec ft"
  "\<lambda>x. x\<lparr>x_video_codec := VideoCodec_code codec, x_video_frame_type := VideoFrameType_code ft,
     x_video_resolution := 0\<rparr>" for codec ft
proof unfold_locales
  fix pre post :: "byte list" and off ext :: byte and x
  assume "length pre = unat off" "unat off + 4 \<le> unat ext"
  then show "parse_ext_typed (pre @ video_ext codec ft @ post) 0 ext (MsgType_code VIDEO) (off, x)
    = Some (x\<lparr>x_video_codec := VideoCodec_code codec, x_video_frame_type := VideoFrameType_code ft,
        x_video_resolution := 0\<rparr>)"
    by (simp add: parse_ext_typed_def video_ext_def layout_simps)
qed (auto intro!: ext_info.equality)

interpretation audio: media_kind AUDIO "audio_ext codec rate ch"
  "\<lambda>x. x\<lparr>x_audio_codec := AudioCodec_code codec,
     x_audio_sample_rate := SampleRateCode_code rate, x_audio_channels := ch\<rparr>" for codec rate ch
proof unfold_locales
  fix pre post :: "byte list" and off ext :: byte and x
  assume "length pre = unat off" "unat off + 4 \<le> unat ext"
  then show "parse_ext_typed (pre @ audio_ext codec rate ch @ post) 0 ext (MsgType_code AUDIO) (off, x)
    = Some (x\<lparr>x_audio_codec := AudioCodec_code codec,
        x_audio_sample_rate := SampleRateCode_code rate, x_audio_channels := ch\<rparr>)"
    by (simp add: parse_ext_typed_def audio_ext_def layout_simps)
qed (auto intro!: ext_info.equality)

end
