(* ===== verification/FrameDelivery.thy ===== *)
theory FrameDelivery
  imports FrameRoundtrip "HOL-Library.Multiset"
begin

text \<open>
  What the server sends is what the browser gets: the encoders of
  src/server/frame_protocol.cpp composed with the parser of src/wasm/frame_protocol.c, for whole
  payloads and for fragments in every order of arrival, and what happens beyond the sizes the two
  sides agree on.
\<close>

definition video_meta :: "VideoCodec \<Rightarrow> VideoFrameType \<Rightarrow> u64 \<Rightarrow> u64 \<Rightarrow> frame_meta" where
  "video_meta codec ft ts t = zero_meta\<lparr>msg_type := 1, video_codec := VideoCodec_code codec,
     video_frame_type := VideoFrameType_code ft, timestamp := ts, abs_time := t\<rparr>"

definition audio_meta :: "AudioCodec \<Rightarrow> SampleRateCode \<Rightarrow> byte \<Rightarrow> u64 \<Rightarrow> u64 \<Rightarrow> frame_meta" where
  "audio_meta codec rate ch ts t = zero_meta\<lparr>msg_type := 2, timestamp := ts, abs_time := t,
     audio_codec := AudioCodec_code codec, audio_sample_rate := SampleRateCode_code rate,
     audio_channels := ch\<rparr>"

lemma meta_of_video: "meta_of (MsgType_code VIDEO) ts
    ((zero_ext\<lparr>x_abs_time := t\<rparr>)\<lparr>x_video_codec := VideoCodec_code codec,
      x_video_frame_type := VideoFrameType_code ft, x_video_resolution := 0\<rparr>)
  = video_meta codec ft ts t"
  by (simp add: meta_of_def video_meta_def zero_ext_def zero_meta_def)

lemma meta_of_audio: "meta_of (MsgType_code AUDIO) ts
    ((zero_ext\<lparr>x_abs_time := t\<rparr>)\<lparr>x_audio_codec := AudioCodec_code codec,
      x_audio_sample_rate := SampleRateCode_code rate, x_audio_channels := ch\<rparr>)
  = audio_meta codec rate ch ts t"
  by (simp add: meta_of_def audio_meta_def zero_ext_def zero_meta_def)

text \<open>No fragment of frame \<open>fid\<close> is being reassembled.\<close>

definition frame_absent :: "parser_state \<Rightarrow> u16 \<Rightarrow> bool" where
  "frame_absent st fid \<longleftrightarrow> (case g_fragments st of None \<Rightarrow> False
     | Some fs \<Rightarrow> find_fragment_entry fs fid = None)"

lemma reassembling_inv: "reassembling st fid tot c M S \<Longrightarrow> parser_inv st"
  by (simp add: reassembling_def)

lemma reassembling_empty: "parser_inv st \<Longrightarrow> frame_absent st fid \<Longrightarrow> reassembling st fid tot c M {}"
  by (auto simp: reassembling_def frame_absent_def split: option.splits)

lemma mset_map_preimage:
  "mset xs = mset (map f ys) \<Longrightarrow> \<exists>zs. xs = map f zs \<and> mset zs = mset ys"
proof (induction xs arbitrary: ys)
  case Nil
  then show ?case by auto
next
  case (Cons x xs)
  have "x \<in> set (map f ys)" using mset_eq_setD [OF Cons.prems] by auto
  then obtain y where y: "y \<in> set ys" "x = f y" by auto
  have "mset ys = add_mset y (mset (remove1 y ys))" using y(1) by simp
  then have "mset (map f ys) = add_mset x (mset (map f (remove1 y ys)))"
    using y(2) by (metis image_mset_add_mset mset_map)
  with Cons.prems have "mset xs = mset (map f (remove1 y ys))" by simp
  from Cons.IH [OF this] obtain zs where zs: "xs = map f zs" "mset zs = mset (remove1 y ys)" by auto
  have "mset (y # zs) = mset ys" using zs(2) y(1) by simp
  moreover have "x # xs = map f (y # zs)" using zs(1) y(2) by simp
  ultimately show ?case by (intro exI [of _ "y # zs"] conjI)
qed

lemma fragment_count_range:
  assumes "FRAGMENT_THRESHOLD < len" and "len \<le> MAX_FRAGMENTS * FRAGMENT_THRESHOLD"
  shows "0 < n_fragments len" "n_fragments len \<le> MAX_FRAGMENTS"
    "unat (of_nat (n_fragments len) :: u16) = n_fragments len"
proof -
  show "0 < n_fragments len" using assms(1) by (intro n_fragments_pos) simp
  show n: "n_fragments len \<le> MAX_FRAGMENTS" by (rule n_fragments_le [OF assms(2)])
  show "unat (of_nat (n_fragments len) :: u16) = n_fragments len"
    using n by (intro unat_of_nat_word) (simp add: MAX_FRAGMENTS_def)
qed

context media_kind
begin

lemma shuffled_fragments:
  assumes len: "FRAGMENT_THRESHOLD < length payload" "length payload \<le> MAX_FRAGMENTS * FRAGMENT_THRESHOLD"
    and st: "parser_inv st" "frame_absent st fid" and mok: "\<forall>site n. mok site n"
    and sent: "mset sent = mset (encode_media mt te payload ts t fid)"
    and M: "M = meta_of (MsgType_code mt) ts (typed (zero_ext\<lparr>x_abs_time := t\<rparr>))"
  shows "\<exists>st'. parse_seq mok st (Some res) sent
      = Some (replicate (length sent - 1) FRAME_FRAGMENT_PENDING @ [FRAME_COMPLETE], st',
          Some \<lparr>pf_meta = M, pf_payload = Some payload, pf_payload_size = of_nat (length payload)\<rparr>)
    \<and> parser_inv st'"
proof -
  let ?n = "n_fragments (length payload)"
  let ?F = "media_fragment mt te payload ts t fid (of_nat ?n)"
  note n = fragment_count_range [OF len]
  have "encode_media mt te payload ts t fid = map ?F [0..<?n]"
    using len(1) by (simp add: encode_media_def Let_def n(3))
  with sent obtain ks where ks: "sent = map ?F ks" "mset ks = mset [0..<?n]"
    using mset_map_preimage [of sent ?F "[0..<?n]"] by auto
  have d: "distinct ks" using mset_eq_imp_distinct_iff [OF ks(2)] by simp
  have s: "set ks = {..<?n}" using mset_eq_setD [OF ks(2)] by (simp add: atLeast0LessThan)
  have "0 \<in> set ks" unfolding s using n(1) by (simp only: lessThan_iff)
  then have ne: "ks \<noteq> []" by (metis empty_iff list.set(1))
  have re: "reassembling st fid (of_nat ?n) (chunk FRAGMENT_THRESHOLD payload) M {}"
    by (rule reassembling_empty [OF st])
  have s': "set ks \<inter> {} = {}" "set ks \<union> {} = {..<?n}" using s by simp_all
  from fragments_any_order [OF refl n(1,2) refl mok d s' ne M re, of res] obtain st' where
    st': "parse_seq mok st (Some res) (map ?F ks)
      = Some (replicate (length ks - 1) FRAME_FRAGMENT_PENDING @ [FRAME_COMPLETE], st',
          Some \<lparr>pf_meta = M, pf_payload = Some payload, pf_payload_size = of_nat (length payload)\<rparr>)"
    "reassembling st' fid (of_nat ?n) (chunk FRAGMENT_THRESHOLD payload) M {}"
    by (elim exE conjE)
  show ?thesis using st'(1) reassembling_inv [OF st'(2)] ks(1) by (intro exI [of _ st']) simp
qed

lemma whole_frame_of:
  assumes "length payload \<le> FRAGMENT_THRESHOLD" and "mok SitePayload (length payload)"
    and "M = meta_of (MsgType_code mt) ts (typed (zero_ext\<lparr>x_abs_time := t\<rparr>))"
  shows "parse_seq mok st (Some res) (encode_media mt te payload ts t fid)
    = Some ([FRAME_COMPLETE], st, Some \<lparr>pf_meta = M,
        pf_payload = (if payload = [] then None else Some payload),
        pf_payload_size = of_nat (length payload)\<rparr>)"
proof -
  obtain f where f: "encode_media mt te payload ts t fid = [f]"
    using assms(1) by (simp add: encode_media_def)
  show ?thesis using whole_frame [where mok = mok, OF assms(1,2) f, of st res] f assms(3) by simp
qed

lemma too_many_fragments:
  assumes len: "MAX_FRAGMENTS * FRAGMENT_THRESHOLD < length payload"
    "length payload \<le> 65535 * FRAGMENT_THRESHOLD"
    and f: "f \<in> set (encode_media mt te payload ts t fid)"
  shows "frame_protocol_parse mok st (Some f) (int (length f)) (Some res)
    = Some (FRAME_ERROR, st, Some res)"
proof -
  let ?n = "n_fragments (length payload)"
  have u: "unat (of_nat ?n :: u16) = ?n" by (rule unat_n_fragments [OF len(2)])
  have "MAX_FRAGMENTS * FRAGMENT_THRESHOLD < ?n * FRAGMENT_THRESHOLD"
    using len(1) n_fragments_covers [of "length payload"] by linarith
  then have big: "MAX_FRAGMENTS < ?n" by simp
  have "FRAGMENT_THRESHOLD < length payload"
    using len(1) by (simp add: MAX_FRAGMENTS_def FRAGMENT_THRESHOLD_def)
  then obtain i where i: "f = media_fragment mt te payload ts t fid (of_nat ?n) i"
    using f by (auto simp: encode_media_def Let_def)
  from parse_of_fragment [OF i, of mok st res] obtain q x where
    x: "x_total_frags x = of_nat ?n"
    and parse: "frame_protocol_parse mok st (Some f) (int (length f)) (Some res) = do {
        (status, st', res') \<leftarrow>
           parse_fragment mok st f q (of_nat (length (chunk FRAGMENT_THRESHOLD payload i))) x
             (meta_of (MsgType_code mt) ts x) res;
        Some (status, st', Some res') }" by auto
  have "parse_fragment mok st f q l x m res = Some (FRAME_ERROR, st, res)" for l m
    using big u x unfolding parse_fragment_def by simp
  with parse show ?thesis by simp
qed

end

text \<open>C2: a video payload of more than 16384 and at most 4194304 bytes, encoded by the server into
  fragments that arrive in any order at a parser holding nothing of that frame, is delivered by
  the last fragment to arrive: byte for byte, with codec, frame type and both timestamps, after
  a pending status for every other fragment, and the parser's invariant holds again.\<close>

theorem video_fragments_delivered:
  assumes "FRAGMENT_THRESHOLD < length payload" "length payload \<le> MAX_FRAGMENTS * FRAGMENT_THRESHOLD"
    and "parser_inv st" "frame_absent st fid" and "\<forall>site n. mok site n"
    and "mset sent = mset (EncodeVideoFrame payload codec ft ts t fid)"
  shows "\<exists>st'. parse_seq mok st (Some res) sent
      = Some (replicate (length sent - 1) FRAME_FRAGMENT_PENDING @ [FRAME_COMPLETE], st',
          Some \<lparr>pf_meta = video_meta codec ft ts t, pf_payload = Some payload,
            pf_payload_size = of_nat (length payload)\<rparr>)
    \<and> parser_inv st'"
  using video.shuffled_fragments [OF assms(1-5) _ meta_of_video [symmetric]] assms(6)
  by (simp add: EncodeVideoFrame_eq)

text \<open>The same for audio: an audio payload of more than 16384 and at most 4194304 bytes, its
  fragments received in any order, is delivered whole with codec, sample rate, channel count
  and timestamps.\<close>

theorem audio_fragments_delivered:
  assumes "FRAGMENT_THRESHOLD < length payload" "length payload \<le> MAX_FRAGMENTS * FRAGMENT_THRESHOLD"
    and "parser_inv st" "frame_absent st fid" and "\<forall>site n. mok site n"
    and "mset sent = mset (EncodeAudioFrame payload codec rate ch ts t fid)"
  shows "\<exists>st'. parse_seq mok st (Some res) sent
      = Some (replicate (length sent - 1) FRAME_FRAGMENT_PENDING @ [FRAME_COMPLETE], st',
          Some \<lparr>pf_meta = audio_meta codec rate ch ts t, pf_payload = Some payload,
            pf_payload_size = of_nat (length payload)\<rparr>)
    \<and> parser_inv st'"
  using audio.shuffled_fragments [OF assms(1-5) _ meta_of_audio [symmetric]] assms(6)
  by (simp add: EncodeAudioFrame_eq)

text \<open>A video payload of at most 16384 bytes is sent as one frame, which the parser delivers at
  once and whatever its state: byte for byte (an empty payload as a null pointer), with codec,
  frame type and timestamps; the reassembly table is untouched.\<close>

theorem video_whole_delivered:
  assumes "length payload \<le> FRAGMENT_THRESHOLD" and "mok SitePayload (length payload)"
  shows "parse_seq mok st (Some res) (EncodeVideoFrame payload codec ft ts t fid)
    = Some ([FRAME_COMPLETE], st, Some \<lparr>pf_meta = video_meta codec ft ts t,
        pf_payload = (if payload = [] then None else Some payload),
        pf_payload_size = of_nat (length payload)\<rparr>)"
  using video.whole_frame_of [where mok = mok, OF assms meta_of_video [symmetric]] by (simp add: EncodeVideoFrame_eq)

text \<open>An audio payload of at most 16384 bytes is delivered at once as well, with codec, sample
  rate, channel count and timestamps.\<close>

theorem audio_whole_delivered:
  assumes "length payload \<le> FRAGMENT_THRESHOLD" and "mok SitePayload (length payload)"
  shows "parse_seq mok st (Some res) (EncodeAudioFrame payload codec rate ch ts t fid)
    = Some ([FRAME_COMPLETE], st, Some \<lparr>pf_meta = audio_meta codec rate ch ts t,
        pf_payload = (if payload = [] then None else Some payload),
        pf_payload_size = of_nat (length payload)\<rparr>)"
  using audio.whole_frame_of [where mok = mok, OF assms meta_of_audio [symmetric]] by (simp add: EncodeAudioFrame_eq)

text \<open>A video frame larger than the parser's 256 fragments, which the encoder still splits, is
  refused fragment by fragment: each one is an error that leaves the parser as it was.\<close>

theorem oversized_video_refused:
  assumes "MAX_FRAGMENTS * FRAGMENT_THRESHOLD < length payload"
    and "length payload \<le> 65535 * FRAGMENT_THRESHOLD"
    and "f \<in> set (EncodeVideoFrame payload codec ft ts t fid)"
  shows "frame_protocol_parse mok st (Some f) (int (length f)) (Some res)
    = Some (FRAME_ERROR, st, Some res)"
  using video.too_many_fragments [OF assms(1,2)] assms(3) by (simp add: EncodeVideoFrame_eq)

text \<open>The number of frames the encoder makes: one for at most 16384 bytes, and otherwise the number
  of 16384-byte pieces modulo 65536, since it is kept in a 16-bit integer: a payload of exactly
  1 GiB is encoded as no frame at all.\<close>

theorem media_frame_count:
  "length (EncodeVideoFrame payload codec ft ts t fid)
     = (if length payload \<le> FRAGMENT_THRESHOLD then 1 else n_fragments (length payload) mod 65536)
   \<and> length (EncodeAudioFrame payload acodec rate ch ts t fid)
     = (if length payload \<le> FRAGMENT_THRESHOLD then 1 else n_fragments (length payload) mod 65536)
   \<and> EncodeVideoFrame (replicate (2 ^ 30) b) codec ft ts t fid = []"
proof -
  have "n_fragments (2 ^ 30) = 65536" by (simp add: n_fragments_def FRAGMENT_THRESHOLD_def)
  then have "EncodeVideoFrame (replicate (2 ^ 30) b) codec ft ts t fid = []"
    by (simp add: EncodeVideoFrame_eq encode_media_def Let_def FRAGMENT_THRESHOLD_def)
  then show ?thesis
    by (simp add: EncodeVideoFrame_eq EncodeAudioFrame_eq encode_media_def Let_def unat_of_nat)
qed

text \<open>The frames of a payload of at most 65535 pieces carry it without loss, in order, and no
  frame is longer than the 20-byte header, 20 bytes of extensions and 16384 bytes of payload.\<close>

theorem video_frames_lossless:
  assumes "length payload \<le> 65535 * FRAGMENT_THRESHOLD"
  shows "concat (map frame_body (EncodeVideoFrame payload codec ft ts t fid)) = payload
    \<and> (\<forall>f\<in>set (EncodeVideoFrame payload codec ft ts t fid).
          length f \<le> FIXED_HEADER_SIZE + 20 + FRAGMENT_THRESHOLD)"
  using encode_media_lossless [OF _ assms] encode_media_frame_bound [OF ext_lengths(4)]
  unfolding EncodeVideoFrame_eq by auto

section \<open>Any sequence of frames\<close>

text \<open>C7: no undefined behaviour: from an initialised parser, any sequence of frames below 16 MiB whose
  length field is below 2^31 - 275, whatever else they hold, is parsed to the end, every frame
  with a status, every read and write inside its buffer, and the reassembly table is consistent
  afterwards, when the small arrays of an entry can be allocated.\<close>

theorem parser_never_undefined:
  assumes "parser_inv st" "g_initialized st" "arrays_alloc_ok mok"
    and "\<forall>f\<in>set fs. honest_length f \<and> length f < 2 ^ 24"
  shows "\<exists>ss st' res'. parse_seq mok st (Some res) fs = Some (ss, st', Some res')
    \<and> parser_inv st' \<and> g_initialized st' \<and> length ss = length fs"
  using assms
proof (induction fs arbitrary: st res)
  case Nil
  then show ?case by simp
next
  case (Cons f fs)
  then have f: "honest_length f" "length f < 2 ^ 24" by simp_all
  obtain s1 st1 res1 where one: "frame_protocol_parse mok st (Some f) (int (length f)) (Some res)
      = Some (s1, st1, Some res1)" "parser_inv st1" "g_initialized st1"
    using parse_defined_and_inv [OF Cons.prems(1-3) f, of res] by blast
  from Cons.IH [OF one(2,3) Cons.prems(3), of res1] Cons.prems(4)
  obtain ss st' res' where "parse_seq mok st1 (Some res1) fs = Some (ss, st', Some res')"
    "parser_inv st'" "g_initialized st'" "length ss = length fs" by auto
  with one(1) show ?case by simp
qed

lemma sint_uminus_byte: "sint (- ucast (b :: byte) :: u32) = - uint b"
proof -
  have "uint b < 256" "0 \<le> uint b" using uint_bounded [of b] by simp_all
  then have "- 2147483648 \<le> - uint b" "- uint b < 2147483648" by linarith+
  then have "signed_take_bit 31 (- uint b) = - uint b" by (intro signed_take_bit_int_eq_self) simp_all
  moreover have "(- ucast b :: u32) = word_of_int (- uint b)" by (simp add: wi_hom_neg [symmetric])
  moreover have "sint (word_of_int k :: u32) = signed_take_bit 31 k" for k by (simp add: sint_sbintrunc')
  ultimately show ?thesis by (simp only:)
qed

text \<open>C38: the bound on the length field is needed: a 20-byte message that announces an extension area
  of at least two bytes and a payload length that is its negation as an \<open>int\<close> passes the size check
  and makes the parser read past the message.\<close>

theorem negative_payload_length_reads_outside:
  assumes "2 \<le> ext"
  shows "frame_protocol_parse mok st (Some (fixed_header mt FLAG_HAS_COMMON ts ext (- ucast ext))) 20 (Some res)
    = None"
proof -
  let ?m = "fixed_header mt FLAG_HAS_COMMON ts ext (- ucast ext)"
  note reads = fixed_header_reads [of ?m mt FLAG_HAS_COMMON ts ext "- ucast ext" "[]", simplified]
  have len: "length ?m = 20" by (simp add: FIXED_HEADER_SIZE_def)
  have e: "2 \<le> unat ext" using assms by (simp add: word_le_nat_alt)
  have nord: "rd ?m 20 = None" "rd ?m (Suc 20) = None" using len by (simp_all add: rd_def)
  have out: "parse_ext_headers ?m 20 ext FLAG_HAS_COMMON mt' = None" for mt'
    using e by (simp add: parse_ext_headers_def parse_ext_fragment_def parse_ext_common_def
        FLAG_HAS_COMMON_def FLAG_FRAGMENT_W_def FLAG_HAS_COMMON_W_def
        nord [unfolded FLAG_HAS_COMMON_def])
  have "i32_add (20 + uint ext) (sint (- ucast ext :: u32)) = Some 20"
    using sint_uminus_byte [of ext] by (simp add: i32_add_def)
  then show ?thesis
    unfolding frame_protocol_parse_def FIXED_HEADER_SIZE_W_def
    using reads out by (simp add: Let_def)
qed

section \<open>Witnesses for the delivery of frames\<close>

text \<open>A payload of 20000 bytes is two fragments; they are received in reverse order.\<close>

definition sample_payload :: "byte list" where
  "sample_payload = replicate 20000 7"

definition sample_result :: ParsedFrame where
  "sample_result = the (frame_protocol_alloc_result True)"

definition fresh_parser :: parser_state where
  "fresh_parser = snd (frame_protocol_init (\<lambda>_ _. True) initial_parser)"

lemma sample_length: "length sample_payload = 20000"
  by (simp add: sample_payload_def)

lemma sample_range: "FRAGMENT_THRESHOLD < length sample_payload"
  "length sample_payload \<le> MAX_FRAGMENTS * FRAGMENT_THRESHOLD"
  by (simp_all add: sample_length FRAGMENT_THRESHOLD_def MAX_FRAGMENTS_def)

lemma fresh_parser_ready: "parser_inv fresh_parser" "g_initialized fresh_parser"
  "frame_absent fresh_parser fid"
proof -
  have "parser_inv initial_parser" by (simp add: parser_inv_def initial_parser_def)
  then show "parser_inv fresh_parser" unfolding fresh_parser_def by (rule init_inv)
  show "g_initialized fresh_parser" "frame_absent fresh_parser fid"
    by (simp_all add: fresh_parser_def frame_protocol_init_def initial_parser_def frame_absent_def
        find_fragment_entry_def find_idx_None_iff zero_entry_def)
qed

theorem video_fragments_delivered_witness:
  "\<exists>st'. parse_seq (\<lambda>_ _. True) fresh_parser (Some sample_result)
      (rev (EncodeVideoFrame sample_payload H265 IDR 40 99 3))
    = Some (replicate (length (rev (EncodeVideoFrame sample_payload H265 IDR 40 99 3)) - 1)
          FRAME_FRAGMENT_PENDING @ [FRAME_COMPLETE], st',
        Some \<lparr>pf_meta = video_meta H265 IDR 40 99, pf_payload = Some sample_payload,
          pf_payload_size = of_nat (length sample_payload)\<rparr>)
    \<and> parser_inv st'"
  by (rule video_fragments_delivered [OF sample_range fresh_parser_ready(1,3)]) simp_all

theorem audio_fragments_delivered_witness:
  "\<exists>st'. parse_seq (\<lambda>_ _. True) fresh_parser (Some sample_result)
      (rev (EncodeAudioFrame sample_payload G711A RATE_8000 1 40 99 3))
    = Some (replicate (length (rev (EncodeAudioFrame sample_payload G711A RATE_8000 1 40 99 3)) - 1)
          FRAME_FRAGMENT_PENDING @ [FRAME_COMPLETE], st',
        Some \<lparr>pf_meta = audio_meta G711A RATE_8000 1 40 99, pf_payload = Some sample_payload,
          pf_payload_size = of_nat (length sample_payload)\<rparr>)
    \<and> parser_inv st'"
  by (rule audio_fragments_delivered [OF sample_range fresh_parser_ready(1,3)]) simp_all

theorem video_whole_delivered_witness:
  "parse_seq (\<lambda>_ _. True) initial_parser (Some sample_result) (EncodeVideoFrame [0, 0, 1, 0x65] H264 IDR 40 99 3)
    = Some ([FRAME_COMPLETE], initial_parser, Some \<lparr>pf_meta = video_meta H264 IDR 40 99,
        pf_payload = Some [0, 0, 1, 0x65], pf_payload_size = 4\<rparr>)"
  using video_whole_delivered [of "[0, 0, 1, 0x65]" "\<lambda>_ _. True" initial_parser sample_result H264 IDR 40 99 3]
  by (simp add: FRAGMENT_THRESHOLD_def)

theorem audio_whole_delivered_witness:
  "parse_seq (\<lambda>_ _. True) initial_parser (Some sample_result) (EncodeAudioFrame [1, 2, 3] AAC RATE_48000 2 40 99 3)
    = Some ([FRAME_COMPLETE], initial_parser, Some \<lparr>pf_meta = audio_meta AAC RATE_48000 2 40 99,
        pf_payload = Some [1, 2, 3], pf_payload_size = 3\<rparr>)"
  using audio_whole_delivered [of "[1, 2, 3]" "\<lambda>_ _. True" initial_parser sample_result AAC RATE_48000 2 40 99 3]
  by (simp add: FRAGMENT_THRESHOLD_def)

theorem oversized_video_refused_witness:
  "frame_protocol_parse (\<lambda>_ _. True) fresh_parser
      (Some (hd (EncodeVideoFrame (replicate 4194305 7) H265 IDR 40 99 3)))
      (int (length (hd (EncodeVideoFrame (replicate 4194305 7) H265 IDR 40 99 3)))) (Some sample_result)
    = Some (FRAME_ERROR, fresh_parser, Some sample_result)"
proof (rule oversized_video_refused)
  show "MAX_FRAGMENTS * FRAGMENT_THRESHOLD < length (replicate 4194305 (7 :: byte))"
    "length (replicate 4194305 (7 :: byte)) \<le> 65535 * FRAGMENT_THRESHOLD"
    by (simp_all add: MAX_FRAGMENTS_def FRAGMENT_THRESHOLD_def)
  have "length (EncodeVideoFrame (replicate 4194305 7) H265 IDR 40 99 3) = 257"
    unfolding EncodeVideoFrame_eq
    by (simp add: encode_media_count FRAGMENT_THRESHOLD_def n_fragments_def)
  then show "hd (EncodeVideoFrame (replicate 4194305 7) H265 IDR 40 99 3)
      \<in> set (EncodeVideoFrame (replicate 4194305 7) H265 IDR 40 99 3)"
    by (intro hd_in_set) (metis list.size(3) zero_neq_numeral)
qed

theorem video_frames_lossless_witness:
  "concat (map frame_body (EncodeVideoFrame sample_payload H264 IDR 40 99 3)) = sample_payload
    \<and> list_all (\<lambda>f. length f \<le> FIXED_HEADER_SIZE + 20 + FRAGMENT_THRESHOLD)
          (EncodeVideoFrame sample_payload H264 IDR 40 99 3)"
  unfolding list_all_iff by (rule video_frames_lossless) (simp add: sample_length FRAGMENT_THRESHOLD_def)

theorem parser_never_undefined_witness:
  "\<exists>ss st' res'. parse_seq (\<lambda>_ _. True) fresh_parser (Some sample_result)
      [[], replicate 20 0, 0xEB # 1 # 1 # 1 # 3 # replicate 15 0]
        = Some (ss, st', Some res')
    \<and> parser_inv st' \<and> g_initialized st'
    \<and> length ss = length [[], replicate 20 0, 0xEB # 1 # 1 # 1 # 3 # replicate 15 (0 :: byte)]"
proof (rule parser_never_undefined [OF fresh_parser_ready(1,2)])
  show "arrays_alloc_ok (\<lambda>_ _. True)" by (simp add: arrays_alloc_ok_def)
  have "read_be32 [] 14 = None" "read_be32 (replicate 20 0) 14 = Some 0"
    "read_be32 (0xEB # 1 # 1 # 1 # 3 # replicate 15 0) 14 = Some 0" by code_simp+
  then show "\<forall>f\<in>set [[], replicate 20 0, 0xEB # 1 # 1 # 1 # 3 # replicate 15 (0 :: byte)].
      honest_length f \<and> length f < 2 ^ 24"
    by (simp add: honest_length_def payload_length_field_def)
qed

theorem negative_payload_length_reads_outside_witness:
  "frame_protocol_parse (\<lambda>_ _. True) fresh_parser
     (Some (fixed_header VIDEO FLAG_HAS_COMMON 0 200 (- ucast (200 :: byte)))) 20 (Some sample_result) = None"
  by (rule negative_payload_length_reads_outside) simp

end
