(* ===== verification/StreamParser.thy ===== *)
theory StreamParser
  imports Prelude
begin

text \<open>
  The receive loop shared by the protocols on a byte stream: as long as the buffer holds a
  complete item, take it off the front and handle it. The locale \<open>stream_parser\<close> is what such a
  loop needs of its item parser; in it, the reaction to a stream is shown not to depend on how
  the stream is cut into pieces by the transport.
\<close>

text \<open>
  What the front of a buffer holds: no complete item yet, something that ends the process (an
  uncaught exception or undefined behaviour), or an item and the number of bytes it takes.
\<close>

datatype 'm item = Wait | Crash | Item 'm nat

datatype drain_end = Waiting | Stopped | Crashed

text \<open>
  The loop. The handler says whether the connection goes on. \<open>None\<close> means that the loop does
  not end.
\<close>

partial_function (option) drain ::
  "(byte list \<Rightarrow> 'm item) \<Rightarrow> ('s \<Rightarrow> 'm \<Rightarrow> 's \<times> bool) \<Rightarrow> 's \<Rightarrow> byte list
    \<Rightarrow> ('s \<times> byte list \<times> drain_end) option" where
  "drain nxt handle s buf =
    (if buf = [] then Some (s, buf, Waiting)
     else case nxt buf of
       Wait \<Rightarrow> Some (s, buf, Waiting)
     | Crash \<Rightarrow> Some (s, buf, Crashed)
     | Item m c \<Rightarrow>
         (case handle s m of (s', go) \<Rightarrow>
            if go then drain nxt handle s' (drop c buf) else Some (s', drop c buf, Stopped)))"

text \<open>One more piece of the stream; a connection that has ended takes no more.\<close>

fun feed ::
  "(byte list \<Rightarrow> 'm item) \<Rightarrow> ('s \<Rightarrow> 'm \<Rightarrow> 's \<times> bool) \<Rightarrow> byte list
    \<Rightarrow> 's \<times> byte list \<times> drain_end \<Rightarrow> ('s \<times> byte list \<times> drain_end) option" where
  "feed nxt handle piece (s, buf, Waiting) = drain nxt handle s (buf @ piece)"
| "feed nxt handle piece (s, buf, Stopped) = Some (s, buf, Stopped)"
| "feed nxt handle piece (s, buf, Crashed) = Some (s, buf, Crashed)"

fun feed_all ::
  "(byte list \<Rightarrow> 'm item) \<Rightarrow> ('s \<Rightarrow> 'm \<Rightarrow> 's \<times> bool) \<Rightarrow> byte list list
    \<Rightarrow> 's \<times> byte list \<times> drain_end \<Rightarrow> ('s \<times> byte list \<times> drain_end) option" where
  "feed_all nxt handle [] r = Some r"
| "feed_all nxt handle (p # ps) r = do { r' \<leftarrow> feed nxt handle p r; feed_all nxt handle ps r' }"

text \<open>What remains visible of a connection: the bytes left over matter only while it waits.\<close>

fun settled :: "'s \<times> byte list \<times> drain_end \<Rightarrow> 's \<times> byte list \<times> drain_end" where
  "settled (s, buf, e) = (s, if e = Waiting then buf else [], e)"

lemma drain_Nil [simp]: "drain nxt handle s [] = Some (s, [], Waiting)"
  by (simp add: drain.simps)

lemma feed_all_ended [simp]: "e \<noteq> Waiting \<Longrightarrow> feed_all nxt handle ps (s, buf, e) = Some (s, buf, e)"
  by (cases e; induction ps) simp_all

locale stream_parser =
  fixes nxt :: "byte list \<Rightarrow> 'm item" and ok :: "byte list \<Rightarrow> bool"
  assumes ok_prefix: "ok (a @ b) \<Longrightarrow> ok a" and ok_suffix: "ok (a @ b) \<Longrightarrow> ok b"
    and nxt_Nil: "nxt [] = Wait"
    and consumes: "ok buf \<Longrightarrow> nxt buf = Item m c \<Longrightarrow> 0 < c \<and> c \<le> length buf"
    and decided: "ok (a @ b) \<Longrightarrow> nxt a \<noteq> Wait \<Longrightarrow> nxt (a @ b) = nxt a"
begin

lemma ok_drop: "ok buf \<Longrightarrow> ok (drop c buf)"
  using ok_suffix [of "take c buf" "drop c buf"] by simp

lemma drain_total:
  assumes "ok buf"
  obtains s' k e where "drain nxt handle s buf = Some (s', drop k buf, e)"
    "e = Waiting \<longrightarrow> nxt (drop k buf) = Wait"
proof -
  have "\<exists>s' k e. drain nxt handle s buf = Some (s', drop k buf, e)
    \<and> (e = Waiting \<longrightarrow> nxt (drop k buf) = Wait)"
    using assms
  proof (induction "length buf" arbitrary: s buf rule: less_induct)
    case less
    show ?case
    proof (cases "nxt buf")
      case (Item m c)
      then have ne: "buf \<noteq> []" using nxt_Nil by auto
      have c: "length (drop c buf) < length buf" using consumes [OF less.prems Item] ne by simp
      obtain s' go where h: "handle s m = (s', go)" by (cases "handle s m")
      show ?thesis
      proof (cases go)
        case True
        with less.hyps [OF c ok_drop [OF less.prems], of s'] obtain t k e where
          "drain nxt handle s' (drop c buf) = Some (t, drop (k + c) buf, e)"
          "e = Waiting \<longrightarrow> nxt (drop (k + c) buf) = Wait" by auto
        with Item ne h True show ?thesis by (auto simp: drain.simps [of nxt handle s buf])
      next
        case False
        with Item ne h show ?thesis by (auto simp: drain.simps [of nxt handle s buf])
      qed
    qed (use less.prems nxt_Nil in \<open>auto simp: drain.simps intro: exI [of _ 0]\<close>)
  qed
  then show thesis using that by blast
qed

text \<open>Draining a longer buffer is draining its front and going on with the rest.\<close>

lemma drain_append_exact:
  assumes "ok (a @ b)" and "drain nxt handle s a = Some (s', rest, e)"
  shows "drain nxt handle s (a @ b)
    = (if e = Waiting then drain nxt handle s' (rest @ b) else Some (s', rest @ b, e))"
  using assms
proof (induction "length a" arbitrary: s a rule: less_induct)
  case less
  note ok_a = ok_prefix [OF less.prems(1)]
  show ?case
  proof (cases "nxt a")
    case Wait
    then show ?thesis using less.prems(2) by (auto simp: drain.simps [of nxt handle s a] split: if_splits)
  next
    case Crash
    then have "a \<noteq> []" using nxt_Nil by auto
    moreover have "nxt (a @ b) = Crash" using decided [OF less.prems(1)] Crash by simp
    ultimately have "drain nxt handle s a = Some (s, a, Crashed)"
      "drain nxt handle s (a @ b) = Some (s, a @ b, Crashed)"
      using Crash by (simp_all add: drain.simps [of nxt handle s a] drain.simps [of nxt handle s "a @ b"])
    then show ?thesis using less.prems(2) by auto
  next
    case (Item m c)
    then have ne: "a \<noteq> []" using nxt_Nil by auto
    have ab: "nxt (a @ b) = Item m c" using decided [OF less.prems(1)] Item by simp
    have c: "0 < c" "c \<le> length a" using consumes [OF ok_a Item] by simp_all
    obtain t go where h: "handle s m = (t, go)" by (cases "handle s m")
    have dr: "drop c (a @ b) = drop c a @ b" using c by simp
    show ?thesis
    proof (cases go)
      case True
      have "ok (drop c a @ b)" using ok_drop [OF less.prems(1), of c] dr by simp
      moreover have "length (drop c a) < length a" using c by simp
      moreover have "drain nxt handle t (drop c a) = Some (s', rest, e)"
        using less.prems(2) Item ne h True by (simp add: drain.simps [of nxt handle s a])
      ultimately have "drain nxt handle t (drop c a @ b)
        = (if e = Waiting then drain nxt handle s' (rest @ b) else Some (s', rest @ b, e))"
        by (intro less.hyps)
      then show ?thesis using ne ab h True dr by (simp add: drain.simps [of nxt handle s "a @ b"])
    next
      case False
      then show ?thesis using less.prems(2) Item ne ab h dr
        by (auto simp: drain.simps [of nxt handle s a] drain.simps [of nxt handle s "a @ b"])
    qed
  qed
qed

lemma drain_append:
  assumes "ok (a @ b)" and "drain nxt handle s a = Some (s', rest, e)"
  shows "map_option settled (drain nxt handle s (a @ b))
    = (if e = Waiting then map_option settled (drain nxt handle s' (rest @ b))
       else Some (settled (s', rest, e)))"
  using drain_append_exact [OF assms] by simp

text \<open>The reaction to a stream does not depend on how it is cut into pieces.\<close>

lemma feed_all_drain:
  assumes "ok (buf @ concat ps)" and "nxt buf = Wait"
  shows "map_option settled (feed_all nxt handle ps (s, buf, Waiting))
    = map_option settled (drain nxt handle s (buf @ concat ps))"
  using assms
proof (induction ps arbitrary: s buf)
  case Nil
  then show ?case by (simp add: drain.simps)
next
  case (Cons p ps)
  have ok: "ok ((buf @ p) @ concat ps)" using Cons.prems by simp
  obtain s' k e where d: "drain nxt handle s (buf @ p) = Some (s', drop k (buf @ p), e)"
    "e = Waiting \<longrightarrow> nxt (drop k (buf @ p)) = Wait"
    using drain_total [OF ok_prefix [OF ok], of handle s] by blast
  let ?rest = "drop k (buf @ p)"
  show ?case
  proof (cases "e = Waiting")
    case True
    have "ok (?rest @ concat ps)"
      using ok_suffix [of "take k (buf @ p)" "?rest @ concat ps"] ok by (simp only: append_assoc [symmetric] append_take_drop_id)
    then show ?thesis using Cons.IH [of ?rest s'] d True drain_append [OF ok d(1)] by simp
  next
    case False
    then have "map_option settled (drain nxt handle s ((buf @ p) @ concat ps))
      = Some (settled (s', ?rest, e))" using drain_append [OF ok d(1)] by (simp only: if_False)
    with False d(1) show ?thesis by (simp del: drop_append map_option_eq_Some)
  qed
qed

end

end
