(* ===== verification/WebSocket.thy ===== *)
theory WebSocket
  imports Bytes StreamParser
begin

text \<open>
  The WebSocket frames of src/server/websocket.cpp: \<open>ParseFrame\<close>, \<open>EncodeFrame\<close> and the close
  and pong frames. \<open>size_t\<close> and \<open>uint64_t\<close> are 64-bit words, so \<open>offset + payloadLen\<close> wraps as in
  the code. \<open>None\<close> means that a read left the receive buffer.
\<close>

datatype WsOpcode = CONTINUATION | TEXT | BINARY | CLOSE | PING | PONG

fun WsOpcode_code :: "WsOpcode \<Rightarrow> byte" where
  "WsOpcode_code CONTINUATION = 0x0"
| "WsOpcode_code TEXT = 0x1"
| "WsOpcode_code BINARY = 0x2"
| "WsOpcode_code CLOSE = 0x8"
| "WsOpcode_code PING = 0x9"
| "WsOpcode_code PONG = 0xA"

text \<open>
  \<open>opcode\<close> keeps the four bits received: the cast to the enumeration is not checked and a
  value outside of it is handled by the \<open>default\<close> branch of the caller.
\<close>

record WsFrame =
  ws_fin :: bool
  ws_opcode :: byte
  ws_masked :: bool
  ws_payloadLen :: u64
  ws_maskKey :: "byte list"
  ws_payload :: "byte list"

datatype ParseOutcome = NeedMore | LengthError | Parsed u64

text \<open>\<open>std::vector<uint8_t>::max_size()\<close>; \<open>resize\<close> beyond it throws \<open>std::length_error\<close>.\<close>

definition vector_max_size :: u64 where "vector_max_size = 2 ^ 63 - 1"

section \<open>Parsing\<close>

definition ParsePayloadLength :: "byte list \<Rightarrow> u64 \<Rightarrow> byte \<Rightarrow> (u64 \<times> u64) option option" where
  "ParsePayloadLength dat len len7 =
    (if len7 = 126 then
       if len < 4 then Some None
       else do {
         b2 \<leftarrow> rd dat 2;
         b3 \<leftarrow> rd dat 3;
         Some (Some (push_bit 8 (ucast b2) OR ucast b3, 4))
       }
     else if len7 = 127 then
       if len < 10 then Some None
       else do {
         payloadLen \<leftarrow> fold (\<lambda>i acc. do { v \<leftarrow> acc; b \<leftarrow> rd dat (2 + i);
                                            Some (push_bit 8 v OR ucast b) }) [0..<8] (Some 0);
         Some (Some (payloadLen, 10))
       }
     else Some (Some (ucast len7, 2)))"

definition Unmask :: "byte list \<Rightarrow> byte list \<Rightarrow> byte list" where
  "Unmask key payload = map (\<lambda>i. payload ! i XOR key ! (i mod 4)) [0..<length payload]"

definition ParsePayload ::
  "byte list \<Rightarrow> u64 \<Rightarrow> u64 \<Rightarrow> u64 \<Rightarrow> WsFrame \<Rightarrow> (ParseOutcome \<times> WsFrame) option" where
  "ParsePayload dat len offset payloadLen frame =
    (if len < offset + payloadLen then Some (NeedMore, frame)
     else if vector_max_size < payloadLen then Some (LengthError, frame)
     else do {
       bytes \<leftarrow> rd_range dat (unat offset) (unat payloadLen);
       let payload = (if ws_masked frame then Unmask (ws_maskKey frame) bytes else bytes);
       Some (Parsed (offset + payloadLen), frame\<lparr>ws_payload := payload\<rparr>)
     })"

definition ParseFrame :: "byte list \<Rightarrow> WsFrame \<Rightarrow> (ParseOutcome \<times> WsFrame) option" where
  "ParseFrame dat frame =
    (let len = of_nat (length dat) in
     if len < 2 then Some (NeedMore, frame)
     else do {
       b0 \<leftarrow> rd dat 0;
       b1 \<leftarrow> rd dat 1;
       let frame1 = frame\<lparr>ws_fin := (b0 AND 0x80 \<noteq> 0), ws_opcode := b0 AND 0x0F,
                          ws_masked := (b1 AND 0x80 \<noteq> 0)\<rparr>;
       size \<leftarrow> ParsePayloadLength dat len (b1 AND 0x7F);
       case size of
         None \<Rightarrow> Some (NeedMore, frame1)
       | Some (payloadLen, offset) \<Rightarrow>
           let frame2 = frame1\<lparr>ws_payloadLen := payloadLen\<rparr> in
           if ws_masked frame2 then
             if len < offset + 4 then Some (NeedMore, frame2)
             else do {
               key \<leftarrow> rd_range dat (unat offset) 4;
               ParsePayload dat len (offset + 4) payloadLen (frame2\<lparr>ws_maskKey := key\<rparr>)
             }
           else ParsePayload dat len offset payloadLen frame2
     })"

section \<open>Encoding\<close>

definition EncodeFrame :: "byte \<Rightarrow> byte list \<Rightarrow> byte list" where
  "EncodeFrame opcode payload =
    (let len = of_nat (length payload) :: u64;
         frame = [0x80 OR opcode];
         frame = (if len < 126 then frame @ [ucast len]
                  else if len \<le> 0xFFFF then
                    frame @ [126] @ [ucast (drop_bit 8 len AND 0xFF)] @ [ucast (len AND 0xFF)]
                  else foldl (\<lambda>f i. f @ [ucast (drop_bit (i * 8) len AND 0xFF)])
                         (frame @ [127]) (rev [0..<8]))
     in frame @ payload)"

definition CreateCloseFrame :: "u16 \<Rightarrow> byte list \<Rightarrow> byte list" where
  "CreateCloseFrame code reason =
     EncodeFrame (WsOpcode_code CLOSE) ([ucast (drop_bit 8 code AND 0xFF)] @ [ucast (code AND 0xFF)] @ reason)"

definition CreatePongFrame :: "byte list \<Rightarrow> byte list" where
  "CreatePongFrame pingPayload = EncodeFrame (WsOpcode_code PONG) pingPayload"

section \<open>The frame format\<close>

text \<open>
  The format of RFC 6455 with the shortest length form: \<open>key\<close> is the masking key of a client's
  frame. The server's encoder is the case without a key.
\<close>

definition len7_of :: "nat \<Rightarrow> byte" where
  "len7_of n = (if n < 126 then of_nat n else if n \<le> 0xFFFF then 126 else 127)"

definition len_ext_of :: "nat \<Rightarrow> byte list" where
  "len_ext_of n = (if n < 126 then [] else if n \<le> 0xFFFF then WriteBE16 [] (of_nat n)
     else WriteBE64 [] (of_nat n))"

definition ws_header :: "bool \<Rightarrow> byte \<Rightarrow> byte list option \<Rightarrow> nat \<Rightarrow> byte list" where
  "ws_header final opcode key n =
     [(if final then 0x80 else 0) OR opcode, (if key = None then 0 else 0x80) OR len7_of n]
     @ len_ext_of n @ (case key of None \<Rightarrow> [] | Some k \<Rightarrow> k)"

definition ws_encode :: "bool \<Rightarrow> byte \<Rightarrow> byte list option \<Rightarrow> byte list \<Rightarrow> byte list" where
  "ws_encode final opcode key payload = ws_header final opcode key (length payload)
     @ (case key of None \<Rightarrow> payload | Some k \<Rightarrow> Unmask k payload)"

lemma EncodeFrame_eq:
  assumes "length payload < 2 ^ 64"
  shows "EncodeFrame opcode payload = ws_encode True opcode None payload"
proof -
  let ?l = "of_nat (length payload) :: u64"
  have lt: "?l < 126 \<longleftrightarrow> length payload < 126" "?l \<le> 0xFFFF \<longleftrightarrow> length payload \<le> 0xFFFF"
    using assms by (simp_all add: word_less_nat_alt word_le_nat_alt)
  have be64: "foldl (\<lambda>f i. f @ [ucast (drop_bit (i * 8) ?l AND 0xFF)]) buf (rev [0..<8])
      = buf @ WriteBE64 [] ?l" for buf
    using be64.wr_append [of buf ?l] by (simp add: WriteBE64_def)
  have be16: "[ucast (drop_bit 8 ?l), ucast ?l] = WriteBE16 [] (of_nat (length payload))"
    by (auto simp: WriteBE16_def bit_simps intro!: bit_word_eqI)
  have b: "ucast (of_nat n :: u64) = (of_nat n :: byte)" for n
    by (auto simp: bit_simps intro!: bit_word_eqI)
  show ?thesis
    unfolding EncodeFrame_def ws_encode_def ws_header_def len7_of_def len_ext_of_def Let_def lt be64
    using be16 by (auto simp: b)
qed

section \<open>What a receive buffer declares\<close>

text \<open>The value of a big-endian byte string, the length of a frame's header and its payload.\<close>

definition be_nat :: "byte list \<Rightarrow> nat" where
  "be_nat = foldl (\<lambda>v b. 256 * v + unat b) 0"

definition ws_len7 :: "byte list \<Rightarrow> byte" where
  "ws_len7 dat = dat ! 1 AND 0x7F"

definition ws_has_mask :: "byte list \<Rightarrow> bool" where
  "ws_has_mask dat \<longleftrightarrow> dat ! 1 AND 0x80 \<noteq> 0"

definition ws_ext_size :: "byte list \<Rightarrow> nat" where
  "ws_ext_size dat = (if ws_len7 dat = 126 then 2 else if ws_len7 dat = 127 then 8 else 0)"

definition ws_hdr_size :: "byte list \<Rightarrow> nat" where
  "ws_hdr_size dat = 2 + ws_ext_size dat + (if ws_has_mask dat then 4 else 0)"

definition ws_declared :: "byte list \<Rightarrow> nat" where
  "ws_declared dat = (if ws_ext_size dat = 0 then unat (ws_len7 dat)
     else be_nat (take (ws_ext_size dat) (drop 2 dat)))"

lemma unat_byte: "unat (b :: byte) < 256"
proof -
  have "unat b < 2 ^ LENGTH(8)" by (rule unsigned_less)
  then show ?thesis by simp
qed

lemma shift_in_arith: "push_bit 8 v OR ucast (b :: byte) = 256 * v + (of_nat (unat b) :: u64)"
proof -
  have "push_bit 8 v OR ucast b = push_bit 8 v + (ucast b :: u64)"
    by (rule disjunctive_add [symmetric])
      (auto simp: bit_simps dest: bit_imp_le_length)
  then show ?thesis by (simp add: push_bit_eq_mult mult.commute)
qed

lemma be_nat_bound_gen: "foldl (\<lambda>v b. 256 * v + unat b) a bs < (a + 1) * 256 ^ length bs"
  for bs :: "byte list"
proof (induction bs arbitrary: a)
  case Nil
  then show ?case by simp
next
  case (Cons b bs)
  have "unat b < 256" by (rule unat_byte)
  then have "256 * a + unat b + 1 \<le> (a + 1) * 256" by simp
  then have "(256 * a + unat b + 1) * 256 ^ length bs \<le> (a + 1) * 256 * 256 ^ length bs"
    by (rule mult_le_mono1)
  with Cons.IH [of "256 * a + unat b"]
  have "foldl (\<lambda>v b. 256 * v + unat b) (256 * a + unat b) bs < (a + 1) * 256 * 256 ^ length bs"
    by (rule order_less_le_trans)
  then show ?case by (simp only: foldl_Cons length_Cons power_Suc mult.assoc)
qed

lemma be_nat_bound: "be_nat bs < 256 ^ length bs"
  using be_nat_bound_gen [of 0 bs] by (simp add: be_nat_def)

lemma ws_declared_bound: "ws_declared dat < 2 ^ 64"
proof -
  have "256 ^ length (take n (drop 2 dat)) \<le> (256 ^ 8 :: nat)" if "n \<le> 8" for n
    using that by (intro power_increasing) auto
  then have "be_nat (take n (drop 2 dat)) < 256 ^ 8" if "n \<le> 8" for n
    using be_nat_bound [of "take n (drop 2 dat)"] that order_less_le_trans by blast
  moreover have "unat (ws_len7 dat) < 256 ^ 8"
    using unat_byte [of "ws_len7 dat"] by simp
  ultimately show ?thesis by (simp add: ws_declared_def ws_ext_size_def)
qed

lemma length_words:
  assumes "length dat < 2 ^ 64" and "n < 2 ^ 64"
  shows "(of_nat (length dat) :: u64) < of_nat n \<longleftrightarrow> length dat < n"
  using assms by (simp add: word_less_nat_alt)

lemma ParsePayloadLength_spec:
  assumes "length dat < 2 ^ 64" and "2 \<le> length dat"
  shows "ParsePayloadLength dat (of_nat (length dat)) (ws_len7 dat) = Some
    (if length dat < 2 + ws_ext_size dat then None
     else Some (of_nat (ws_declared dat), of_nat (2 + ws_ext_size dat)))"
proof -
  note lt = length_words [OF assms(1), of 4] length_words [OF assms(1), of 10]
  have e2: "take 2 (drop 2 dat) = [dat ! 2, dat ! 3]" if "4 \<le> length dat"
    using that by (intro nth_equalityI) (auto simp: less_Suc_eq numeral_2_eq_2 numeral_3_eq_3)
  have e8: "take 8 (drop 2 dat) = map (\<lambda>i. dat ! (2 + i)) [0..<8]" if "10 \<le> length dat"
    using that by (intro nth_equalityI) auto
  consider "ws_len7 dat = 126" | "ws_len7 dat = 127" | "ws_len7 dat \<noteq> 126" "ws_len7 dat \<noteq> 127" by blast
  then show ?thesis
  proof cases
    case 1
    then show ?thesis
      using lt e2 by (simp add: ParsePayloadLength_def ws_ext_size_def ws_declared_def be_nat_def
          shift_in_arith)
  next
    case 2
    then show ?thesis
      using lt e8 by (simp add: ParsePayloadLength_def ws_ext_size_def ws_declared_def be_nat_def
          shift_in_arith upt_rec)
  next
    case 3
    then show ?thesis
      using assms(2) by (simp add: ParsePayloadLength_def ws_ext_size_def ws_declared_def)
  qed
qed

lemma ParsePayload_spec:
  assumes len: "length dat < 2 ^ 63" and off: "off \<le> 14" "off \<le> length dat" and d: "d < 2 ^ 64"
  shows "ParsePayload dat (of_nat (length dat)) (of_nat off) (of_nat d) frame = Some
    (if 2 ^ 64 \<le> off + d then (LengthError, frame)
     else if length dat < off + d then (NeedMore, frame)
     else (Parsed (of_nat (off + d)), frame\<lparr>ws_payload :=
       (if ws_masked frame then Unmask (ws_maskKey frame) (take d (drop off dat))
        else take d (drop off dat))\<rparr>))"
proof -
  have u: "unat (of_nat off :: u64) = off" "unat (of_nat d :: u64) = d"
    "unat (of_nat (length dat) :: u64) = length dat"
    using off d len by (simp_all del: of_nat_numeral)
  have mx: "vector_max_size < of_nat d \<longleftrightarrow> 2 ^ 63 \<le> d"
    using u(2) by (simp add: vector_max_size_def word_less_nat_alt) arith
  show ?thesis
  proof (cases "2 ^ 64 \<le> off + d")
    case True
    then have "unat (of_nat off + of_nat d :: u64) = off + d - 2 ^ 64"
      using off(1) d u by (simp add: unat_word_ariths mod_if)
    then have "\<not> (of_nat (length dat) :: u64) < of_nat off + of_nat d"
      using True d off u by (simp add: word_less_nat_alt)
    moreover have "2 ^ 63 \<le> d" using True off(1) by simp
    ultimately show ?thesis using True mx by (simp add: ParsePayload_def)
  next
    case False
    then have "unat (of_nat off + of_nat d :: u64) = off + d"
      using u by (simp add: unat_word_ariths)
    then have lt: "(of_nat (length dat) :: u64) < of_nat off + of_nat d \<longleftrightarrow> length dat < off + d"
      using u by (simp add: word_less_nat_alt)
    show ?thesis
    proof (cases "length dat < off + d")
      case True
      then show ?thesis using False lt by (simp add: ParsePayload_def)
    next
      case fits: False
      then have "\<not> 2 ^ 63 \<le> d" using len by linarith
      then show ?thesis using False fits lt mx u by (simp add: ParsePayload_def)
    qed
  qed
qed

text \<open>The outcome and, when a frame is complete, its contents, as a function of the buffer.\<close>

definition ws_outcome :: "byte list \<Rightarrow> ParseOutcome" where
  "ws_outcome dat =
    (if length dat < 2 \<or> length dat < ws_hdr_size dat then NeedMore
     else if 2 ^ 64 \<le> ws_hdr_size dat + ws_declared dat then LengthError
     else if length dat < ws_hdr_size dat + ws_declared dat then NeedMore
     else Parsed (of_nat (ws_hdr_size dat + ws_declared dat)))"

definition ws_contents :: "byte list \<Rightarrow> WsFrame \<Rightarrow> WsFrame" where
  "ws_contents dat frame =
    (let raw = take (ws_declared dat) (drop (ws_hdr_size dat) dat);
         key = take 4 (drop (2 + ws_ext_size dat) dat)
     in frame\<lparr>ws_fin := dat ! 0 AND 0x80 \<noteq> 0, ws_opcode := dat ! 0 AND 0x0F,
              ws_masked := ws_has_mask dat, ws_payloadLen := of_nat (ws_declared dat),
              ws_maskKey := (if ws_has_mask dat then key else ws_maskKey frame),
              ws_payload := (if ws_has_mask dat then Unmask key raw else raw)\<rparr>)"

lemma ParseFrame_spec:
  assumes len: "length dat < 2 ^ 63"
  shows "\<exists>frame'. ParseFrame dat frame = Some (ws_outcome dat, frame')
    \<and> (\<forall>c. ws_outcome dat = Parsed c \<longrightarrow> frame' = ws_contents dat frame)"
proof (cases "length dat < 2")
  case True
  then have "(of_nat (length dat) :: u64) < 2" using length_words [of dat 2] len by simp
  with True show ?thesis by (simp add: ParseFrame_def ws_outcome_def Let_def)
next
  case False
  let ?off = "2 + ws_ext_size dat"
  let ?f = "frame\<lparr>ws_fin := dat ! 0 AND 0x80 \<noteq> 0, ws_opcode := dat ! 0 AND 0x0F,
    ws_masked := ws_has_mask dat, ws_payloadLen := of_nat (ws_declared dat)\<rparr>"
  have two: "\<not> (of_nat (length dat) :: u64) < 2" using False length_words [of dat 2] len by simp
  have size: "ParsePayloadLength dat (of_nat (length dat)) (dat ! 1 AND 0x7F) = Some
    (if length dat < ?off then None else Some (of_nat (ws_declared dat), of_nat ?off))"
    using ParsePayloadLength_spec [of dat] len False by (simp add: ws_len7_def)
  have reads: "rd dat 0 = Some (dat ! 0)" "rd dat 1 = Some (dat ! 1)" using False by (auto simp: rd_def)
  have off14: "?off \<le> 10" by (simp add: ws_ext_size_def)
  show ?thesis
  proof (cases "length dat < ?off")
    case True
    then have "ws_outcome dat = NeedMore" by (simp add: ws_outcome_def ws_hdr_size_def)
    then show ?thesis using True two size reads by (simp add: ParseFrame_def Let_def)
  next
    case fits: False
    show ?thesis
    proof (cases "ws_has_mask dat")
      case False
      then have "ParseFrame dat frame
          = ParsePayload dat (of_nat (length dat)) (of_nat ?off) (of_nat (ws_declared dat)) ?f"
        using two size reads fits by (simp add: ParseFrame_def Let_def ws_has_mask_def)
      then show ?thesis
        using False fits off14 ParsePayload_spec [OF len _ _ ws_declared_bound, where off = ?off and frame = ?f] \<open>\<not> length dat < 2\<close>
        by (auto simp: ws_outcome_def ws_hdr_size_def ws_contents_def Let_def)
    next
      case True
      have plus: "of_nat ?off + 4 = (of_nat (?off + 4) :: u64)" by simp
      have "(of_nat (length dat) :: u64) < of_nat (?off + 4) \<longleftrightarrow> length dat < ?off + 4"
        using len off14 by (intro length_words) simp_all
      moreover have "unat (of_nat ?off :: u64) = ?off" using off14 by (intro unat_of_nat_word) simp
      ultimately have parse: "ParseFrame dat frame = (if length dat < ?off + 4 then Some (NeedMore, ?f)
          else ParsePayload dat (of_nat (length dat)) (of_nat (?off + 4)) (of_nat (ws_declared dat))
            (?f\<lparr>ws_maskKey := take 4 (drop ?off dat)\<rparr>))"
        using two size reads fits True unfolding ParseFrame_def Let_def plus [symmetric]
        by (simp add: ws_has_mask_def del: of_nat_add)
      show ?thesis
      proof (cases "length dat < ?off + 4")
        case short: True
        then have "ws_outcome dat = NeedMore" using True by (simp add: ws_outcome_def ws_hdr_size_def)
        then show ?thesis using parse short by simp
      next
        case False
        then show ?thesis
          using parse True off14 ParsePayload_spec [OF len _ _ ws_declared_bound, where off = "?off + 4"
            and frame = "?f\<lparr>ws_maskKey := take 4 (drop ?off dat)\<rparr>"] \<open>\<not> length dat < 2\<close>
          by (auto simp: ws_outcome_def ws_hdr_size_def ws_contents_def Let_def)
      qed
    qed
  qed
qed

section \<open>Encoded frames\<close>

lemma byte_and_7F: "l < 128 \<Longrightarrow> l AND 0x7F = (l :: byte)"
proof -
  assume "l < 128"
  then have "unat l < 2 ^ 7" by (simp add: word_less_nat_alt)
  then have "take_bit 7 l = l" by (simp add: word_unat_eq_iff unsigned_take_bit_eq take_bit_nat_eq_self)
  moreover have "(0x7F :: byte) = mask 7" by (simp add: mask_numeral)
  ultimately show ?thesis by (simp only: take_bit_eq_mask)
qed

lemma second_byte:
  assumes "l < 128"
  shows "((if k then 0 else 0x80) OR l) AND 0x7F = (l :: byte)"
    "((if k then 0 else 0x80) OR l) AND 0x80 \<noteq> 0 \<longleftrightarrow> \<not> k"
proof -
  note l = byte_and_7F [OF assms]
  show "((if k then 0 else 0x80) OR l) AND 0x7F = l"
    using l by (simp add: bit.conj_disj_distrib2)
  have "l AND 0x80 = (l AND 0x7F) AND 0x80" using l by simp
  also have "\<dots> = 0" by (simp only: and.assoc) simp
  finally have "l AND 0x80 = 0" .
  then show "((if k then 0 else 0x80) OR l) AND 0x80 \<noteq> 0 \<longleftrightarrow> \<not> k"
    by (simp add: bit.conj_disj_distrib2)
qed

lemma first_byte:
  assumes "opcode < 16"
  shows "((if final then 0x80 else 0) OR opcode) AND 0x0F = (opcode :: byte)"
    "((if final then 0x80 else 0) OR opcode) AND 0x80 \<noteq> 0 \<longleftrightarrow> final"
proof -
  have "unat opcode < 2 ^ 4" using assms by (simp add: word_less_nat_alt)
  then have "take_bit 4 opcode = opcode"
    by (simp add: word_unat_eq_iff unsigned_take_bit_eq take_bit_nat_eq_self)
  moreover have "(0x0F :: byte) = mask 4" by (simp add: mask_numeral)
  ultimately have o: "opcode AND 0x0F = opcode" by (simp only: take_bit_eq_mask)
  then show "((if final then 0x80 else 0) OR opcode) AND 0x0F = opcode"
    by (simp add: bit.conj_disj_distrib2)
  have "opcode AND 0x80 = (opcode AND 0x0F) AND 0x80" using o by simp
  also have "\<dots> = 0" by (simp only: and.assoc) simp
  finally have "opcode AND 0x80 = 0" .
  then show "((if final then 0x80 else 0) OR opcode) AND 0x80 \<noteq> 0 \<longleftrightarrow> final"
    by (simp add: bit.conj_disj_distrib2)
qed

lemma len7_of_bounds: "len7_of n < 128"
  by (auto simp: len7_of_def word_less_nat_alt)

lemma len7_of_cases:
  "len7_of n = 126 \<longleftrightarrow> 126 \<le> n \<and> n \<le> 0xFFFF" "len7_of n = 127 \<longleftrightarrow> 0xFFFF < n"
  by (auto simp: len7_of_def word_unat_eq_iff)

lemma length_len_ext [simp]: "length (len_ext_of n) = (if n < 126 then 0 else if n \<le> 0xFFFF then 2 else 8)"
  by (simp add: len_ext_of_def)

lemma be_nat_words: "of_nat (be_nat bs) = foldl shift_in_byte 0 bs"
proof -
  have "of_nat (foldl (\<lambda>v b. 256 * v + unat b) a bs) = foldl shift_in_byte (of_nat a) bs" for a
    by (induction bs arbitrary: a) (simp_all add: shift_in_byte_def shift_in_arith)
  from this [of 0] show ?thesis by (simp add: be_nat_def)
qed

lemma be_nat_BE64: "n < 2 ^ 64 \<Longrightarrow> be_nat (WriteBE64 [] (of_nat n)) = n"
proof -
  assume n: "n < 2 ^ 64"
  have "foldl shift_in_byte 0 (WriteBE64 [] v) = v" for v
    by (simp add: WriteBE64_def upt_rec shift_in_byte_steps)
  then have "(of_nat (be_nat (WriteBE64 [] (of_nat n))) :: u64) = of_nat n" by (simp add: be_nat_words)
  then have "unat (of_nat (be_nat (WriteBE64 [] (of_nat n))) :: u64) = unat (of_nat n :: u64)" by simp
  moreover have "be_nat (WriteBE64 [] (of_nat n)) < 2 ^ 64"
    using be_nat_bound [of "WriteBE64 [] (of_nat n)"] by simp
  ultimately show ?thesis using n by simp
qed

lemma be_nat_BE16: "n \<le> 0xFFFF \<Longrightarrow> be_nat (WriteBE16 [] (of_nat n)) = n"
  by (simp add: be_nat_def WriteBE16_def unsigned_ucast_eq unsigned_drop_bit_eq take_bit_nat_def
      drop_bit_nat_def unat_of_nat)

lemma Unmask_length [simp]: "length (Unmask key p) = length p"
  by (simp add: Unmask_def)

lemma Unmask_Unmask: "Unmask key (Unmask key p) = p"
  by (rule nth_equalityI) (simp_all add: Unmask_def xor.assoc)

definition ws_key_ok :: "byte list option \<Rightarrow> bool" where
  "ws_key_ok key \<longleftrightarrow> (case key of None \<Rightarrow> True | Some k \<Rightarrow> length k = 4)"

lemma length_ws_header:
  "ws_key_ok key \<Longrightarrow> length (ws_header final opcode key n)
    = 2 + length (len_ext_of n) + (if key = None then 0 else 4)"
  by (auto simp: ws_header_def ws_key_ok_def split: option.splits)

lemma length_ws_encode:
  "length (ws_encode final opcode key payload)
    = length (ws_header final opcode key (length payload)) + length payload"
  by (simp add: ws_encode_def split: option.splits)

lemma header_declares:
  assumes op: "opcode < 16" and key: "ws_key_ok key" and n: "n < 2 ^ 64"
    and dat: "dat = ws_header final opcode key n @ rest"
  shows "ws_hdr_size dat = length (ws_header final opcode key n)" "ws_declared dat = n"
    "ws_has_mask dat \<longleftrightarrow> key \<noteq> None" "dat ! 0 AND 0x0F = opcode" "dat ! 0 AND 0x80 \<noteq> 0 \<longleftrightarrow> final"
    "key = Some k \<Longrightarrow> take 4 (drop (2 + ws_ext_size dat) dat) = k"
proof -
  have b0: "dat ! 0 = (if final then 0x80 else 0) OR opcode"
    and b1: "dat ! 1 = (if key = None then 0 else 0x80) OR len7_of n"
    by (simp_all add: dat ws_header_def)
  show mask: "ws_has_mask dat \<longleftrightarrow> key \<noteq> None"
    unfolding ws_has_mask_def b1 by (rule second_byte(2) [OF len7_of_bounds])
  show "dat ! 0 AND 0x0F = opcode" "dat ! 0 AND 0x80 \<noteq> 0 \<longleftrightarrow> final"
    unfolding b0 by (rule first_byte [OF op])+
  have l7: "ws_len7 dat = len7_of n"
    unfolding ws_len7_def b1 by (rule second_byte(1) [OF len7_of_bounds])
  have ext: "ws_ext_size dat = length (len_ext_of n)"
    using len7_of_cases [of n] by (auto simp: ws_ext_size_def l7)
  then show "ws_hdr_size dat = length (ws_header final opcode key n)"
    using mask length_ws_header [OF key] by (simp add: ws_hdr_size_def)
  have t: "take (length (len_ext_of n)) (drop 2 dat) = len_ext_of n"
    by (simp add: dat ws_header_def numeral_2_eq_2)
  have "be_nat (len_ext_of n) = n" if "\<not> n < 126"
    using that n be_nat_BE16 [of n] be_nat_BE64 [of n] by (simp add: len_ext_of_def)
  moreover have "unat (len7_of n) = n" if "n < 126" using that by (simp add: len7_of_def)
  ultimately show "ws_declared dat = n"
    unfolding ws_declared_def ext l7 t by simp
  assume k: "key = Some k"
  then have "length k = 4" using key by (simp add: ws_key_ok_def)
  then show "take 4 (drop (2 + ws_ext_size dat) dat) = k"
    unfolding ext by (simp add: k dat ws_header_def)
qed

text \<open>A complete frame at the front of the buffer is found, and recovered.\<close>

lemma ws_encode_found:
  assumes op: "opcode < 16" and key: "ws_key_ok key"
    and len: "length (ws_encode final opcode key payload) < 2 ^ 63"
    and dat: "dat = ws_encode final opcode key payload @ rest"
  shows "ws_outcome dat = Parsed (of_nat (length (ws_encode final opcode key payload)))"
    "ws_contents dat frame = frame\<lparr>ws_fin := final, ws_opcode := opcode, ws_masked := (key \<noteq> None),
      ws_payloadLen := of_nat (length payload),
      ws_maskKey := (case key of None \<Rightarrow> ws_maskKey frame | Some k \<Rightarrow> k), ws_payload := payload\<rparr>"
proof -
  let ?h = "ws_header final opcode key (length payload)"
  let ?body = "case key of None \<Rightarrow> payload | Some k \<Rightarrow> Unmask k payload"
  have n: "length payload < 2 ^ 64" using len by (simp add: length_ws_encode)
  have d: "dat = ?h @ (?body @ rest)" by (simp add: dat ws_encode_def)
  note decl = header_declares [OF op key n d]
  have lb: "length ?body = length payload" by (simp split: option.splits)
  have ld: "length dat = length ?h + length payload + length rest" unfolding d using lb by simp
  have two: "2 \<le> length ?h" using length_ws_header [OF key] by simp
  show "ws_outcome dat = Parsed (of_nat (length (ws_encode final opcode key payload)))"
    using ld two len by (simp add: ws_outcome_def decl(1,2) length_ws_encode)
  have body: "take (length payload) (drop (length ?h) dat) = ?body" unfolding d using lb by simp
  show "ws_contents dat frame = frame\<lparr>ws_fin := final, ws_opcode := opcode, ws_masked := (key \<noteq> None),
      ws_payloadLen := of_nat (length payload),
      ws_maskKey := (case key of None \<Rightarrow> ws_maskKey frame | Some k \<Rightarrow> k), ws_payload := payload\<rparr>"
    unfolding ws_contents_def Let_def decl(1,2,3,4) body
    using decl(5,6) by (cases key) (simp_all add: Unmask_Unmask)
qed

section \<open>The receive loop's parser\<close>

text \<open>\<open>blank\<close> is the local variable \<open>frame\<close> of the receive loop before it is written.\<close>

definition ws_next :: "WsFrame \<Rightarrow> byte list \<Rightarrow> WsFrame item" where
  "ws_next blank dat = (case ParseFrame dat blank of
     None \<Rightarrow> Crash
   | Some (NeedMore, _) \<Rightarrow> Wait
   | Some (LengthError, _) \<Rightarrow> Crash
   | Some (Parsed c, frame) \<Rightarrow> Item frame (unat c))"

lemma ws_next_spec:
  "length dat < 2 ^ 63 \<Longrightarrow> ws_next blank dat = (case ws_outcome dat of NeedMore \<Rightarrow> Wait
     | LengthError \<Rightarrow> Crash | Parsed c \<Rightarrow> Item (ws_contents dat blank) (unat c))"
  using ParseFrame_spec [of dat blank] by (auto simp: ws_next_def split: ParseOutcome.splits)

lemma ws_outcome_Parsed:
  assumes "ws_outcome dat = Parsed c" and "length dat < 2 ^ 63"
  shows "unat c = ws_hdr_size dat + ws_declared dat" "ws_hdr_size dat + ws_declared dat \<le> length dat"
proof -
  show fits: "ws_hdr_size dat + ws_declared dat \<le> length dat"
    using assms(1) by (auto simp: ws_outcome_def split: if_splits)
  have "c = of_nat (ws_hdr_size dat + ws_declared dat)"
    using assms(1) by (auto simp: ws_outcome_def split: if_splits)
  then show "unat c = ws_hdr_size dat + ws_declared dat"
    using fits assms(2) by (simp only:) (intro unat_of_nat_word, simp)
qed

lemma front_decides:
  assumes "2 \<le> length a"
  shows "ws_ext_size (a @ b) = ws_ext_size a" "ws_has_mask (a @ b) = ws_has_mask a"
    "ws_hdr_size (a @ b) = ws_hdr_size a" "ws_len7 (a @ b) = ws_len7 a"
  using assms by (simp_all add: ws_ext_size_def ws_has_mask_def ws_hdr_size_def ws_len7_def nth_append)

lemma ws_outcome_append:
  assumes "ws_outcome a \<noteq> NeedMore" and "length (a @ b) < 2 ^ 63"
  shows "ws_outcome (a @ b) = ws_outcome a"
    "ws_outcome a = Parsed c \<Longrightarrow> ws_contents (a @ b) frame = ws_contents a frame"
proof -
  have hdr: "2 \<le> length a" "ws_hdr_size a \<le> length a"
    using assms(1) by (auto simp: ws_outcome_def split: if_splits)
  note front = front_decides [OF hdr(1), of b]
  have ext: "2 + ws_ext_size a \<le> length a" using hdr(2) by (simp add: ws_hdr_size_def)
  have decl: "ws_declared (a @ b) = ws_declared a"
    using ext by (simp add: ws_declared_def front)
  show "ws_outcome (a @ b) = ws_outcome a"
    using assms(1) hdr by (auto simp: ws_outcome_def front decl split: if_splits)
  assume p: "ws_outcome a = Parsed c"
  have fits: "ws_hdr_size a + ws_declared a \<le> length a"
    by (rule ws_outcome_Parsed(2) [OF p]) (use assms(2) in simp)
  have "ws_has_mask a \<Longrightarrow> 6 + ws_ext_size a \<le> length a" using hdr(2) by (simp add: ws_hdr_size_def)
  then have key: "ws_has_mask a \<Longrightarrow> take 4 (drop (2 + ws_ext_size a) (a @ b)) = take 4 (drop (2 + ws_ext_size a) a)"
    by simp
  have body: "take (ws_declared a) (drop (ws_hdr_size a) (a @ b)) = take (ws_declared a) (drop (ws_hdr_size a) a)"
    using fits by simp
  have "(a @ b) ! 0 = a ! 0" using hdr(1) by (cases a) simp_all
  then show "ws_contents (a @ b) frame = ws_contents a frame"
    unfolding ws_contents_def Let_def front decl body using key
    by (cases "ws_has_mask a") (simp_all del: drop_append take_append)
qed

interpretation ws: stream_parser "ws_next blank" "\<lambda>buf. length buf < 2 ^ 63" for blank
proof unfold_locales
  show "ws_next blank [] = Wait" by (simp add: ws_next_spec ws_outcome_def)
next
  fix buf :: "byte list" and m c
  assume buf: "length buf < 2 ^ 63" and item: "ws_next blank buf = Item m c"
  then obtain w where "ws_outcome buf = Parsed w" "c = unat w"
    by (auto simp: ws_next_spec split: ParseOutcome.splits)
  with ws_outcome_Parsed [OF _ buf] show "0 < c \<and> c \<le> length buf" by (simp add: ws_hdr_size_def)
next
  fix a b :: "byte list"
  assume ab: "length (a @ b) < 2 ^ 63" and "ws_next blank a \<noteq> Wait"
  then have "ws_outcome a \<noteq> NeedMore" by (auto simp: ws_next_spec)
  from ws_outcome_append [OF this ab] show "ws_next blank (a @ b) = ws_next blank a"
    using ab by (simp add: ws_next_spec split: ParseOutcome.splits)
qed auto

section \<open>Properties\<close>

text \<open>C28: on every receive buffer \<open>ParseFrame\<close> reads inside the buffer only, and does what the frame
  format says: it waits for the header and the declared payload, takes exactly their bytes,
  and yields the unmasked payload with the header's fields; the one other outcome is the
  exception for a declared length that does not fit.\<close>

theorem ws_parse_spec:
  assumes "length dat < 2 ^ 63"
  shows "\<exists>frame'. ParseFrame dat frame = Some (ws_outcome dat, frame')
    \<and> (case ws_outcome dat of
         NeedMore \<Rightarrow> length dat < 2 \<or> length dat < ws_hdr_size dat + ws_declared dat
       | LengthError \<Rightarrow> 2 ^ 64 \<le> ws_hdr_size dat + ws_declared dat
       | Parsed c \<Rightarrow> frame' = ws_contents dat frame \<and> unat c = ws_hdr_size dat + ws_declared dat
           \<and> unat c \<le> length dat)"
proof -
  obtain frame' where f: "ParseFrame dat frame = Some (ws_outcome dat, frame')"
    "\<forall>c. ws_outcome dat = Parsed c \<longrightarrow> frame' = ws_contents dat frame"
    using ParseFrame_spec [OF assms, of frame] by blast
  show ?thesis
  proof (cases "ws_outcome dat")
    case (Parsed c)
    with f ws_outcome_Parsed [OF Parsed assms] show ?thesis by auto
  qed (use f in \<open>auto simp: ws_outcome_def split: if_splits\<close>)
qed

text \<open>C39: \<open>offset + payloadLen\<close> wraps: a frame header that declares a length within 14 bytes of 2^64
  passes the size check and makes \<open>resize\<close> throw, whatever follows it and without a single
  byte of payload.\<close>

theorem ws_length_overflow_throws:
  assumes "opcode < 16" and "ws_key_ok key" and "n < 2 ^ 64"
    and "2 ^ 64 \<le> length (ws_header final opcode key n) + n"
    and "length (ws_header final opcode key n @ rest) < 2 ^ 63"
  shows "\<exists>frame'. ParseFrame (ws_header final opcode key n @ rest) frame = Some (LengthError, frame')"
proof -
  let ?d = "ws_header final opcode key n @ rest"
  note decl = header_declares [OF assms(1-3) refl, where final = final and rest = rest]
  have "2 \<le> length ?d" using length_ws_header [OF assms(2)] by simp
  then have "ws_outcome ?d = LengthError"
    using assms(4) unfolding ws_outcome_def decl(1,2) by simp
  then show ?thesis using ParseFrame_spec [OF assms(5), of frame] by auto
qed

text \<open>Round trip with a client: a frame with any opcode, with or without a masking key, at the
  front of the buffer is parsed to exactly its payload, flags and key, and exactly its bytes
  are consumed, whatever follows.\<close>

theorem ws_client_frame_parsed:
  assumes "opcode < 16" and "ws_key_ok key"
    and "length (ws_encode final opcode key payload @ rest) < 2 ^ 63"
  shows "ParseFrame (ws_encode final opcode key payload @ rest) frame = Some
    (Parsed (of_nat (length (ws_encode final opcode key payload))),
     frame\<lparr>ws_fin := final, ws_opcode := opcode, ws_masked := (key \<noteq> None),
       ws_payloadLen := of_nat (length payload),
       ws_maskKey := (case key of None \<Rightarrow> ws_maskKey frame | Some k \<Rightarrow> k), ws_payload := payload\<rparr>)"
proof -
  have "length (ws_encode final opcode key payload) < 2 ^ 63" using assms(3) by simp
  from ws_encode_found [OF assms(1,2) this refl, of rest] ParseFrame_spec [OF assms(3), of frame]
  show ?thesis by auto
qed

text \<open>Round trip of the server's own frames: what \<open>EncodeFrame\<close> makes, in each of its three length
  forms, and with it close and pong frames, parses back to the opcode and payload as one
  final, unmasked frame of exactly those bytes.\<close>

theorem ws_server_frame_parsed:
  assumes "opcode < 16" and "length (EncodeFrame opcode payload @ rest) < 2 ^ 63"
  shows "ParseFrame (EncodeFrame opcode payload @ rest) frame = Some
    (Parsed (of_nat (length (EncodeFrame opcode payload))),
     frame\<lparr>ws_fin := True, ws_opcode := opcode, ws_masked := False,
       ws_payloadLen := of_nat (length payload), ws_payload := payload\<rparr>)"
proof -
  have l: "length payload < 2 ^ 64"
    using assms(2) by (simp add: EncodeFrame_def Let_def)
  have f: "frame\<lparr>ws_fin := True, ws_opcode := opcode, ws_masked := False, ws_payloadLen := n,
      ws_maskKey := ws_maskKey frame, ws_payload := p\<rparr>
    = frame\<lparr>ws_fin := True, ws_opcode := opcode, ws_masked := False, ws_payloadLen := n,
      ws_payload := p\<rparr>" for n p by simp
  have len: "length (ws_encode True opcode None payload) < 2 ^ 63"
    "length (ws_encode True opcode None payload @ rest) < 2 ^ 63"
    using assms(2) by (simp_all add: EncodeFrame_eq [OF l])
  have k: "ws_key_ok None" by (simp add: ws_key_ok_def)
  from ws_encode_found [OF assms(1) k len(1) refl, of rest] ParseFrame_spec [OF len(2), of frame]
  show ?thesis unfolding EncodeFrame_eq [OF l] by auto
qed

text \<open>The receive loop does not depend on how TCP cuts the stream: for any bytes, any handler and
  any cut into pieces, handling piece by piece ends in the same state of the connection, with
  the same bytes left over, as handling all bytes at once.\<close>

theorem ws_stream_cut_irrelevant:
  assumes "length (concat pieces) < 2 ^ 63"
  shows "map_option settled (feed_all (ws_next blank) handle pieces (s, [], Waiting))
    = map_option settled (drain (ws_next blank) handle s (concat pieces))"
proof -
  have "ws_next blank [] = Wait" by (rule ws.nxt_Nil)
  with assms show ?thesis using ws.feed_all_drain [of "[]" pieces blank handle s] by simp
qed

text \<open>A client's frame as it is encoded and as the receive loop's handler gets it.\<close>

type_synonym client_frame = "bool \<times> byte \<times> byte list option \<times> byte list"

fun client_bytes :: "client_frame \<Rightarrow> byte list" where
  "client_bytes (final, opcode, key, payload) = ws_encode final opcode key payload"

fun client_frame_ok :: "client_frame \<Rightarrow> bool" where
  "client_frame_ok (final, opcode, key, payload) \<longleftrightarrow> opcode < 16 \<and> ws_key_ok key"

fun handled_frame :: "WsFrame \<Rightarrow> client_frame \<Rightarrow> WsFrame" where
  "handled_frame blank (final, opcode, key, payload) =
     blank\<lparr>ws_fin := final, ws_opcode := opcode, ws_masked := (key \<noteq> None),
       ws_payloadLen := of_nat (length payload),
       ws_maskKey := (case key of None \<Rightarrow> ws_maskKey blank | Some k \<Rightarrow> k), ws_payload := payload\<rparr>"

lemma ws_next_client:
  assumes "client_frame_ok f" and "length (client_bytes f @ rest) < 2 ^ 63"
  shows "ws_next blank (client_bytes f @ rest) = Item (handled_frame blank f) (length (client_bytes f))"
    "client_bytes f \<noteq> []"
proof -
  obtain final opcode key payload where f: "f = (final, opcode, key, payload)" by (cases f)
  let ?e = "ws_encode final opcode key payload"
  have ok: "opcode < 16" "ws_key_ok key" and len: "length ?e < 2 ^ 63" "length (?e @ rest) < 2 ^ 63"
    using assms by (simp_all add: f)
  have "unat (of_nat (length ?e) :: u64) = length ?e" using len(1) by (intro unat_of_nat_word) simp
  then show "ws_next blank (client_bytes f @ rest) = Item (handled_frame blank f) (length (client_bytes f))"
    using ws_next_spec [OF len(2)] ws_encode_found [OF ok len(1) refl, of rest] by (simp add: f)
  have "2 \<le> length ?e" using length_ws_header [OF ok(2)] by (simp add: length_ws_encode)
  then show "client_bytes f \<noteq> []" by (auto simp: f)
qed

lemma drain_client_frames:
  assumes "list_all client_frame_ok frames" and "length (concat (map client_bytes frames)) < 2 ^ 63"
    and go: "\<forall>s m. snd (handle s m)"
  shows "drain (ws_next blank) handle s (concat (map client_bytes frames))
    = Some (foldl (\<lambda>s f. fst (handle s (handled_frame blank f))) s frames, [], Waiting)"
  using assms(1,2)
proof (induction frames arbitrary: s)
  case (Cons f frames)
  let ?rest = "concat (map client_bytes frames)"
  have ok: "client_frame_ok f" "length (client_bytes f @ ?rest) < 2 ^ 63" using Cons.prems by simp_all
  obtain t where t: "handle s (handled_frame blank f) = (t, True)"
    using go by (metis (full_types) prod.collapse)
  from Cons.IH [of t] Cons.prems
  have IH: "drain (ws_next blank) handle t ?rest
    = Some (foldl (\<lambda>s f. fst (handle s (handled_frame blank f))) t frames, [], Waiting)" by simp
  have bytes: "concat (map client_bytes (f # frames)) = client_bytes f @ ?rest" by simp
  show ?case
    unfolding bytes using ws_next_client [OF ok] IH t by (subst drain.simps) simp
qed simp

text \<open>C27: a client that sends any frames with valid opcodes and masking keys has every one of them
  handled, unmasked, in order and exactly once, however the stream is cut into pieces, and
  nothing is left in the buffer.\<close>

theorem ws_client_stream_handled:
  assumes "list_all client_frame_ok frames" and "concat pieces = concat (map client_bytes frames)"
    and "length (concat pieces) < 2 ^ 63" and "\<forall>s m. snd (handle s m)"
  shows "feed_all (ws_next blank) handle pieces (s, [], Waiting)
    = Some (foldl (\<lambda>s f. fst (handle s (handled_frame blank f))) s frames, [], Waiting)"
proof -
  have "map_option settled (feed_all (ws_next blank) handle pieces (s, [], Waiting))
      = map_option settled (drain (ws_next blank) handle s (concat pieces))"
    using assms(3) ws.nxt_Nil ws.feed_all_drain [of "[]" pieces blank handle s] by simp
  also have "\<dots> = Some (foldl (\<lambda>s f. fst (handle s (handled_frame blank f))) s frames, [], Waiting)"
    using drain_client_frames [OF assms(1) _ assms(4)] assms(2,3) by simp
  finally obtain s' b e where r: "feed_all (ws_next blank) handle pieces (s, [], Waiting) = Some (s', b, e)"
    "settled (s', b, e) = (foldl (\<lambda>s f. fst (handle s (handled_frame blank f))) s frames, [], Waiting)"
    by (auto simp del: settled.simps)
  then have "e = Waiting" by simp
  with r show ?thesis by simp
qed

section \<open>Witnesses\<close>

definition blank_frame :: WsFrame where
  "blank_frame = \<lparr>ws_fin = False, ws_opcode = 0, ws_masked = False, ws_payloadLen = 0,
     ws_maskKey = [], ws_payload = []\<rparr>"

theorem ws_parse_spec_witness:
  "\<exists>frame'. ParseFrame [0x81, 0x82, 1, 2, 3, 4, 0x49, 0x6B] blank_frame
      = Some (ws_outcome [0x81, 0x82, 1, 2, 3, 4, 0x49, 0x6B], frame')
    \<and> ws_outcome [0x81, 0x82, 1, 2, 3, 4, 0x49, 0x6B] = Parsed 8 \<and> ws_payload frame' = [0x48, 0x69]"
proof -
  have o: "ws_outcome [0x81, 0x82, 1, 2, 3, 4, 0x49, 0x6B] = Parsed 8"
    by (simp add: ws_outcome_def ws_hdr_size_def ws_ext_size_def ws_len7_def ws_has_mask_def
        ws_declared_def)
  have c: "ws_payload (ws_contents [0x81, 0x82, 1, 2, 3, 4, 0x49, 0x6B] blank_frame) = [0x48, 0x69]"
    by code_simp
  show ?thesis using ws_parse_spec [of "[0x81, 0x82, 1, 2, 3, 4, 0x49, 0x6B]" blank_frame] o c by auto
qed

theorem ws_length_overflow_throws_witness:
  "\<exists>frame'. ParseFrame (ws_header True 2 None (2 ^ 64 - 1) @ []) blank_frame = Some (LengthError, frame')"
  by (rule ws_length_overflow_throws)
    (simp_all add: ws_key_ok_def length_ws_header)

theorem ws_client_frame_parsed_witness:
  "ParseFrame (ws_encode True 1 (Some [1, 2, 3, 4]) [0x48, 0x69] @ [0x88]) blank_frame = Some
    (Parsed 8, blank_frame\<lparr>ws_fin := True, ws_opcode := 1, ws_masked := True, ws_payloadLen := 2,
       ws_maskKey := [1, 2, 3, 4], ws_payload := [0x48, 0x69]\<rparr>)"
proof -
  have l: "length (ws_encode True 1 (Some [1, 2, 3, 4]) [0x48, 0x69]) = 8" by code_simp
  show ?thesis
    using ws_client_frame_parsed [of 1 "Some [1, 2, 3, 4]" True "[0x48, 0x69]" "[0x88]" blank_frame]
    by (simp add: l ws_key_ok_def)
qed

theorem ws_server_frame_parsed_witness:
  "ParseFrame (CreatePongFrame [0x48, 0x69] @ [0x88]) blank_frame = Some
    (Parsed 4, blank_frame\<lparr>ws_fin := True, ws_opcode := 10, ws_masked := False, ws_payloadLen := 2,
       ws_payload := [0x48, 0x69]\<rparr>)"
proof -
  have l: "length (EncodeFrame 10 [0x48, 0x69]) = 4" by code_simp
  show ?thesis
    using ws_server_frame_parsed [of 10 "[0x48, 0x69]" "[0x88]" blank_frame]
    by (simp add: CreatePongFrame_def l)
qed

text \<open>A handler that collects the payloads, a masked text frame and a ping, and their bytes in pieces
  of one byte and the rest.\<close>

definition sample_frames :: "client_frame list" where
  "sample_frames = [(True, 1, Some [1, 2, 3, 4], [0x48, 0x69]), (True, 9, Some [5, 6, 7, 8], [])]"

definition collect :: "byte list list \<Rightarrow> WsFrame \<Rightarrow> byte list list \<times> bool" where
  "collect s m = (s @ [ws_payload m], True)"

theorem ws_stream_cut_irrelevant_witness:
  "map_option settled (feed_all (ws_next blank_frame) collect [[0x81], [0x82, 1, 2, 3], [4, 0x49, 0x6B, 0x88]]
      ([], [], Waiting))
    = map_option settled (drain (ws_next blank_frame) collect [] [0x81, 0x82, 1, 2, 3, 4, 0x49, 0x6B, 0x88])"
  using ws_stream_cut_irrelevant [of "[[0x81], [0x82, 1, 2, 3], [4, 0x49, 0x6B, 0x88]]" blank_frame collect "[]"]
  by simp

theorem ws_client_stream_handled_witness:
  "feed_all (ws_next blank_frame) collect
      [take 1 (concat (map client_bytes sample_frames)), drop 1 (concat (map client_bytes sample_frames))]
      ([], [], Waiting)
    = Some ([[0x48, 0x69], []], [], Waiting)"
proof -
  let ?b = "concat (map client_bytes sample_frames)"
  have "length ?b = 14" by code_simp
  moreover have c: "concat [take 1 ?b, drop 1 ?b] = ?b" by (simp only: concat.simps append_Nil2 append_take_drop_id)
  ultimately have l: "length (concat [take 1 ?b, drop 1 ?b]) < 2 ^ 63" by (simp only: c) simp
  have "list_all client_frame_ok sample_frames" by code_simp
  from ws_client_stream_handled [OF this c l, of collect blank_frame "[]"]
  have "feed_all (ws_next blank_frame) collect [take 1 ?b, drop 1 ?b] ([], [], Waiting)
    = Some (foldl (\<lambda>s f. fst (collect s (handled_frame blank_frame f))) [] sample_frames, [], Waiting)"
    by (simp only: collect_def snd_conv simp_thms)
  moreover have "foldl (\<lambda>s f. fst (collect s (handled_frame blank_frame f))) [] sample_frames
      = [[0x48, 0x69], []]" by (simp add: sample_frames_def collect_def)
  ultimately show ?thesis by (simp only:)
qed

end
