(* ===== verification/BitReader.thy ===== *)
theory BitReader
  imports Prelude
begin

text \<open>
  The bit reader of src/server/bitstream_reader.cpp, used for the sequence parameter sets.
  Reading yields \<open>None\<close> where the C++ executes undefined behaviour: in \<open>ReadUE\<close>, whose
  \<open>(1 << leadingZeros) - 1\<close> overflows an \<open>int\<close> from 31 leading zeros on. Past the end of the
  data every bit is zero and the position stays.
\<close>

record reader =
  r_data :: "byte list"
  r_bytePos :: nat
  r_bitPos :: nat

definition BitstreamReader :: "byte list \<Rightarrow> reader" where
  "BitstreamReader dat = \<lparr>r_data = dat, r_bytePos = 0, r_bitPos = 0\<rparr>"

definition HasMoreData :: "reader \<Rightarrow> bool" where
  "HasMoreData r \<longleftrightarrow> r_bytePos r < length (r_data r)"

definition ReadBit :: "reader \<Rightarrow> (u32 \<times> reader) option" where
  "ReadBit r =
    (if r_bytePos r \<ge> length (r_data r) then Some (0, r)
     else do {
       b \<leftarrow> rd (r_data r) (r_bytePos r);
       let bitPos = r_bitPos r + 1;
       let r1 = (if bitPos = 8 then r\<lparr>r_bitPos := 0, r_bytePos := r_bytePos r + 1\<rparr>
                 else r\<lparr>r_bitPos := bitPos\<rparr>);
       Some (ucast (drop_bit (7 - r_bitPos r) b) AND 1, r1)
     })"

primrec read_bits_loop :: "nat \<Rightarrow> u32 \<Rightarrow> reader \<Rightarrow> (u32 \<times> reader) option" where
  "read_bits_loop 0 val r = Some (val, r)"
| "read_bits_loop (Suc n) val r = do {
     (b, r1) \<leftarrow> ReadBit r;
     read_bits_loop n (push_bit 1 val OR b) r1
   }"

definition ReadBits :: "reader \<Rightarrow> nat \<Rightarrow> (u32 \<times> reader) option" where
  "ReadBits r n = read_bits_loop n 0 r"

primrec SkipBits_loop :: "nat \<Rightarrow> reader \<Rightarrow> reader option" where
  "SkipBits_loop 0 r = Some r"
| "SkipBits_loop (Suc n) r = do { (_, r1) \<leftarrow> ReadBit r; SkipBits_loop n r1 }"

definition SkipBits :: "reader \<Rightarrow> nat \<Rightarrow> reader option" where
  "SkipBits r n = SkipBits_loop n r"

text \<open>
  The loop of \<open>ReadUE\<close> that counts leading zeros; a reader whose position is well-formed comes
  to its end (below).
\<close>

partial_function (option) count_zeros :: "reader \<Rightarrow> nat \<Rightarrow> (nat \<times> reader) option" where
  "count_zeros r leadingZeros =
    do {
      (b, r1) \<leftarrow> ReadBit r;
      if b = 0 \<and> HasMoreData r1 then count_zeros r1 (leadingZeros + 1)
      else Some (leadingZeros, r1)
    }"

declare count_zeros.simps [code]

definition ReadUE :: "reader \<Rightarrow> (u32 \<times> reader) option" where
  "ReadUE r = do {
     (leadingZeros, r1) \<leftarrow> count_zeros r 0;
     if leadingZeros = 0 then Some (0, r1)
     else if leadingZeros \<ge> 31 then None
     else do {
       (v, r2) \<leftarrow> ReadBits r1 leadingZeros;
       Some (push_bit leadingZeros 1 - 1 + v, r2)
     }
   }"

definition ReadSE :: "reader \<Rightarrow> (int \<times> reader) option" where
  "ReadSE r = do {
     (ue, r1) \<leftarrow> ReadUE r;
     Some (if ue AND 1 \<noteq> 0 then sint (drop_bit 1 (ue + 1)) else - sint (drop_bit 1 ue), r1)
   }"

section \<open>The bits that are left\<close>

definition byte_bits :: "byte \<Rightarrow> bool list" where
  "byte_bits b = map (\<lambda>i. bit b (7 - i)) [0..<8]"

definition all_bits :: "byte list \<Rightarrow> bool list" where
  "all_bits dat = concat (map byte_bits dat)"

text \<open>A well-formed position, and the bits from it to the end of the data.\<close>

definition reader_ok :: "reader \<Rightarrow> bool" where
  "reader_ok r \<longleftrightarrow> r_bitPos r < 8 \<and> (r_bytePos r \<ge> length (r_data r) \<longrightarrow> r_bytePos r = length (r_data r) \<and> r_bitPos r = 0)"

definition bits_of :: "reader \<Rightarrow> bool list" where
  "bits_of r = drop (8 * r_bytePos r + r_bitPos r) (all_bits (r_data r))"

lemma length_byte_bits [simp]: "length (byte_bits b) = 8"
  by (simp add: byte_bits_def)

lemma length_all_bits [simp]: "length (all_bits dat) = 8 * length dat"
  by (induction dat) (simp_all add: all_bits_def)

lemma all_bits_nth:
  "i < length dat \<Longrightarrow> j < 8 \<Longrightarrow> all_bits dat ! (8 * i + j) = bit (dat ! i) (7 - j)"
proof (induction dat arbitrary: i)
  case (Cons b dat)
  then show ?case by (cases i) (auto simp: all_bits_def nth_append byte_bits_def add.assoc)
qed simp

lemma HasMoreData_bits: "reader_ok r \<Longrightarrow> HasMoreData r \<longleftrightarrow> bits_of r \<noteq> []"
  by (auto simp: HasMoreData_def bits_of_def reader_ok_def)

lemma bit_and_1: "(w AND 1 :: u32) = (if bit w 0 then 1 else 0)"
  by (rule bit_word_eqI) (auto simp: bit_simps intro!: gr0I)

text \<open>Reading a bit takes the first of the bits that are left, or yields 0 when none is.\<close>

lemma ReadBit_bits:
  assumes ok: "reader_ok r"
  obtains r' where "ReadBit r = Some (if bits_of r \<noteq> [] \<and> hd (bits_of r) then 1 else 0, r')"
    "bits_of r' = tl (bits_of r)" "reader_ok r'"
proof (cases "HasMoreData r")
  case False
  then have "bits_of r = []" using HasMoreData_bits [OF ok] by simp
  with False ok show thesis by (intro that [of r]) (simp_all add: ReadBit_def HasMoreData_def)
next
  case True
  let ?b = "r_data r ! r_bytePos r"
  let ?r = "if r_bitPos r + 1 = 8 then r\<lparr>r_bitPos := 0, r_bytePos := r_bytePos r + 1\<rparr>
    else r\<lparr>r_bitPos := r_bitPos r + 1\<rparr>"
  have pos: "r_bytePos r < length (r_data r)" "r_bitPos r < 8"
    using True ok by (simp_all add: HasMoreData_def reader_ok_def)
  let ?p = "8 * r_bytePos r + r_bitPos r"
  have p: "?p < length (all_bits (r_data r))" using pos by simp
  have split: "bits_of r = bit ?b (7 - r_bitPos r) # drop (Suc ?p) (all_bits (r_data r))"
    unfolding bits_of_def using Cons_nth_drop_Suc [OF p] all_bits_nth [OF pos] by simp
  have "8 * r_bytePos ?r + r_bitPos ?r = Suc ?p" "r_data ?r = r_data r" by auto
  then have "bits_of ?r = drop (Suc ?p) (all_bits (r_data r))" by (simp only: bits_of_def)
  then have "bits_of ?r = tl (bits_of r)" by (simp only: split list.sel)
  moreover have "reader_ok ?r" using pos by (auto simp: reader_ok_def)
  moreover have "ReadBit r = Some (if bits_of r \<noteq> [] \<and> hd (bits_of r) then 1 else 0, ?r)"
    using pos by (simp add: ReadBit_def split bit_and_1 bit_simps)
  ultimately show thesis by (rule that [rotated])
qed

section \<open>Reading numbers\<close>

text \<open>The number a string of bits stands for, and the \<open>k\<close> low bits of a number.\<close>

definition bits_nat :: "bool list \<Rightarrow> nat" where
  "bits_nat = foldl (\<lambda>v b. 2 * v + of_bool b) 0"

primrec to_bits :: "nat \<Rightarrow> nat \<Rightarrow> bool list" where
  "to_bits 0 n = []"
| "to_bits (Suc k) n = to_bits k (n div 2) @ [odd n]"

lemma length_to_bits [simp]: "length (to_bits k n) = k"
  by (induction k arbitrary: n) simp_all

lemma bits_nat_to_bits: "n < 2 ^ k \<Longrightarrow> bits_nat (to_bits k n) = n"
proof (induction k arbitrary: n)
  case 0
  then show ?case by (simp add: bits_nat_def)
next
  case (Suc k)
  then have "bits_nat (to_bits k (n div 2)) = n div 2" by (intro Suc.IH) simp
  then show ?case by (simp add: bits_nat_def of_bool_odd_eq_mod_2)
qed

lemma shift_in_bit: "push_bit 1 v OR of_bool b = 2 * v + (of_bool b :: u32)"
  by (cases b) (simp_all add: push_bit_eq_mult or_one_eq mult.commute)

text \<open>
  A reader at a well-formed position with the given bits left. Each operation takes its part off
  the front of these bits: as a fact, and as a step of a proof about a parser, which goes on with
  the bits after it.
\<close>

definition reads :: "reader \<Rightarrow> bool list \<Rightarrow> bool" where
  "reads r bs \<longleftrightarrow> reader_ok r \<and> bits_of r = bs"

lemma ReadBit_reads:
  assumes "reads r (b # rest)"
  shows "\<exists>r'. ReadBit r = Some (of_bool b, r') \<and> reads r' rest"
proof -
  have r: "reader_ok r" "bits_of r = b # rest" using assms by (simp_all add: reads_def)
  obtain r' where "ReadBit r = Some (if bits_of r \<noteq> [] \<and> hd (bits_of r) then 1 else 0, r')"
    "bits_of r' = tl (bits_of r)" "reader_ok r'" by (rule ReadBit_bits [OF r(1)])
  with r(2) show ?thesis by (simp add: reads_def of_bool_def)
qed

lemma read_bits_loop_reads:
  assumes "reads r (bs @ rest)"
  shows "\<exists>r'. read_bits_loop (length bs) (of_nat v) r
      = Some (of_nat (foldl (\<lambda>v b. 2 * v + of_bool b) v bs), r') \<and> reads r' rest"
  using assms
proof (induction bs arbitrary: r v)
  case Nil
  then show ?case by simp
next
  case (Cons b bs)
  then obtain r1 where r1: "ReadBit r = Some (of_bool b, r1)" "reads r1 (bs @ rest)"
    using ReadBit_reads [of r b "bs @ rest"] by auto
  have "push_bit 1 (of_nat v) OR of_bool b = (of_nat (2 * v + of_bool b) :: u32)"
    by (subst shift_in_bit) simp
  with Cons.IH [OF r1(2), of "2 * v + of_bool b"] r1(1) show ?case
    by (simp only: list.size foldl_Cons add_0_right add_Suc_right read_bits_loop.simps bind.simps
        case_prod_conv)
qed

lemma ReadBits_reads:
  assumes "reads r (to_bits n v @ rest)" and "v < 2 ^ n"
  shows "\<exists>r'. ReadBits r n = Some (of_nat v, r') \<and> reads r' rest"
  using read_bits_loop_reads [OF assms(1), of 0] bits_nat_to_bits [OF assms(2)]
  by (simp add: ReadBits_def bits_nat_def)

lemma ReadBits_step:
  assumes "reads r (to_bits n v @ rest)" and "v < 2 ^ n"
    and "\<And>r'. reads r' rest \<Longrightarrow> f (of_nat v, r') = x"
  shows "ReadBits r n \<bind> f = x"
  using ReadBits_reads [OF assms(1,2)] assms(3) by auto

lemma ReadBit_step:
  assumes "reads r (b # rest)" and "\<And>r'. reads r' rest \<Longrightarrow> f (of_bool b, r') = x"
  shows "ReadBit r \<bind> f = x"
  using ReadBit_reads [OF assms(1)] assms(2) by auto

lemma SkipBits_loop_bits:
  assumes "reader_ok r"
  shows "\<exists>r'. SkipBits_loop n r = Some r' \<and> bits_of r' = drop n (bits_of r) \<and> reader_ok r'"
  using assms
proof (induction n arbitrary: r)
  case 0
  then show ?case by simp
next
  case (Suc n)
  obtain b r1 where "ReadBit r = Some (b, r1)" "bits_of r1 = tl (bits_of r)" "reader_ok r1"
    using ReadBit_bits [OF Suc.prems] by blast
  with Suc.IH [of r1] show ?case by (auto simp: drop_Suc)
qed

lemma SkipBits_step:
  assumes "reads r (bs @ rest)" and "length bs = n" and "\<And>r'. reads r' rest \<Longrightarrow> f r' = x"
  shows "SkipBits r n \<bind> f = x"
  using SkipBits_loop_bits [of r n] assms by (auto simp: reads_def SkipBits_def)

section \<open>Exponential-Golomb codes\<close>

fun ilog2 :: "nat \<Rightarrow> nat" where
  "ilog2 n = (if n < 2 then 0 else Suc (ilog2 (n div 2)))"

declare ilog2.simps [simp del]

lemma ilog2_bounds: "0 < n \<Longrightarrow> 2 ^ ilog2 n \<le> n \<and> n < 2 ^ Suc (ilog2 n)"
proof (induction n rule: ilog2.induct)
  case (1 n)
  show ?case
  proof (cases "n < 2")
    case True
    with 1(2) show ?thesis by (simp add: ilog2.simps)
  next
    case False
    then have "2 ^ ilog2 (n div 2) \<le> n div 2 \<and> n div 2 < 2 ^ Suc (ilog2 (n div 2))" by (intro 1(1)) simp_all
    then show ?thesis using False by (subst (1 2) ilog2.simps) auto
  qed
qed

text \<open>The code of \<open>v\<close>: as many zeros as \<open>v + 1\<close> has bits after its first, then \<open>v + 1\<close>.\<close>

definition ue_bits :: "nat \<Rightarrow> bool list" where
  "ue_bits v = (let z = ilog2 (v + 1) in replicate z False @ [True] @ to_bits z (v + 1 - 2 ^ z))"

definition se_code :: "int \<Rightarrow> nat" where
  "se_code k = (if 0 < k then nat (2 * k - 1) else nat (- 2 * k))"

lemma count_zeros_reads:
  assumes "reads r (replicate z False @ True # rest)"
  shows "\<exists>r'. count_zeros r n = Some (n + z, r') \<and> reads r' rest"
  using assms
proof (induction z arbitrary: r n)
  case 0
  then obtain r' where "ReadBit r = Some (1, r')" "reads r' rest"
    using ReadBit_reads [of r True rest] by auto
  then show ?case by (simp add: count_zeros.simps)
next
  case (Suc z)
  then obtain r1 where r1: "ReadBit r = Some (0, r1)" "reads r1 (replicate z False @ True # rest)"
    using ReadBit_reads [of r False "replicate z False @ True # rest"] by auto
  then have "HasMoreData r1" using HasMoreData_bits [of r1] by (auto simp: reads_def)
  with r1(1) Suc.IH [OF r1(2), of "Suc n"] show ?case by (simp add: count_zeros.simps [of r])
qed

lemma ReadUE_reads:
  assumes r: "reads r (ue_bits v @ rest)" and v: "v < 2 ^ 31 - 1"
  shows "\<exists>r'. ReadUE r = Some (of_nat v, r') \<and> reads r' rest"
proof -
  let ?z = "ilog2 (v + 1)"
  have b: "2 ^ ?z \<le> v + 1" "v + 1 < 2 ^ Suc ?z" using ilog2_bounds [of "v + 1"] by simp_all
  have z: "?z < 31"
  proof (rule ccontr)
    assume "\<not> ?z < 31"
    then have "(2 :: nat) ^ 31 \<le> 2 ^ ?z" by (intro power_increasing) auto
    with b(1) v show False by simp
  qed
  have "reads r (replicate ?z False @ True # (to_bits ?z (v + 1 - 2 ^ ?z) @ rest))"
    using r by (simp add: ue_bits_def Let_def)
  from count_zeros_reads [OF this, of 0] obtain r1 where
    r1: "count_zeros r 0 = Some (?z, r1)" "reads r1 (to_bits ?z (v + 1 - 2 ^ ?z) @ rest)" by auto
  show ?thesis
  proof (cases "?z = 0")
    case True
    then have "v = 0" using b(2) by simp
    with True r1 show ?thesis by (simp add: ReadUE_def)
  next
    case False
    have low: "v + 1 - 2 ^ ?z < 2 ^ ?z" using b by simp
    have "(push_bit ?z 1 - 1 + of_nat (v + 1 - 2 ^ ?z) :: u32) = of_nat v"
      using b(1) by (simp add: push_bit_eq_mult of_nat_diff algebra_simps)
    moreover obtain r2 where "ReadBits r1 ?z = Some (of_nat (v + 1 - 2 ^ ?z), r2)" "reads r2 rest"
      using ReadBits_reads [OF r1(2) low] by blast
    ultimately show ?thesis using False z r1(1) by (simp add: ReadUE_def)
  qed
qed

lemma ReadUE_step:
  assumes "reads r (ue_bits v @ rest)" and "v < 2 ^ 31 - 1"
    and "\<And>r'. reads r' rest \<Longrightarrow> f (of_nat v, r') = x"
  shows "ReadUE r \<bind> f = x"
  using ReadUE_reads [OF assms(1,2)] assms(3) by auto

lemma sint_half:
  assumes "n < 2 ^ 32"
  shows "sint (drop_bit 1 (of_nat n :: u32)) = int (n div 2)"
proof -
  have u: "unat (drop_bit 1 (of_nat n :: u32)) = n div 2"
    using assms unfolding unat_drop_bit_eq by (simp add: drop_bit_Suc)
  then have "unat (drop_bit 1 (of_nat n :: u32)) < 2 ^ 31" using assms by simp
  from sint_small32 [OF this] u show ?thesis by (simp only:)
qed

lemma se_of_ue:
  assumes "- (2 ^ 30) < k" and "k < 2 ^ 30"
  shows "(if (of_nat (se_code k) :: u32) AND 1 \<noteq> 0 then sint (drop_bit 1 (of_nat (se_code k) + 1 :: u32))
    else - sint (drop_bit 1 (of_nat (se_code k) :: u32))) = k"
proof -
  let ?m = "se_code k"
  have odd: "(of_nat ?m :: u32) AND 1 \<noteq> 0 \<longleftrightarrow> odd ?m"
    unfolding bit_and_1 by (simp add: bit_of_nat_iff_bit bit_0)
  have m: "?m + 1 < 2 ^ 32" using assms by (auto simp: se_code_def nat_less_iff)
  show ?thesis
  proof (cases "0 < k")
    case True
    then have m2: "?m + 1 = 2 * nat k" by (simp add: se_code_def nat_diff_distrib nat_mult_distrib)
    have "even (?m + 1)" unfolding m2 by simp
    then have "odd ?m" by simp
    moreover have "int ((?m + 1) div 2) = k" unfolding m2 using True by simp
    moreover note True
    ultimately have "odd ?m" "int ((?m + 1) div 2) = k" by blast+
    with odd sint_half [OF m] show ?thesis by (simp add: add.commute)
  next
    case False
    then have me: "?m = nat (- 2 * k)" by (simp add: se_code_def)
    then have "even ?m" "int (?m div 2) = - k" using False by (auto simp: even_nat_iff nat_div_distrib')
    with odd sint_half [of ?m] m show ?thesis by simp
  qed
qed

lemma ReadSE_reads:
  assumes "reads r (ue_bits (se_code k) @ rest)" and "- (2 ^ 30) < k" and "k < 2 ^ 30"
  shows "\<exists>r'. ReadSE r = Some (k, r') \<and> reads r' rest"
proof -
  have "se_code k < 2 ^ 31 - 1" using assms(2,3) by (auto simp: se_code_def nat_less_iff)
  from ReadUE_reads [OF assms(1) this] se_of_ue [OF assms(2,3)] show ?thesis
    by (auto simp: ReadSE_def)
qed

lemma ReadSE_step:
  assumes "reads r (ue_bits (se_code k) @ rest)" and "- (2 ^ 30) < k" and "k < 2 ^ 30"
    and "\<And>r'. reads r' rest \<Longrightarrow> f (k, r') = x"
  shows "ReadSE r \<bind> f = x"
  using ReadSE_reads [OF assms(1-3)] assms(4) by auto

section \<open>Properties\<close>

text \<open>C33: Exp-Golomb round trip: wherever in the data the codes of an unsigned and a signed number
  stand, \<open>ReadUE\<close> and \<open>ReadSE\<close> read the two numbers and leave the reader exactly behind them, for
  every unsigned number below 2^31 - 1 and every signed one within 2^30.\<close>

theorem exp_golomb_roundtrip:
  assumes "reads r (ue_bits v @ ue_bits (se_code k) @ rest)" and "v < 2 ^ 31 - 1"
    and "- (2 ^ 30) < k" and "k < 2 ^ 30"
  shows "\<exists>r1 r2. ReadUE r = Some (of_nat v, r1) \<and> ReadSE r1 = Some (k, r2) \<and> reads r2 rest"
  using ReadUE_reads [OF assms(1,2)] ReadSE_reads [OF _ assms(3,4)] by blast

text \<open>31 or more leading zeros before a one make \<open>ReadUE\<close> execute undefined behaviour, the overflow
  of \<open>(1 << leadingZeros) - 1\<close>; up to 30 it never does.\<close>

theorem ReadUE_undefined_iff:
  assumes "reads r (replicate z False @ True # rest)"
  shows "ReadUE r = None \<longleftrightarrow> 31 \<le> z"
proof -
  obtain r1 where r1: "count_zeros r 0 = Some (z, r1)" "reads r1 rest"
    using count_zeros_reads [OF assms, of 0] by auto
  have def: "read_bits_loop n v q \<noteq> None" if "reader_ok q" for n v q
    using that
  proof (induction n arbitrary: v q)
    case (Suc n)
    obtain b q' where "ReadBit q = Some (b, q')" "reader_ok q'" by (rule ReadBit_bits [OF Suc.prems]) blast
    with Suc.IH [of q'] show ?case by simp
  qed simp
  have "reader_ok r1" using r1(2) by (simp add: reads_def)
  from def [OF this, of z 0] show ?thesis using r1(1) by (auto simp: ReadUE_def ReadBits_def)
qed

theorem exp_golomb_roundtrip_witness:
  "\<exists>r1 r2. ReadUE (BitstreamReader [0x2A, 0]) = Some (4, r1) \<and> ReadSE r1 = Some (1, r2)
    \<and> reads r2 (replicate 8 False)"
proof -
  have "bits_of (BitstreamReader [0x2A, 0])
      = ue_bits 4 @ ue_bits (se_code 1) @ replicate 8 False" by code_simp
  then have "reads (BitstreamReader [0x2A, 0]) (ue_bits 4 @ ue_bits (se_code 1) @ replicate 8 False)"
    by (simp add: reads_def reader_ok_def BitstreamReader_def)
  from exp_golomb_roundtrip [OF this] show ?thesis by simp
qed

theorem ReadUE_undefined_iff_witness:
  "ReadUE (BitstreamReader [0, 0, 0, 1, 0xFF]) = None"
proof -
  have "bits_of (BitstreamReader [0, 0, 0, 1, 0xFF]) = replicate 31 False @ True # replicate 8 True" by code_simp
  then have "reads (BitstreamReader [0, 0, 0, 1, 0xFF]) (replicate 31 False @ True # replicate 8 True)"
    by (simp add: reads_def reader_ok_def BitstreamReader_def)
  from ReadUE_undefined_iff [OF this] show ?thesis by simp
qed

end
