(* ===== verification/SpsParser.thy ===== *)
theory SpsParser
  imports Complex_Main BitReader
begin

text \<open>
  The frame rate of a sequence parameter set: src/server/sps_parser.cpp. A \<open>double\<close> is a rational
  number here, so the quotient is exact where the code rounds it. \<open>None\<close> is the undefined
  behaviour of the bit reader; the diagnostics printed to \<open>stderr\<close> are not modelled.
\<close>

definition DEFAULT_FPS :: rat where "DEFAULT_FPS = 25"

definition RemoveEmulationPrevention :: "byte list \<Rightarrow> byte list" where
  "RemoveEmulationPrevention dat =
     foldl (\<lambda>rbsp i. if i \<ge> 2 \<and> dat ! i = 0x03 \<and> dat ! (i - 1) = 0x00 \<and> dat ! (i - 2) = 0x00
                      then rbsp else rbsp @ [dat ! i]) [] [0..<length dat]"

text \<open>The length of the start code in front of a parameter set, 0 if there is none.\<close>

definition sps_offset :: "byte list \<Rightarrow> nat" where
  "sps_offset spsData =
    (if length spsData \<ge> 4 \<and> spsData ! 0 = 0 \<and> spsData ! 1 = 0 then
       if spsData ! 2 = 0 \<and> spsData ! 3 = 1 then 4
       else if spsData ! 2 = 1 then 3 else 0
     else 0)"

section \<open>Loops and skipped elements\<close>

definition SkipUE :: "reader \<Rightarrow> reader option" where
  "SkipUE r = do { (_, r) \<leftarrow> ReadUE r; Some r }"

definition SkipSE :: "reader \<Rightarrow> reader option" where
  "SkipSE r = do { (_, r) \<leftarrow> ReadSE r; Some r }"

text \<open>\<open>for (i = start; ...; ++i) body\<close> with a number of rounds.\<close>

primrec for_loop :: "nat \<Rightarrow> nat \<Rightarrow> (nat \<Rightarrow> reader \<Rightarrow> reader option) \<Rightarrow> reader \<Rightarrow> reader option" where
  "for_loop 0 i body r = Some r"
| "for_loop (Suc n) i body r = do { r \<leftarrow> body i r; for_loop n (i + 1) body r }"

section \<open>H.264\<close>

text \<open>One scaling list; \<open>lastScale + delta_scale + 256\<close> is computed in \<open>uint32_t\<close>.\<close>

primrec h264_scaling_list :: "nat \<Rightarrow> u32 \<Rightarrow> u32 \<Rightarrow> reader \<Rightarrow> reader option" where
  "h264_scaling_list 0 lastScale nextScale r = Some r"
| "h264_scaling_list (Suc n) lastScale nextScale r = do {
     (nextScale, r) \<leftarrow>
       (if nextScale \<noteq> 0 then do {
          (delta_scale, r) \<leftarrow> ReadSE r;
          Some ((lastScale + of_int delta_scale + 256) mod 256, r)
        } else Some (nextScale, r));
     h264_scaling_list n (if nextScale = 0 then lastScale else nextScale) nextScale r
   }"

definition is_high_profile :: "u32 \<Rightarrow> bool" where
  "is_high_profile profile_idc \<longleftrightarrow> profile_idc = 100 \<or> profile_idc = 110 \<or> profile_idc = 122
     \<or> profile_idc = 244 \<or> profile_idc = 44 \<or> profile_idc = 83 \<or> profile_idc = 86
     \<or> profile_idc = 118 \<or> profile_idc = 128"

definition h264_high_profile :: "u32 \<Rightarrow> reader \<Rightarrow> reader option" where
  "h264_high_profile profile_idc r =
    (if is_high_profile profile_idc then do {
       (chroma_format_idc, r) \<leftarrow> ReadUE r;
       r \<leftarrow> (if chroma_format_idc = 3 then SkipBits r 1 else Some r);
       r \<leftarrow> SkipUE r;
       r \<leftarrow> SkipUE r;
       r \<leftarrow> SkipBits r 1;
       (present, r) \<leftarrow> ReadBit r;
       if present \<noteq> 0 then
         for_loop (if chroma_format_idc \<noteq> 3 then 8 else 12) 0
           (\<lambda>i r. do {
              (list_present, r) \<leftarrow> ReadBit r;
              if list_present \<noteq> 0 then h264_scaling_list (if i < 6 then 16 else 64) 8 8 r
              else Some r
            }) r
       else Some r
     } else Some r)"

definition h264_pic_order_cnt :: "reader \<Rightarrow> reader option" where
  "h264_pic_order_cnt r = do {
     (pic_order_cnt_type, r) \<leftarrow> ReadUE r;
     if pic_order_cnt_type = 0 then SkipUE r
     else if pic_order_cnt_type = 1 then do {
       r \<leftarrow> SkipBits r 1;
       r \<leftarrow> SkipSE r;
       r \<leftarrow> SkipSE r;
       (num_ref_frames, r) \<leftarrow> ReadUE r;
       for_loop (unat num_ref_frames) 0 (\<lambda>_. SkipSE) r
     }
     else Some r
   }"

definition h264_picture :: "reader \<Rightarrow> reader option" where
  "h264_picture r = do {
     r \<leftarrow> SkipUE r;
     r \<leftarrow> SkipBits r 1;
     r \<leftarrow> SkipUE r;
     r \<leftarrow> SkipUE r;
     (frame_mbs_only_flag, r) \<leftarrow> ReadBit r;
     r \<leftarrow> (if frame_mbs_only_flag = 0 then SkipBits r 1 else Some r);
     r \<leftarrow> SkipBits r 1;
     (frame_cropping_flag, r) \<leftarrow> ReadBit r;
     if frame_cropping_flag \<noteq> 0 then do {
       r \<leftarrow> SkipUE r;
       r \<leftarrow> SkipUE r;
       r \<leftarrow> SkipUE r;
       SkipUE r
     }
     else Some r
   }"

text \<open>The VUI elements before the timing information, which the two standards share.\<close>

definition vui_prefix :: "reader \<Rightarrow> reader option" where
  "vui_prefix r = do {
     (aspect_ratio_info_present, r) \<leftarrow> ReadBit r;
     r \<leftarrow> (if aspect_ratio_info_present \<noteq> 0 then do {
             (aspect_ratio_idc, r) \<leftarrow> ReadBits r 8;
             if aspect_ratio_idc = 255 then do {
               r \<leftarrow> SkipBits r 16;
               SkipBits r 16
             } else Some r
           } else Some r);
     (overscan_info_present, r) \<leftarrow> ReadBit r;
     r \<leftarrow> (if overscan_info_present \<noteq> 0 then SkipBits r 1 else Some r);
     (video_signal_type_present, r) \<leftarrow> ReadBit r;
     r \<leftarrow> (if video_signal_type_present \<noteq> 0 then do {
             r \<leftarrow> SkipBits r 3;
             r \<leftarrow> SkipBits r 1;
             (colour_description_present, r) \<leftarrow> ReadBit r;
             if colour_description_present \<noteq> 0 then do {
               r \<leftarrow> SkipBits r 8;
               r \<leftarrow> SkipBits r 8;
               SkipBits r 8
             } else Some r
           } else Some r);
     (chroma_loc_info_present, r) \<leftarrow> ReadBit r;
     if chroma_loc_info_present \<noteq> 0 then do {
       r \<leftarrow> SkipUE r;
       SkipUE r
     } else Some r
   }"

definition h264_timing :: "reader \<Rightarrow> rat option" where
  "h264_timing r = do {
     (timing_info_present, r) \<leftarrow> ReadBit r;
     if timing_info_present = 0 then Some DEFAULT_FPS
     else do {
       (num_units_in_tick, r) \<leftarrow> ReadBits r 32;
       (time_scale, r) \<leftarrow> ReadBits r 32;
       if num_units_in_tick = 0 \<or> time_scale = 0 then Some DEFAULT_FPS
       else Some (of_nat (unat time_scale) / (2 * of_nat (unat num_units_in_tick)))
     }
   }"

definition ParseH264Fps :: "byte list \<Rightarrow> rat option" where
  "ParseH264Fps spsData =
    (let offset = sps_offset spsData in
     if offset = 0 \<or> offset + 1 \<ge> length spsData then Some DEFAULT_FPS
     else
       let rbsp = RemoveEmulationPrevention (drop offset spsData) in
       if length rbsp < 4 then Some DEFAULT_FPS
       else do {
         (profile_idc, r) \<leftarrow> ReadBits (BitstreamReader (drop 1 rbsp)) 8;
         r \<leftarrow> SkipBits r 8;
         r \<leftarrow> SkipBits r 8;
         r \<leftarrow> SkipUE r;
         r \<leftarrow> h264_high_profile profile_idc r;
         r \<leftarrow> SkipUE r;
         r \<leftarrow> h264_pic_order_cnt r;
         r \<leftarrow> h264_picture r;
         (vui_parameters_present_flag, r) \<leftarrow> ReadBit r;
         if vui_parameters_present_flag = 0 then Some DEFAULT_FPS
         else do {
           r \<leftarrow> vui_prefix r;
           h264_timing r
         }
       })"

section \<open>H.265\<close>

primrec h265_sub_layer_flags :: "nat \<Rightarrow> (u32 \<times> u32) list \<Rightarrow> reader \<Rightarrow> ((u32 \<times> u32) list \<times> reader) option" where
  "h265_sub_layer_flags 0 flags r = Some (flags, r)"
| "h265_sub_layer_flags (Suc n) flags r = do {
     (profile_present, r) \<leftarrow> ReadBit r;
     (level_present, r) \<leftarrow> ReadBit r;
     h265_sub_layer_flags n (flags @ [(profile_present, level_present)]) r
   }"

definition h265_profile_tier_level :: "nat \<Rightarrow> reader \<Rightarrow> reader option" where
  "h265_profile_tier_level sps_max_sub_layers_minus1 r = do {
     r \<leftarrow> SkipBits r 2;
     r \<leftarrow> SkipBits r 1;
     r \<leftarrow> SkipBits r 5;
     r \<leftarrow> SkipBits r 32;
     r \<leftarrow> SkipBits r 1;
     r \<leftarrow> SkipBits r 1;
     r \<leftarrow> SkipBits r 1;
     r \<leftarrow> SkipBits r 1;
     r \<leftarrow> SkipBits r 44;
     r \<leftarrow> SkipBits r 8;
     (flags, r) \<leftarrow> h265_sub_layer_flags sps_max_sub_layers_minus1 [] r;
     r \<leftarrow> (if sps_max_sub_layers_minus1 > 0
           then for_loop (8 - sps_max_sub_layers_minus1) sps_max_sub_layers_minus1 (\<lambda>_ r. SkipBits r 2) r
           else Some r);
     for_loop sps_max_sub_layers_minus1 0 (\<lambda>i r. do {
       r \<leftarrow> (if fst (flags ! i) \<noteq> 0 then SkipBits r 88 else Some r);
       if snd (flags ! i) \<noteq> 0 then SkipBits r 8 else Some r
     }) r
   }"

definition h265_picture :: "nat \<Rightarrow> reader \<Rightarrow> reader option" where
  "h265_picture sps_max_sub_layers_minus1 r = do {
     r \<leftarrow> SkipUE r;
     (chroma_format_idc, r) \<leftarrow> ReadUE r;
     r \<leftarrow> (if chroma_format_idc = 3 then SkipBits r 1 else Some r);
     r \<leftarrow> SkipUE r;
     r \<leftarrow> SkipUE r;
     (conformance_window_flag, r) \<leftarrow> ReadBit r;
     r \<leftarrow> (if conformance_window_flag \<noteq> 0 then do {
             r \<leftarrow> SkipUE r;
             r \<leftarrow> SkipUE r;
             r \<leftarrow> SkipUE r;
             SkipUE r
           } else Some r);
     r \<leftarrow> SkipUE r;
     r \<leftarrow> SkipUE r;
     r \<leftarrow> SkipUE r;
     (ordering_info_present, r) \<leftarrow> ReadBit r;
     let start = (if ordering_info_present \<noteq> 0 then 0 else sps_max_sub_layers_minus1);
     for_loop (sps_max_sub_layers_minus1 + 1 - start) start (\<lambda>_ r. do {
       r \<leftarrow> SkipUE r;
       r \<leftarrow> SkipUE r;
       SkipUE r
     }) r
   }"

definition h265_scaling_list_data :: "reader \<Rightarrow> reader option" where
  "h265_scaling_list_data r =
     for_loop 4 0 (\<lambda>sizeId. for_loop (if sizeId = 3 then 2 else 6) 0 (\<lambda>_ r. do {
       (pred_mode_flag, r) \<leftarrow> ReadBit r;
       if pred_mode_flag = 0 then SkipUE r
       else do {
         let coefNum = min 64 (2 ^ (4 + 2 * sizeId));
         r \<leftarrow> (if sizeId > 1 then SkipSE r else Some r);
         for_loop coefNum 0 (\<lambda>_. SkipSE) r
       }
     })) r"

definition h265_coding :: "reader \<Rightarrow> reader option" where
  "h265_coding r = do {
     r \<leftarrow> for_loop 6 0 (\<lambda>_. SkipUE) r;
     (scaling_list_enabled, r) \<leftarrow> ReadBit r;
     r \<leftarrow> (if scaling_list_enabled \<noteq> 0 then do {
             (data_present, r) \<leftarrow> ReadBit r;
             if data_present \<noteq> 0 then h265_scaling_list_data r else Some r
           } else Some r);
     r \<leftarrow> SkipBits r 1;
     r \<leftarrow> SkipBits r 1;
     (pcm_enabled, r) \<leftarrow> ReadBit r;
     if pcm_enabled \<noteq> 0 then do {
       r \<leftarrow> SkipBits r 4;
       r \<leftarrow> SkipBits r 4;
       r \<leftarrow> SkipUE r;
       r \<leftarrow> SkipUE r;
       SkipBits r 1
     } else Some r
   }"

definition h265_short_term_ref_pic_set :: "nat \<Rightarrow> nat \<Rightarrow> reader \<Rightarrow> reader option" where
  "h265_short_term_ref_pic_set num_sets i r = do {
     (inter_prediction, r) \<leftarrow> (if i \<noteq> 0 then ReadBit r else Some (0, r));
     if i \<noteq> 0 \<and> inter_prediction \<noteq> 0 then do {
       r \<leftarrow> (if i = num_sets then SkipUE r else Some r);
       r \<leftarrow> SkipBits r 1;
       r \<leftarrow> SkipUE r;
       for_loop 16 0 (\<lambda>_ r. do {
         (used_by_curr_pic, r) \<leftarrow> ReadBit r;
         if used_by_curr_pic \<noteq> 0 then SkipBits r 1 else Some r
       }) r
     }
     else do {
       (num_negative_pics, r) \<leftarrow> ReadUE r;
       (num_positive_pics, r) \<leftarrow> ReadUE r;
       r \<leftarrow> for_loop (unat num_negative_pics) 0 (\<lambda>_ r. do { r \<leftarrow> SkipUE r; SkipBits r 1 }) r;
       for_loop (unat num_positive_pics) 0 (\<lambda>_ r. do { r \<leftarrow> SkipUE r; SkipBits r 1 }) r
     }
   }"

definition h265_ref_pics :: "reader \<Rightarrow> reader option" where
  "h265_ref_pics r = do {
     (num_short_term_ref_pic_sets, r) \<leftarrow> ReadUE r;
     r \<leftarrow> for_loop (unat num_short_term_ref_pic_sets) 0
            (h265_short_term_ref_pic_set (unat num_short_term_ref_pic_sets)) r;
     (long_term_ref_pics_present, r) \<leftarrow> ReadBit r;
     r \<leftarrow> (if long_term_ref_pics_present \<noteq> 0 then do {
             (num_long_term_ref_pics_sps, r) \<leftarrow> ReadUE r;
             for_loop (unat num_long_term_ref_pics_sps) 0 (\<lambda>_ r. do {
               (ue, r) \<leftarrow> ReadUE r;
               r \<leftarrow> SkipBits r (unat (ue + 4));
               SkipBits r 1
             }) r
           } else Some r);
     r \<leftarrow> SkipBits r 1;
     SkipBits r 1
   }"

definition h265_vui :: "reader \<Rightarrow> rat option" where
  "h265_vui r = do {
     (vui_parameters_present_flag, r) \<leftarrow> ReadBit r;
     if vui_parameters_present_flag = 0 then Some DEFAULT_FPS
     else do {
       r \<leftarrow> vui_prefix r;
       r \<leftarrow> SkipBits r 1;
       r \<leftarrow> SkipBits r 1;
       r \<leftarrow> SkipBits r 1;
       (default_display_window_flag, r) \<leftarrow> ReadBit r;
       r \<leftarrow> (if default_display_window_flag \<noteq> 0 then do {
               r \<leftarrow> SkipUE r;
               r \<leftarrow> SkipUE r;
               r \<leftarrow> SkipUE r;
               SkipUE r
             } else Some r);
       (vui_timing_info_present_flag, r) \<leftarrow> ReadBit r;
       if vui_timing_info_present_flag = 0 then Some DEFAULT_FPS
       else do {
         (vui_num_units_in_tick, r) \<leftarrow> ReadBits r 32;
         (vui_time_scale, r) \<leftarrow> ReadBits r 32;
         if vui_num_units_in_tick = 0 \<or> vui_time_scale = 0 then Some DEFAULT_FPS
         else Some (of_nat (unat vui_time_scale) / of_nat (unat vui_num_units_in_tick))
       }
     }
   }"

definition ParseH265Fps :: "byte list \<Rightarrow> rat option" where
  "ParseH265Fps spsData =
    (let offset = sps_offset spsData in
     if offset = 0 \<or> offset + 2 \<ge> length spsData then Some DEFAULT_FPS
     else
       let rbsp = RemoveEmulationPrevention (drop offset spsData) in
       if length rbsp < 15 then Some DEFAULT_FPS
       else do {
         r \<leftarrow> SkipBits (BitstreamReader (drop 2 rbsp)) 4;
         (sps_max_sub_layers_minus1, r) \<leftarrow> ReadBits r 3;
         r \<leftarrow> SkipBits r 1;
         r \<leftarrow> h265_profile_tier_level (unat sps_max_sub_layers_minus1) r;
         r \<leftarrow> h265_picture (unat sps_max_sub_layers_minus1) r;
         r \<leftarrow> h265_coding r;
         r \<leftarrow> h265_ref_pics r;
         h265_vui r
       })"

end
