(* ===== verification/SpsSyntax.thy ===== *)
theory SpsSyntax
  imports SpsParser
begin

text \<open>
  Correctness of the frame rate of src/server/sps_parser.cpp against the syntax of the standard:
  sequence parameter sets are written down element by element, as H.264 (7.3.2.1.1 and E.1.1)
  orders them, protected by emulation prevention, and the parser recovers the frame rate.
\<close>

section \<open>Emulation prevention\<close>

text \<open>The encoder's side: \<open>z\<close> counts the zero bytes since the last other byte or inserted 3.\<close>

fun insert_emulation_prevention :: "nat \<Rightarrow> byte list \<Rightarrow> byte list" where
  "insert_emulation_prevention z [] = []"
| "insert_emulation_prevention z (b # bs) =
    (if z \<ge> 2 \<and> b \<le> 3 then 3 # b # insert_emulation_prevention (if b = 0 then 1 else 0) bs
     else b # insert_emulation_prevention (if b = 0 then z + 1 else 0) bs)"

text \<open>The removal loop by recursion on the data, with the two bytes before.\<close>

fun remove_after :: "byte option \<Rightarrow> byte option \<Rightarrow> byte list \<Rightarrow> byte list" where
  "remove_after p q [] = []"
| "remove_after p q (x # xs) =
    (if p = Some 0 \<and> q = Some 0 \<and> x = 3 then [] else [x]) @ remove_after q (Some x) xs"

definition prev :: "byte list \<Rightarrow> nat \<Rightarrow> nat \<Rightarrow> byte option" where
  "prev dat i k = (if k \<le> i then Some (dat ! (i - k)) else None)"

lemma remove_loop:
  assumes "i \<le> length dat"
  shows "foldl (\<lambda>rbsp i. if i \<ge> 2 \<and> dat ! i = 0x03 \<and> dat ! (i - 1) = 0x00 \<and> dat ! (i - 2) = 0x00
      then rbsp else rbsp @ [dat ! i]) acc [i..<length dat]
    = acc @ remove_after (prev dat i 2) (prev dat i 1) (drop i dat)"
  using assms
proof (induction "length dat - i" arbitrary: i acc)
  case 0
  then show ?case by simp
next
  case (Suc n)
  then have i: "i < length dat" by simp
  have d: "drop i dat = dat ! i # drop (Suc i) dat" using i by (simp add: Cons_nth_drop_Suc)
  have u: "[i..<length dat] = i # [Suc i..<length dat]" using i by (simp add: upt_conv_Cons)
  have p: "prev dat (Suc i) 2 = prev dat i 1" "prev dat (Suc i) 1 = Some (dat ! i)"
    by (auto simp: prev_def)
  have c: "prev dat i 2 = Some 0 \<and> prev dat i 1 = Some 0 \<longleftrightarrow> i \<ge> 2 \<and> dat ! (i - 1) = 0 \<and> dat ! (i - 2) = 0"
    by (auto simp: prev_def)
  show ?case
    unfolding u d foldl_Cons remove_after.simps
    using Suc.hyps(1) [of "Suc i"] Suc.hyps(2) i p c by auto
qed

lemma RemoveEmulationPrevention_eq: "RemoveEmulationPrevention dat = remove_after None None dat"
  using remove_loop [of 0 dat "[]"] by (simp add: RemoveEmulationPrevention_def prev_def)

lemma remove_insert:
  assumes "z \<le> 2" and "z = 0 \<longrightarrow> q \<noteq> Some 0" and "z = 1 \<longrightarrow> q = Some 0 \<and> p \<noteq> Some 0"
    and "z = 2 \<longrightarrow> p = Some 0 \<and> q = Some 0"
  shows "remove_after p q (insert_emulation_prevention z bs) = bs"
  using assms
proof (induction bs arbitrary: z p q)
  case Nil
  then show ?case by simp
next
  case (Cons b bs)
  show ?case
  proof (cases "z \<ge> 2 \<and> b \<le> 3")
    case True
    then have pq: "p = Some 0" "q = Some 0" using Cons.prems by auto
    have "remove_after (Some 3) (Some b) (insert_emulation_prevention (if b = 0 then 1 else 0) bs) = bs"
      by (rule Cons.IH) auto
    then show ?thesis using True pq by simp
  next
    case False
    have "\<not> (p = Some 0 \<and> q = Some 0 \<and> b = 3)"
      using False Cons.prems by (cases "z = 2") auto
    moreover have "remove_after q (Some b) (insert_emulation_prevention (if b = 0 then z + 1 else 0) bs) = bs"
    proof (cases "b = 0")
      case True
      then have "z = 0 \<or> z = 1" using False Cons.prems(1) by auto
      then show ?thesis using True Cons.prems Cons.IH [of "z + 1" "Some b" q] by auto
    next
      case False
      then show ?thesis using Cons.IH [of 0 "Some b" q] by simp
    qed
    ultimately show ?thesis using False by auto
  qed
qed

text \<open>Emulation prevention round trip: the parser's removal inverts what an encoder inserts.\<close>

theorem emulation_prevention_roundtrip:
  "RemoveEmulationPrevention (insert_emulation_prevention 0 rbsp) = rbsp"
  unfolding RemoveEmulationPrevention_eq by (rule remove_insert) simp_all

section \<open>The syntax of a parameter set\<close>

datatype poc_info = PocLsb nat | PocCycle bool int int "int list" | PocNone

record high_info =
  hi_chroma :: nat
  hi_separate :: bool
  hi_luma_depth :: nat
  hi_chroma_depth :: nat
  hi_qpprime :: bool
  hi_scaling :: "int list option list option"

record vui_info =
  vu_aspect :: "(nat \<times> nat \<times> nat) option"
  vu_overscan :: "bool option"
  vu_signal :: "(nat \<times> bool \<times> (nat \<times> nat \<times> nat) option) option"
  vu_chroma_loc :: "(nat \<times> nat) option"
  vu_timing :: "(nat \<times> nat) option"

record h264_sps =
  sp_profile :: nat
  sp_constraints :: nat
  sp_level :: nat
  sp_id :: nat
  sp_high :: high_info
  sp_log2_frame_num :: nat
  sp_poc :: poc_info
  sp_ref_frames :: nat
  sp_gaps :: bool
  sp_width :: nat
  sp_height :: nat
  sp_mbs_only :: bool
  sp_mb_adaptive :: bool
  sp_direct8 :: bool
  sp_crop :: "(nat \<times> nat \<times> nat \<times> nat) option"
  sp_vui :: "vui_info option"

fun option_bits :: "('a \<Rightarrow> bool list) \<Rightarrow> 'a option \<Rightarrow> bool list" where
  "option_bits f None = [False]"
| "option_bits f (Some x) = True # f x"

definition high_profiles :: "nat list" where
  "high_profiles = [100, 110, 122, 244, 44, 83, 86, 118, 128]"

text \<open>The high profile elements. A scaling matrix is a sequence of lists, each absent or given by its
  differences; a list ends early when \<open>nextScale\<close> becomes 0 (7.3.2.1.1.1).\<close>

definition se_list_bits :: "int list \<Rightarrow> bool list" where
  "se_list_bits ks = concat (map (\<lambda>k. ue_bits (se_code k)) ks)"

definition high_bits :: "nat \<Rightarrow> high_info \<Rightarrow> bool list" where
  "high_bits profile h = (if profile \<in> set high_profiles then
     ue_bits (hi_chroma h) @ (if hi_chroma h = 3 then [hi_separate h] else [])
     @ ue_bits (hi_luma_depth h) @ ue_bits (hi_chroma_depth h) @ [hi_qpprime h]
     @ option_bits (\<lambda>sls. concat (map (option_bits se_list_bits) sls)) (hi_scaling h)
   else [])"

fun poc_bits :: "poc_info \<Rightarrow> bool list" where
  "poc_bits (PocLsb n) = ue_bits 0 @ ue_bits n"
| "poc_bits (PocCycle always_zero non_ref top_bottom refs) = ue_bits 1 @ [always_zero]
     @ ue_bits (se_code non_ref) @ ue_bits (se_code top_bottom) @ ue_bits (length refs)
     @ se_list_bits refs"
| "poc_bits PocNone = ue_bits 2"

definition crop_bits :: "nat \<times> nat \<times> nat \<times> nat \<Rightarrow> bool list" where
  "crop_bits = (\<lambda>(l, r, t, b). ue_bits l @ ue_bits r @ ue_bits t @ ue_bits b)"

definition picture_bits :: "h264_sps \<Rightarrow> bool list" where
  "picture_bits s = ue_bits (sp_ref_frames s) @ [sp_gaps s] @ ue_bits (sp_width s) @ ue_bits (sp_height s)
     @ [sp_mbs_only s] @ (if sp_mbs_only s then [] else [sp_mb_adaptive s]) @ [sp_direct8 s]
     @ option_bits crop_bits (sp_crop s)"

definition aspect_bits :: "nat \<times> nat \<times> nat \<Rightarrow> bool list" where
  "aspect_bits = (\<lambda>(idc, w, h). to_bits 8 idc @ (if idc = 255 then to_bits 16 w @ to_bits 16 h else []))"

definition signal_bits :: "nat \<times> bool \<times> (nat \<times> nat \<times> nat) option \<Rightarrow> bool list" where
  "signal_bits = (\<lambda>(format, full_range, colour). to_bits 3 format @ [full_range]
     @ option_bits (\<lambda>(p, t, m). to_bits 8 p @ to_bits 8 t @ to_bits 8 m) colour)"

definition vui_prefix_bits :: "vui_info \<Rightarrow> bool list" where
  "vui_prefix_bits v = option_bits aspect_bits (vu_aspect v) @ option_bits (\<lambda>b. [b]) (vu_overscan v)
     @ option_bits signal_bits (vu_signal v) @ option_bits (\<lambda>(t, b). ue_bits t @ ue_bits b) (vu_chroma_loc v)"

definition timing_bits :: "(nat \<times> nat) option \<Rightarrow> bool list" where
  "timing_bits = option_bits (\<lambda>(num_units, time_scale). to_bits 32 num_units @ to_bits 32 time_scale)"

definition h264_sps_bits :: "h264_sps \<Rightarrow> bool list" where
  "h264_sps_bits s = to_bits 8 (sp_profile s) @ to_bits 8 (sp_constraints s) @ to_bits 8 (sp_level s)
     @ ue_bits (sp_id s) @ high_bits (sp_profile s) (sp_high s) @ ue_bits (sp_log2_frame_num s)
     @ poc_bits (sp_poc s) @ picture_bits s
     @ option_bits (\<lambda>v. vui_prefix_bits v @ timing_bits (vu_timing v)) (sp_vui s)"

section \<open>Ranges\<close>

definition ue_ok :: "nat \<Rightarrow> bool" where "ue_ok v \<longleftrightarrow> v < 2 ^ 31 - 1"
definition se_ok :: "int \<Rightarrow> bool" where "se_ok k \<longleftrightarrow> - (2 ^ 30) < k \<and> k < 2 ^ 30"

fun poc_ok :: "poc_info \<Rightarrow> bool" where
  "poc_ok (PocLsb n) \<longleftrightarrow> ue_ok n"
| "poc_ok (PocCycle z a b refs) \<longleftrightarrow> se_ok a \<and> se_ok b \<and> ue_ok (length refs) \<and> list_all se_ok refs"
| "poc_ok PocNone \<longleftrightarrow> True"

text \<open>The differences of one scaling list, with the values of \<open>lastScale\<close> and \<open>nextScale\<close>.\<close>

fun scaling_list_ok :: "nat \<Rightarrow> int \<Rightarrow> int \<Rightarrow> int list \<Rightarrow> bool" where
  "scaling_list_ok 0 lastScale nextScale ds \<longleftrightarrow> ds = []"
| "scaling_list_ok (Suc n) lastScale nextScale ds \<longleftrightarrow>
    (if nextScale = 0 then ds = []
     else case ds of [] \<Rightarrow> False
       | d # ds \<Rightarrow> - 128 \<le> d \<and> d \<le> 127
           \<and> (let next = (lastScale + d + 256) mod 256
              in scaling_list_ok n (if next = 0 then lastScale else next) next ds))"

definition scaling_size :: "nat \<Rightarrow> nat" where
  "scaling_size i = (if i < 6 then 16 else 64)"

definition high_ok :: "high_info \<Rightarrow> bool" where
  "high_ok h \<longleftrightarrow> ue_ok (hi_chroma h) \<and> ue_ok (hi_luma_depth h) \<and> ue_ok (hi_chroma_depth h)
     \<and> (case hi_scaling h of None \<Rightarrow> True
        | Some sls \<Rightarrow> length sls = (if hi_chroma h \<noteq> 3 then 8 else 12)
            \<and> (\<forall>i<length sls. case sls ! i of None \<Rightarrow> True
                 | Some ds \<Rightarrow> scaling_list_ok (scaling_size i) 8 8 ds))"

definition vui_ok :: "vui_info \<Rightarrow> bool" where
  "vui_ok v \<longleftrightarrow> (case vu_aspect v of None \<Rightarrow> True | Some (idc, _) \<Rightarrow> idc < 256)
     \<and> (case vu_chroma_loc v of None \<Rightarrow> True | Some (t, b) \<Rightarrow> ue_ok t \<and> ue_ok b)
     \<and> (case vu_timing v of None \<Rightarrow> True | Some (n, t) \<Rightarrow> n < 2 ^ 32 \<and> t < 2 ^ 32)"

definition sps_ok :: "h264_sps \<Rightarrow> bool" where
  "sps_ok s \<longleftrightarrow> sp_profile s < 256 \<and> ue_ok (sp_id s)
     \<and> high_ok (sp_high s)
     \<and> ue_ok (sp_log2_frame_num s) \<and> poc_ok (sp_poc s) \<and> ue_ok (sp_ref_frames s)
     \<and> ue_ok (sp_width s) \<and> ue_ok (sp_height s)
     \<and> (case sp_crop s of None \<Rightarrow> True | Some (l, r, t, b) \<Rightarrow> ue_ok l \<and> ue_ok r \<and> ue_ok t \<and> ue_ok b)
     \<and> (case sp_vui s of None \<Rightarrow> True | Some v \<Rightarrow> vui_ok v)"

section \<open>The sections of the parser read their elements\<close>

text \<open>A section of the parser ends behind its elements.\<close>

definition leads :: "reader option \<Rightarrow> bool list \<Rightarrow> bool" where
  "leads m rest \<longleftrightarrow> (\<exists>r. m = Some r \<and> reads r rest)"

lemma leads_Some: "reads r rest \<Longrightarrow> leads (Some r) rest"
  by (simp add: leads_def)

lemma leads_bind:
  assumes "leads m rest" and "\<And>r. reads r rest \<Longrightarrow> leads (f r) out"
  shows "leads (m \<bind> f) out"
  using assms by (auto simp: leads_def)

lemma leads_bind_eq:
  assumes "leads m rest" and "\<And>r. reads r rest \<Longrightarrow> f r = x"
  shows "m \<bind> f = x"
  using assms by (auto simp: leads_def)

lemma leads_SkipUE: "reads r (ue_bits v @ rest) \<Longrightarrow> ue_ok v \<Longrightarrow> leads (SkipUE r) rest"
  using ReadUE_reads [of r v rest] by (auto simp: leads_def SkipUE_def ue_ok_def)

lemma leads_SkipSE: "reads r (ue_bits (se_code k) @ rest) \<Longrightarrow> se_ok k \<Longrightarrow> leads (SkipSE r) rest"
  using ReadSE_reads [of r k rest] by (auto simp: leads_def SkipSE_def se_ok_def)

lemma leads_SkipBits: "reads r (bs @ rest) \<Longrightarrow> length bs = n \<Longrightarrow> leads (SkipBits r n) rest"
  using SkipBits_loop_bits [of r n] by (auto simp: leads_def SkipBits_def reads_def)

lemma leads_SkipBit: "reads r (b # rest) \<Longrightarrow> leads (SkipBits r 1) rest"
  using leads_SkipBits [of r "[b]" rest 1] by simp

lemmas leads_SkipBit_Suc = leads_SkipBit [unfolded One_nat_def]

lemma leads_then_SkipUE:
  "reads r (ue_bits v @ rest) \<Longrightarrow> ue_ok v \<Longrightarrow> (\<And>r'. reads r' rest \<Longrightarrow> leads (f r') out)
    \<Longrightarrow> leads (SkipUE r \<bind> f) out"
  by (rule leads_bind [OF leads_SkipUE])

lemma leads_then_SkipSE:
  "reads r (ue_bits (se_code k) @ rest) \<Longrightarrow> se_ok k \<Longrightarrow> (\<And>r'. reads r' rest \<Longrightarrow> leads (f r') out)
    \<Longrightarrow> leads (SkipSE r \<bind> f) out"
  by (rule leads_bind [OF leads_SkipSE])

lemma leads_then_SkipBit:
  "reads r (b # rest) \<Longrightarrow> (\<And>r'. reads r' rest \<Longrightarrow> leads (f r') out) \<Longrightarrow> leads (SkipBits r 1 \<bind> f) out"
  by (rule leads_bind [OF leads_SkipBit])

lemma leads_then_SkipBits:
  "reads r (to_bits n v @ rest) \<Longrightarrow> (\<And>r'. reads r' rest \<Longrightarrow> leads (f r') out)
    \<Longrightarrow> leads (SkipBits r n \<bind> f) out"
  by (rule leads_bind [OF leads_SkipBits [OF _ length_to_bits]])

lemma leads_ReadUE:
  "reads r (ue_bits v @ rest) \<Longrightarrow> ue_ok v \<Longrightarrow> (\<And>r'. reads r' rest \<Longrightarrow> leads (f (of_nat v, r')) out)
    \<Longrightarrow> leads (ReadUE r \<bind> f) out"
  using ReadUE_reads [of r v rest] by (auto simp: ue_ok_def)

lemma leads_ReadBit:
  "reads r (b # rest) \<Longrightarrow> (\<And>r'. reads r' rest \<Longrightarrow> leads (f (of_bool b, r')) out)
    \<Longrightarrow> leads (ReadBit r \<bind> f) out"
  using ReadBit_reads [of r b rest] by auto

lemma leads_ReadBits:
  "reads r (to_bits n v @ rest) \<Longrightarrow> v < 2 ^ n \<Longrightarrow> (\<And>r'. reads r' rest \<Longrightarrow> leads (f (of_nat v, r')) out)
    \<Longrightarrow> leads (ReadBits r n \<bind> f) out"
  using ReadBits_reads [of r n v rest] by auto

text \<open>An optional element behind its presence flag.\<close>

lemma leads_optional:
  assumes "reads r (option_bits f x @ rest)"
    and "\<And>y r'. x = Some y \<Longrightarrow> reads r' (f y @ rest) \<Longrightarrow> leads (body r') rest"
  shows "leads (ReadBit r \<bind> (\<lambda>(flag, r). if flag \<noteq> 0 then body r else Some r)) rest"
proof (cases x)
  case None
  then have "reads r (False # rest)" using assms(1) by simp
  then show ?thesis by (rule leads_ReadBit) (simp add: leads_Some)
next
  case (Some y)
  then have "reads r (True # f y @ rest)" using assms(1) by simp
  then show ?thesis by (rule leads_ReadBit) (simp add: assms(2) [OF Some])
qed

lemma leads_then_optional:
  assumes "reads r (option_bits f x @ rest)"
    and "\<And>y r'. x = Some y \<Longrightarrow> reads r' (f y @ rest) \<Longrightarrow> leads (body r') rest"
    and "\<And>r'. reads r' rest \<Longrightarrow> leads (g r') out"
  shows "leads (ReadBit r \<bind> (\<lambda>(flag, r). (if flag \<noteq> 0 then body r else Some r) \<bind> g)) out"
proof -
  have "ReadBit r \<bind> (\<lambda>(flag, r). (if flag \<noteq> 0 then body r else Some r) \<bind> g)
    = (ReadBit r \<bind> (\<lambda>(flag, r). if flag \<noteq> 0 then body r else Some r)) \<bind> g"
    by (cases "ReadBit r") (auto split: prod.splits)
  then show ?thesis using leads_bind [OF leads_optional [OF assms(1,2)] assms(3)] by simp
qed

text \<open>A 32-bit value read from a small number is that number.\<close>

lemma of_nat_ue_eq: "ue_ok v \<Longrightarrow> w < 2 ^ 31 \<Longrightarrow> (of_nat v = (of_nat w :: u32)) \<longleftrightarrow> v = w"
  by (simp add: word_unat_eq_iff ue_ok_def)

lemma of_nat_byte_eq: "v < 256 \<Longrightarrow> w < 2 ^ 31 \<Longrightarrow> (of_nat v = (of_nat w :: u32)) \<longleftrightarrow> v = w"
  by (simp add: word_unat_eq_iff)

lemma profile_high: "p < 256 \<Longrightarrow> is_high_profile (of_nat p) \<longleftrightarrow> p \<in> set high_profiles"
  using of_nat_byte_eq [of p 100] of_nat_byte_eq [of p 110] of_nat_byte_eq [of p 122]
    of_nat_byte_eq [of p 244] of_nat_byte_eq [of p 44] of_nat_byte_eq [of p 83]
    of_nat_byte_eq [of p 86] of_nat_byte_eq [of p 118] of_nat_byte_eq [of p 128]
  by (simp add: is_high_profile_def high_profiles_def)

text \<open>Loops: one round per element.\<close>

lemma leads_for:
  assumes "reads r (concat (map f xs) @ rest)"
    and "\<And>i r rest. i < length xs \<Longrightarrow> reads r (f (xs ! i) @ rest) \<Longrightarrow> leads (body (k + i) r) rest"
  shows "leads (for_loop (length xs) k body r) rest"
  using assms
proof (induction xs arbitrary: r k)
  case Nil
  then show ?case by (simp add: leads_Some)
next
  case (Cons x xs)
  have r: "reads r (f x @ concat (map f xs) @ rest)" using Cons.prems(1) by simp
  have "leads (body k r) (concat (map f xs) @ rest)" using Cons.prems(2) [of 0] r by simp
  moreover have "leads (for_loop (length xs) (k + 1) body r') rest" if "reads r' (concat (map f xs) @ rest)" for r'
    using Cons.prems(2) [of "Suc i" for i] by (intro Cons.IH [OF that]) simp
  ultimately have "leads (body k r \<bind> for_loop (length xs) (k + 1) body) rest" by (rule leads_bind)
  then show ?case by simp
qed

lemma leads_for_SE:
  "reads r (se_list_bits ks @ rest) \<Longrightarrow> list_all se_ok ks
    \<Longrightarrow> leads (for_loop (length ks) i (\<lambda>_. SkipSE) r) rest"
  unfolding se_list_bits_def by (erule leads_for) (auto intro: leads_SkipSE simp: list_all_length)

text \<open>The step of \<open>nextScale\<close> in \<open>uint32_t\<close> is the one of the standard.\<close>

lemma next_scale_word:
  fixes lastScale :: u32
  shows "uint ((lastScale + of_int d + 256) mod 256) = (uint lastScale + d + 256) mod 256"
proof -
  have eq: "lastScale + of_int d + 256 = (of_int (uint lastScale + d + 256) :: u32)" by simp
  have "uint ((lastScale + of_int d + 256) mod 256) = (uint lastScale + d + 256) mod 2 ^ 32 mod 256"
    unfolding eq uint_mod uint_word_of_int by simp
  also have "\<dots> = (uint lastScale + d + 256) mod 256" by (rule mod_mod_cancel) simp
  finally show ?thesis .
qed

lemma leads_ReadSE:
  "reads r (ue_bits (se_code k) @ rest) \<Longrightarrow> se_ok k \<Longrightarrow> (\<And>r'. reads r' rest \<Longrightarrow> leads (f (k, r')) out)
    \<Longrightarrow> leads (ReadSE r \<bind> f) out"
  using ReadSE_reads [of r k rest] by (auto simp: se_ok_def)

lemma leads_scaling_list:
  assumes "reads r (se_list_bits ds @ rest)" and "scaling_list_ok n (uint lastScale) (uint nextScale) ds"
  shows "leads (h264_scaling_list n lastScale nextScale r) rest"
  using assms
proof (induction n arbitrary: lastScale nextScale ds r)
  case 0
  then show ?case by (simp add: leads_Some se_list_bits_def)
next
  case (Suc n)
  show ?case
  proof (cases "nextScale = 0")
    case True
    then have "ds = []" using Suc.prems(2) by simp
    moreover from this have "scaling_list_ok n (uint lastScale) (uint nextScale) ds"
      using True by (cases n) simp_all
    ultimately show ?thesis using Suc.IH [OF Suc.prems(1)] True by simp
  next
    case False
    then have nz: "uint nextScale \<noteq> 0" by (simp add: uint_0_iff)
    then obtain d ds' where ds: "ds = d # ds'" using Suc.prems(2) by (cases ds) simp_all
    have "- 128 \<le> d \<and> d \<le> 127 \<and> scaling_list_ok n
        (if (uint lastScale + d + 256) mod 256 = 0 then uint lastScale else (uint lastScale + d + 256) mod 256)
        ((uint lastScale + d + 256) mod 256) ds'"
      using Suc.prems(2) unfolding ds scaling_list_ok.simps(2) list.case Let_def if_not_P [OF nz] .
    then have d: "- 128 \<le> d" "d \<le> 127" and ok: "scaling_list_ok n
        (if (uint lastScale + d + 256) mod 256 = 0 then uint lastScale else (uint lastScale + d + 256) mod 256)
        ((uint lastScale + d + 256) mod 256) ds'" by blast+
    let ?n = "(lastScale + of_int d + 256) mod 256"
    have ok': "scaling_list_ok n (uint (if ?n = 0 then lastScale else ?n)) (uint ?n) ds'"
      using ok unfolding next_scale_word [symmetric] uint_0_iff by (simp only: if_distrib [of uint])
    have r: "reads r (ue_bits (se_code d) @ se_list_bits ds' @ rest)"
      using Suc.prems(1) ds by (simp add: se_list_bits_def)
    have "leads (ReadSE r \<bind> (\<lambda>(delta_scale, r). h264_scaling_list n
        (if (lastScale + of_int delta_scale + 256) mod 256 = 0 then lastScale
         else (lastScale + of_int delta_scale + 256) mod 256)
        ((lastScale + of_int delta_scale + 256) mod 256) r)) rest"
      by (rule leads_ReadSE [OF r]) (use d Suc.IH [OF _ ok'] in \<open>simp_all add: se_ok_def\<close>)
    then show ?thesis using False by (cases "ReadSE r") auto
  qed
qed

lemma leads_high:
  assumes "reads r (high_bits p h @ rest)" and "p < 256" and "high_ok h"
  shows "leads (h264_high_profile (of_nat p) r) rest"
proof (cases "p \<in> set high_profiles")
  case False
  then show ?thesis
    using assms by (simp add: h264_high_profile_def profile_high high_bits_def leads_Some)
next
  case True
  have ok: "ue_ok (hi_chroma h)" "ue_ok (hi_luma_depth h)" "ue_ok (hi_chroma_depth h)"
    using assms(3) by (simp_all add: high_ok_def)
  have c3: "(of_nat (hi_chroma h) = (3 :: u32)) \<longleftrightarrow> hi_chroma h = 3"
    using of_nat_ue_eq [OF ok(1), of 3] by simp
  let ?sls = "\<lambda>sls. concat (map (option_bits se_list_bits) sls)"
  let ?matrix = "option_bits ?sls (hi_scaling h) @ rest"
  have r: "reads r (ue_bits (hi_chroma h) @ (if hi_chroma h = 3 then [hi_separate h] else [])
     @ ue_bits (hi_luma_depth h) @ ue_bits (hi_chroma_depth h) @ hi_qpprime h # ?matrix)"
    using assms(1) True by (simp add: high_bits_def)
  have "leads (ReadBit q \<bind> (\<lambda>(present, r). if present \<noteq> 0 then
      for_loop (if hi_chroma h \<noteq> 3 then 8 else 12) 0
        (\<lambda>i r. do {
           (list_present, r) \<leftarrow> ReadBit r;
           if list_present \<noteq> 0 then h264_scaling_list (if i < 6 then 16 else 64) 8 8 r
           else Some r
         }) r
    else Some r)) rest" if "reads q ?matrix" for q
  proof (rule leads_optional [OF that])
    fix sls q
    assume l: "hi_scaling h = Some sls" and q: "reads q (?sls sls @ rest)"
    have len: "length sls = (if hi_chroma h \<noteq> 3 then 8 else 12)"
      and lok: "\<And>i. i < length sls \<Longrightarrow> case sls ! i of None \<Rightarrow> True
        | Some ds \<Rightarrow> scaling_list_ok (scaling_size i) 8 8 ds"
      using assms(3) l by (simp_all add: high_ok_def)
    show "leads (for_loop (if hi_chroma h \<noteq> 3 then 8 else 12) 0 (\<lambda>i r. do {
           (list_present, r) \<leftarrow> ReadBit r;
           if list_present \<noteq> 0 then h264_scaling_list (if i < 6 then 16 else 64) 8 8 r
           else Some r
         }) q) rest"
      unfolding len [symmetric]
    proof (rule leads_for [OF q], rule leads_optional)
      fix i r rest
      assume i: "i < length sls" and "reads r (option_bits se_list_bits (sls ! i) @ rest)"
      then show "reads r (option_bits se_list_bits (sls ! i) @ rest)" by simp
      fix ds r'
      assume d: "sls ! i = Some ds" and r': "reads r' (se_list_bits ds @ rest)"
      have "scaling_list_ok (if i < 6 then 16 else 64) (uint (8 :: u32)) (uint (8 :: u32)) ds"
        using lok [OF i] d by (simp add: scaling_size_def)
      from leads_scaling_list [OF r' this]
      show "leads (h264_scaling_list (if 0 + i < 6 then 16 else 64) 8 8 r') rest" by simp
    qed
  qed
  note matrix = this
  show ?thesis
    unfolding h264_high_profile_def profile_high [OF assms(2)] if_P [OF True]
    apply (rule leads_ReadUE [OF r ok(1)])
    apply (simp only: case_prod_conv c3)
    apply (rule leads_bind [where rest = "ue_bits (hi_luma_depth h) @ ue_bits (hi_chroma_depth h) @ hi_qpprime h # ?matrix"])
     apply (auto intro: leads_SkipBit_Suc leads_Some split: if_splits)[1]
    apply (erule leads_then_SkipUE [OF _ ok(2)])
    apply (erule leads_then_SkipUE [OF _ ok(3)])
    apply (erule leads_then_SkipBit)
    apply (erule matrix)
    done
qed

lemma leads_poc:
  assumes "reads r (poc_bits p @ rest)" and "poc_ok p"
  shows "leads (h264_pic_order_cnt r) rest"
proof (cases p)
  case (PocLsb n)
  then have r: "reads r (ue_bits 0 @ ue_bits n @ rest)" and n: "ue_ok n" using assms by simp_all
  show ?thesis
    unfolding h264_pic_order_cnt_def
    apply (rule leads_ReadUE [OF r])
     apply (simp add: ue_ok_def)
    apply simp
    apply (erule leads_SkipUE [OF _ n])
    done
next
  case (PocCycle z a b refs)
  then have r: "reads r (ue_bits 1 @ z # ue_bits (se_code a) @ ue_bits (se_code b) @ ue_bits (length refs)
      @ se_list_bits refs @ rest)"
    and ok: "se_ok a" "se_ok b" "ue_ok (length refs)" "list_all se_ok refs" using assms by simp_all
  have u: "unat (of_nat (length refs) :: u32) = length refs" using ok(3) by (simp add: ue_ok_def)
  show ?thesis
    unfolding h264_pic_order_cnt_def
    apply (rule leads_ReadUE [OF r])
     apply (simp add: ue_ok_def)
    apply (simp only: case_prod_conv of_nat_1 one_neq_zero if_False if_True simp_thms)
    apply (erule leads_then_SkipBit)
    apply (erule leads_then_SkipSE [OF _ ok(1)])
    apply (erule leads_then_SkipSE [OF _ ok(2)])
    apply (erule leads_ReadUE [OF _ ok(3)])
    apply (simp only: case_prod_conv u)
    apply (erule leads_for_SE [OF _ ok(4)])
    done
next
  case PocNone
  then have "reads r (ue_bits 2 @ rest)" using assms(1) by simp
  then show ?thesis unfolding h264_pic_order_cnt_def
    by (rule leads_ReadUE) (simp_all add: ue_ok_def leads_Some)
qed

lemma leads_picture:
  assumes "reads r (picture_bits s @ rest)" and "ue_ok (sp_ref_frames s)" "ue_ok (sp_width s)"
    "ue_ok (sp_height s)"
    "case sp_crop s of None \<Rightarrow> True | Some (l, r, t, b) \<Rightarrow> ue_ok l \<and> ue_ok r \<and> ue_ok t \<and> ue_ok b"
  shows "leads (h264_picture r) rest"
proof -
  let ?crop = "option_bits crop_bits (sp_crop s) @ rest"
  have r: "reads r (ue_bits (sp_ref_frames s) @ sp_gaps s # ue_bits (sp_width s) @ ue_bits (sp_height s)
     @ sp_mbs_only s # (if sp_mbs_only s then [] else [sp_mb_adaptive s]) @ sp_direct8 s # ?crop)"
    using assms(1) by (simp add: picture_bits_def)
  have crop: "leads (ReadBit q \<bind> (\<lambda>(flag, r). if flag \<noteq> 0 then do {
       r \<leftarrow> SkipUE r; r \<leftarrow> SkipUE r; r \<leftarrow> SkipUE r; SkipUE r } else Some r)) rest" if "reads q ?crop" for q
  proof (rule leads_optional [OF that])
    fix c q'
    assume c: "sp_crop s = Some c" and q': "reads q' (crop_bits c @ rest)"
    obtain a b c' d where f: "c = (a, b, c', d)" by (cases c)
    have q: "reads q' (ue_bits a @ ue_bits b @ ue_bits c' @ ue_bits d @ rest)"
      and ok: "ue_ok a" "ue_ok b" "ue_ok c'" "ue_ok d"
      using q' assms(5) c f by (simp_all add: crop_bits_def)
    show "leads (do { r \<leftarrow> SkipUE q'; r \<leftarrow> SkipUE r; r \<leftarrow> SkipUE r; SkipUE r }) rest"
      by (rule leads_then_SkipUE [OF q ok(1)], erule leads_then_SkipUE [OF _ ok(2)],
        erule leads_then_SkipUE [OF _ ok(3)], erule leads_SkipUE [OF _ ok(4)])
  qed
  show ?thesis
    unfolding h264_picture_def
    apply (rule leads_then_SkipUE [OF r assms(2)], erule leads_then_SkipBit)
    apply (erule leads_then_SkipUE [OF _ assms(3)], erule leads_then_SkipUE [OF _ assms(4)])
    apply (erule leads_ReadBit, simp only: case_prod_conv)
    apply (rule leads_bind [where rest = "sp_direct8 s # ?crop"])
     apply (auto intro: leads_SkipBit_Suc leads_Some split: if_splits)[1]
    apply (erule leads_then_SkipBit, erule crop)
    done
qed

lemma leads_aspect:
  assumes "reads r (aspect_bits a @ rest)" and "fst a < 256"
  shows "leads (ReadBits r 8 \<bind> (\<lambda>(idc, r). if idc = 255 then do { r \<leftarrow> SkipBits r 16; SkipBits r 16 }
    else Some r)) rest"
proof -
  obtain idc w h where a: "a = (idc, w, h)" by (cases a)
  have r: "reads r (to_bits 8 idc @ (if idc = 255 then to_bits 16 w @ to_bits 16 h else []) @ rest)"
    using assms(1) by (simp add: a aspect_bits_def)
  have idc: "idc < 256" using assms(2) a by simp
  then have eq: "of_nat idc = (255 :: u32) \<longleftrightarrow> idc = 255" using of_nat_byte_eq [of idc 255] by simp
  show ?thesis
  proof (rule leads_ReadBits [OF r])
    show "idc < 2 ^ 8" using idc by simp
    fix r'
    assume r': "reads r' ((if idc = 255 then to_bits 16 w @ to_bits 16 h else []) @ rest)"
    show "leads (case (of_nat idc :: u32, r') of (idc, r) \<Rightarrow>
      if idc = 255 then do { r \<leftarrow> SkipBits r 16; SkipBits r 16 } else Some r) rest"
    proof (cases "idc = 255")
      case True
      with r' have "reads r' (to_bits 16 w @ to_bits 16 h @ rest)" by simp
      then have "leads (do { r \<leftarrow> SkipBits r' 16; SkipBits r 16 }) rest"
        by (rule leads_then_SkipBits) (erule leads_SkipBits, simp)
      then show ?thesis unfolding case_prod_conv eq if_P [OF True] .
    next
      case False
      with r' have "reads r' rest" by simp
      then show ?thesis unfolding case_prod_conv eq if_not_P [OF False] by (rule leads_Some)
    qed
  qed
qed

lemma leads_signal:
  assumes "reads r (signal_bits a @ rest)"
  shows "leads (do {
     r \<leftarrow> SkipBits r 3;
     r \<leftarrow> SkipBits r 1;
     (colour_description_present, r) \<leftarrow> ReadBit r;
     if colour_description_present \<noteq> 0 then do {
       r \<leftarrow> SkipBits r 8;
       r \<leftarrow> SkipBits r 8;
       SkipBits r 8
     } else Some r
   }) rest"
proof -
  obtain format full colour where a: "a = (format, full, colour)" by (cases a)
  let ?f = "\<lambda>(p, t, m). to_bits 8 p @ to_bits 8 t @ to_bits 8 m"
  have r: "reads r (to_bits 3 format @ full # option_bits ?f colour @ rest)"
    using assms by (simp add: a signal_bits_def)
  show ?thesis
  proof (rule leads_then_SkipBits [OF r], erule leads_then_SkipBit, erule leads_optional)
    fix y r'
    assume y: "reads r' (?f y @ rest)"
    obtain p t m where "y = (p, t, m)" by (cases y)
    with y have "reads r' (to_bits 8 p @ to_bits 8 t @ to_bits 8 m @ rest)" by simp
    then show "leads (do { r \<leftarrow> SkipBits r' 8; r \<leftarrow> SkipBits r 8; SkipBits r 8 }) rest"
      by (rule leads_then_SkipBits) (erule leads_then_SkipBits, erule leads_SkipBits, simp)
  qed
qed

lemma leads_vui_prefix:
  assumes "reads r (vui_prefix_bits v @ rest)" and "vui_ok v"
  shows "leads (vui_prefix r) rest"
proof -
  have r: "reads r (option_bits aspect_bits (vu_aspect v) @ option_bits (\<lambda>b. [b]) (vu_overscan v)
     @ option_bits signal_bits (vu_signal v) @ option_bits (\<lambda>(t, b). ue_bits t @ ue_bits b) (vu_chroma_loc v) @ rest)"
    using assms(1) by (simp add: vui_prefix_bits_def)
  show ?thesis
    unfolding vui_prefix_def
  proof (rule leads_then_optional [OF r], goal_cases)
    case (1 a r')
    then show ?case using assms(2) by (intro leads_aspect) (auto simp: vui_ok_def)
  next
    case (2 r')
    show ?case
    proof (rule leads_then_optional [OF 2], goal_cases)
      case (1 b q)
      then show ?case by (intro leads_SkipBit) simp
    next
      case (2 q)
      show ?case
      proof (rule leads_then_optional [OF 2], goal_cases)
        case 1
        from 1(2) show ?case by (rule leads_signal)
      next
        case (2 q)
        show ?case
        proof (rule leads_optional [OF 2], goal_cases)
          case (1 y q')
          obtain t b where tb: "y = (t, b)" by (cases y)
          then have q: "reads q' (ue_bits t @ ue_bits b @ rest)" and ok: "ue_ok t" "ue_ok b"
            using 1 assms(2) by (simp_all add: vui_ok_def)
          show ?case by (rule leads_then_SkipUE [OF q ok(1)], erule leads_SkipUE [OF _ ok(2)])
        qed
      qed
    qed
  qed
qed

section \<open>The frame rate\<close>

text \<open>What the parser makes of the timing information of a parameter set.\<close>

definition h264_fps_of :: "h264_sps \<Rightarrow> rat" where
  "h264_fps_of s = (case sp_vui s of None \<Rightarrow> DEFAULT_FPS
     | Some v \<Rightarrow> (case vu_timing v of None \<Rightarrow> DEFAULT_FPS
        | Some (num_units, time_scale) \<Rightarrow>
            if num_units = 0 \<or> time_scale = 0 then DEFAULT_FPS
            else of_nat time_scale / (2 * of_nat num_units)))"

lemma h264_timing_value:
  assumes "reads r (timing_bits t @ rest)"
    and "case t of None \<Rightarrow> True | Some (n, s) \<Rightarrow> n < 2 ^ 32 \<and> s < 2 ^ 32"
  shows "h264_timing r = Some (case t of None \<Rightarrow> DEFAULT_FPS | Some (n, s) \<Rightarrow>
    if n = 0 \<or> s = 0 then DEFAULT_FPS else of_nat s / (2 * of_nat n))"
proof (cases t)
  case None
  then have "reads r (False # rest)" using assms(1) by (simp add: timing_bits_def)
  from ReadBit_reads [OF this] None show ?thesis by (auto simp: h264_timing_def)
next
  case (Some ns)
  obtain n s where ns: "ns = (n, s)" by (cases ns)
  have r: "reads r (True # to_bits 32 n @ to_bits 32 s @ rest)" and lt: "n < 2 ^ 32" "s < 2 ^ 32"
    using assms Some ns by (simp_all add: timing_bits_def)
  obtain r1 where r1: "ReadBit r = Some (1, r1)" "reads r1 (to_bits 32 n @ to_bits 32 s @ rest)"
    using ReadBit_reads [OF r] by auto
  obtain r2 where r2: "ReadBits r1 32 = Some (of_nat n, r2)" "reads r2 (to_bits 32 s @ rest)"
    using ReadBits_reads [OF r1(2) lt(1)] by blast
  obtain r3 where r3: "ReadBits r2 32 = Some (of_nat s, r3)" using ReadBits_reads [OF r2(2) lt(2)] by blast
  have z: "(of_nat n = (0 :: u32)) \<longleftrightarrow> n = 0" "(of_nat s = (0 :: u32)) \<longleftrightarrow> s = 0"
    and u: "unat (of_nat n :: u32) = n" "unat (of_nat s :: u32) = s"
    using lt by (simp_all add: word_unat_eq_iff)
  show ?thesis unfolding h264_timing_def using r1(1) r2(1) r3 z u Some ns by simp
qed

lemma h264_vui_value:
  assumes "reads r (option_bits (\<lambda>v. vui_prefix_bits v @ timing_bits (vu_timing v)) (sp_vui s) @ rest)"
    and "case sp_vui s of None \<Rightarrow> True | Some v \<Rightarrow> vui_ok v"
  shows "(do {
     (vui_parameters_present_flag, r) \<leftarrow> ReadBit r;
     if vui_parameters_present_flag = 0 then Some DEFAULT_FPS
     else do { r \<leftarrow> vui_prefix r; h264_timing r }
   }) = Some (h264_fps_of s)"
proof (cases "sp_vui s")
  case None
  then have "reads r (False # rest)" using assms(1) by simp
  from ReadBit_reads [OF this] None show ?thesis by (auto simp: h264_fps_of_def)
next
  case (Some v)
  have r: "reads r (True # vui_prefix_bits v @ timing_bits (vu_timing v) @ rest)" and ok: "vui_ok v"
    using assms Some by simp_all
  obtain r1 where r1: "ReadBit r = Some (1, r1)" "reads r1 (vui_prefix_bits v @ timing_bits (vu_timing v) @ rest)"
    using ReadBit_reads [OF r] by auto
  obtain r2 where r2: "vui_prefix r1 = Some r2" "reads r2 (timing_bits (vu_timing v) @ rest)"
    using leads_vui_prefix [OF r1(2) ok] by (auto simp: leads_def)
  have "case vu_timing v of None \<Rightarrow> True | Some (n, s) \<Rightarrow> n < 2 ^ 32 \<and> s < 2 ^ 32"
    using ok by (simp add: vui_ok_def)
  from h264_timing_value [OF r2(2) this] r1(1) r2(1) Some show ?thesis by (simp add: h264_fps_of_def)
qed

lemma length_insert_emulation: "length bs \<le> length (insert_emulation_prevention z bs)"
proof (induction z bs rule: insert_emulation_prevention.induct)
  case (2 z b bs)
  then show ?case by auto
qed simp

text \<open>C15: the H.264 frame rate: for every sequence parameter set that follows the syntax of the standard (its
  other high profiles, 138, 139, 134 and 135, occur in subset sequence parameter sets only), with
  every combination of its optional elements, scaling matrices included, every picture order count
  type and any values in range, behind a start code of three or four bytes and protected by
  emulation prevention, the parser returns \<open>time_scale / (2 * num_units_in_tick)\<close>, and the default
  25 exactly if the timing information is absent or one of the two is zero.\<close>

theorem ParseH264Fps_correct:
  assumes "sps_ok s" and "all_bits rbsp = h264_sps_bits s @ rest"
    and "code = [0, 0, 1] \<or> code = [0, 0, 0, 1]"
  shows "ParseH264Fps (code @ insert_emulation_prevention 0 (header # rbsp)) = Some (h264_fps_of s)"
proof -
  let ?dat = "code @ insert_emulation_prevention 0 (header # rbsp)"
  have "24 \<le> length (all_bits rbsp)" unfolding assms(2) by (simp add: h264_sps_bits_def)
  then have len: "3 \<le> length rbsp" by simp
  have l: "4 \<le> length (insert_emulation_prevention 0 (header # rbsp))"
    using length_insert_emulation [of "header # rbsp" 0] len by simp
  have off: "sps_offset ?dat = length code" using assms(3) l by (auto simp: sps_offset_def)
  have rm: "RemoveEmulationPrevention (drop (length code) ?dat) = header # rbsp"
    unfolding RemoveEmulationPrevention_eq by (simp add: remove_insert)
  have c: "\<not> (length code = 0 \<or> length code + 1 \<ge> length ?dat)" using assms(3) l by auto
  let ?vui = "option_bits (\<lambda>v. vui_prefix_bits v @ timing_bits (vu_timing v)) (sp_vui s) @ rest"
  have r: "reads (BitstreamReader rbsp) (to_bits 8 (sp_profile s) @ to_bits 8 (sp_constraints s)
     @ to_bits 8 (sp_level s) @ ue_bits (sp_id s) @ high_bits (sp_profile s) (sp_high s)
     @ ue_bits (sp_log2_frame_num s) @ poc_bits (sp_poc s) @ picture_bits s @ ?vui)"
    using assms(2) len by (auto simp: reads_def reader_ok_def BitstreamReader_def bits_of_def h264_sps_bits_def)
  have ok: "sp_profile s < 2 ^ 8" "ue_ok (sp_id s)" "ue_ok (sp_log2_frame_num s)" "poc_ok (sp_poc s)"
    "ue_ok (sp_ref_frames s)" "ue_ok (sp_width s)" "ue_ok (sp_height s)"
    and high: "sp_profile s < 256" "high_ok (sp_high s)"
    and crop: "case sp_crop s of None \<Rightarrow> True | Some (l, r, t, b) \<Rightarrow> ue_ok l \<and> ue_ok r \<and> ue_ok t \<and> ue_ok b"
    and vui: "case sp_vui s of None \<Rightarrow> True | Some v \<Rightarrow> vui_ok v"
    using assms(1) by (simp_all add: sps_ok_def)
  have body: "(if length (header # rbsp) < 4 then x else y) = y" for x y :: "rat option"
    using len by simp
  have tail: "drop 1 (header # rbsp) = rbsp" by simp
  show ?thesis
    unfolding ParseH264Fps_def Let_def off rm body tail if_not_P [OF c]
    apply (rule ReadBits_step [OF r ok(1)], simp only: case_prod_conv)
    apply (rule leads_bind_eq, erule leads_SkipBits, simp)
    apply (rule leads_bind_eq, erule leads_SkipBits, simp)
    apply (rule leads_bind_eq, erule leads_SkipUE [OF _ ok(2)])
    apply (rule leads_bind_eq, erule leads_high [OF _ high])
    apply (rule leads_bind_eq, erule leads_SkipUE [OF _ ok(3)])
    apply (rule leads_bind_eq, erule leads_poc [OF _ ok(4)])
    apply (rule leads_bind_eq, erule leads_picture [OF _ ok(5-7) crop])
    apply (erule h264_vui_value [OF _ vui])
    done
qed

section \<open>Witness\<close>

text \<open>A baseline parameter set of 640x480 at 25 fps.\<close>

definition sample_sps :: h264_sps where
  "sample_sps = \<lparr>sp_profile = 66, sp_constraints = 0xC0, sp_level = 30, sp_id = 0,
     sp_high = \<lparr>hi_chroma = 0, hi_separate = False, hi_luma_depth = 0, hi_chroma_depth = 0, hi_qpprime = False, hi_scaling = None\<rparr>,
     sp_log2_frame_num = 0, sp_poc = PocLsb 0, sp_ref_frames = 1, sp_gaps = False, sp_width = 39,
     sp_height = 29, sp_mbs_only = True, sp_mb_adaptive = False, sp_direct8 = True, sp_crop = None,
     sp_vui = Some \<lparr>vu_aspect = None, vu_overscan = None, vu_signal = None, vu_chroma_loc = None,
       vu_timing = Some (1, 50)\<rparr>\<rparr>"

definition sample_rbsp :: "byte list" where
  "sample_rbsp = [66, 192, 30, 244, 5, 1, 237, 8, 0, 0, 0, 8, 0, 0, 1, 144]"

theorem ParseH264Fps_correct_witness:
  "ParseH264Fps ([0, 0, 0, 1] @ insert_emulation_prevention 0 (0x67 # sample_rbsp)) = Some 25
    \<and> length (insert_emulation_prevention 0 (0x67 # sample_rbsp)) > length (0x67 # sample_rbsp)"
proof -
  have ok: "sps_ok sample_sps" by (simp add: sps_ok_def sample_sps_def ue_ok_def vui_ok_def high_ok_def)
  have num: "to_bits 32 1 = replicate 31 False @ [True]"
    "to_bits 32 50 = replicate 26 False @ [True, True, False, False, True, False]" by code_simp+
  have "all_bits sample_rbsp = (to_bits 8 66 @ to_bits 8 0xC0 @ to_bits 8 30 @ ue_bits 0 @ [] @ ue_bits 0
      @ poc_bits (PocLsb 0) @ picture_bits sample_sps @ True # [False, False, False, False]
      @ True # (replicate 31 False @ [True]) @ (replicate 26 False @ [True, True, False, False, True, False]))
      @ [False, False, False]" by code_simp
  also have "\<dots> = h264_sps_bits sample_sps @ [False, False, False]"
    by (simp add: h264_sps_bits_def sample_sps_def high_bits_def high_profiles_def vui_prefix_bits_def
        timing_bits_def num num(1) [unfolded One_nat_def])
  finally have bits: "all_bits sample_rbsp = h264_sps_bits sample_sps @ [False, False, False]" .
  from ParseH264Fps_correct [OF ok bits, where code = "[0, 0, 0, 1]" and header = "0x67"]
  have "ParseH264Fps ([0, 0, 0, 1] @ insert_emulation_prevention 0 (0x67 # sample_rbsp)) = Some 25"
    by (simp add: h264_fps_of_def sample_sps_def)
  moreover have "length (insert_emulation_prevention 0 (0x67 # sample_rbsp)) > length (0x67 # sample_rbsp)"
    by code_simp
  ultimately show ?thesis by blast
qed

end
