(* ===== verification/HevcSyntax.thy ===== *)
theory HevcSyntax
  imports SpsSyntax
begin

text \<open>
  Correctness of the frame rate of H.265 parameter sets, src/server/sps_parser.cpp: the elements as
  H.265 (7.3.2.2, 7.3.3, 7.3.4, 7.3.7 and E.2.1) orders them. Left out are the two elements the code
  reads in another way than the standard: short-term reference picture sets predicted from another
  set, and long-term reference pictures.
\<close>

section \<open>The syntax\<close>

datatype h265_list = PredictedFrom nat | Coded int "int list"

record h265_vui_info =
  hv_common :: vui_info
  hv_flags :: "bool \<times> bool \<times> bool"
  hv_window :: "(nat \<times> nat \<times> nat \<times> nat) option"

record h265_sps =
  hs_vps :: nat
  hs_nesting :: bool
  hs_general :: "bool list"
  hs_layers :: "(bool list option \<times> bool list option) list"
  hs_id :: nat
  hs_chroma :: nat
  hs_separate :: bool
  hs_width :: nat
  hs_height :: nat
  hs_window :: "(nat \<times> nat \<times> nat \<times> nat) option"
  hs_luma_depth :: nat
  hs_chroma_depth :: nat
  hs_log2_poc :: nat
  hs_all_orders :: bool
  hs_orders :: "(nat \<times> nat \<times> nat) list"
  hs_blocks :: "nat list"
  hs_scaling :: "h265_list list list option option"
  hs_amp :: bool
  hs_sao :: bool
  hs_pcm :: "(nat \<times> nat \<times> nat \<times> nat \<times> bool) option"
  hs_ref_sets :: "((nat \<times> bool) list \<times> (nat \<times> bool) list) list"
  hs_mvp :: bool
  hs_strong :: bool
  hs_vui :: "h265_vui_info option"

text \<open>The sub-layers: two presence flags each, padding to eight pairs, then the data.\<close>

definition layer_flags :: "bool list option \<times> bool list option \<Rightarrow> bool list" where
  "layer_flags = (\<lambda>(p, l). [p \<noteq> None, l \<noteq> None])"

definition layer_data :: "bool list option \<times> bool list option \<Rightarrow> bool list" where
  "layer_data = (\<lambda>(p, l). (case p of None \<Rightarrow> [] | Some b \<Rightarrow> b) @ (case l of None \<Rightarrow> [] | Some b \<Rightarrow> b))"

definition align_bits :: "nat \<Rightarrow> bool list" where
  "align_bits k = concat (map (\<lambda>_. [False, False]) (replicate k ()))"

definition ptl_bits :: "h265_sps \<Rightarrow> bool list" where
  "ptl_bits s = hs_general s @ concat (map layer_flags (hs_layers s))
     @ (if length (hs_layers s) > 0 then align_bits (8 - length (hs_layers s)) else [])
     @ concat (map layer_data (hs_layers s))"

definition order_bits :: "nat \<times> nat \<times> nat \<Rightarrow> bool list" where
  "order_bits = (\<lambda>(a, b, c). ue_bits a @ ue_bits b @ ue_bits c)"

definition h265_picture_bits :: "h265_sps \<Rightarrow> bool list" where
  "h265_picture_bits s = ue_bits (hs_id s) @ ue_bits (hs_chroma s)
     @ (if hs_chroma s = 3 then [hs_separate s] else [])
     @ ue_bits (hs_width s) @ ue_bits (hs_height s) @ option_bits crop_bits (hs_window s)
     @ ue_bits (hs_luma_depth s) @ ue_bits (hs_chroma_depth s) @ ue_bits (hs_log2_poc s)
     @ [hs_all_orders s] @ concat (map order_bits (hs_orders s))"

fun h265_list_bits :: "nat \<Rightarrow> h265_list \<Rightarrow> bool list" where
  "h265_list_bits sizeId (PredictedFrom d) = False # ue_bits d"
| "h265_list_bits sizeId (Coded dc ks) =
     True # (if sizeId > 1 then ue_bits (se_code dc) else []) @ se_list_bits ks"

definition h265_scaling_bits :: "h265_list list list \<Rightarrow> bool list" where
  "h265_scaling_bits m =
     concat (map (\<lambda>(sizeId, ls). concat (map (h265_list_bits sizeId) ls)) (enumerate 0 m))"

definition pcm_bits :: "nat \<times> nat \<times> nat \<times> nat \<times> bool \<Rightarrow> bool list" where
  "pcm_bits = (\<lambda>(luma, chroma, log2_min, log2_diff, filter). to_bits 4 luma @ to_bits 4 chroma
     @ ue_bits log2_min @ ue_bits log2_diff @ [filter])"

definition h265_coding_bits :: "h265_sps \<Rightarrow> bool list" where
  "h265_coding_bits s = concat (map ue_bits (hs_blocks s))
     @ option_bits (option_bits h265_scaling_bits) (hs_scaling s) @ [hs_amp s, hs_sao s]
     @ option_bits pcm_bits (hs_pcm s)"

definition ref_pic_bits :: "nat \<times> bool \<Rightarrow> bool list" where
  "ref_pic_bits = (\<lambda>(delta, used). ue_bits delta @ [used])"

definition ref_set_bits :: "nat \<times> (nat \<times> bool) list \<times> (nat \<times> bool) list \<Rightarrow> bool list" where
  "ref_set_bits = (\<lambda>(i, neg, pos). (if i \<noteq> 0 then [False] else []) @ ue_bits (length neg)
     @ ue_bits (length pos) @ concat (map ref_pic_bits neg) @ concat (map ref_pic_bits pos))"

definition h265_ref_bits :: "h265_sps \<Rightarrow> bool list" where
  "h265_ref_bits s = ue_bits (length (hs_ref_sets s))
     @ concat (map ref_set_bits (enumerate 0 (hs_ref_sets s))) @ [False, hs_mvp s, hs_strong s]"

definition h265_vui_bits :: "h265_vui_info \<Rightarrow> bool list" where
  "h265_vui_bits v = vui_prefix_bits (hv_common v)
     @ (case hv_flags v of (a, b, c) \<Rightarrow> [a, b, c]) @ option_bits crop_bits (hv_window v)
     @ timing_bits (vu_timing (hv_common v))"

definition h265_sps_bits :: "h265_sps \<Rightarrow> bool list" where
  "h265_sps_bits s = to_bits 4 (hs_vps s) @ to_bits 3 (length (hs_layers s)) @ [hs_nesting s]
     @ ptl_bits s @ h265_picture_bits s @ h265_coding_bits s @ h265_ref_bits s
     @ option_bits h265_vui_bits (hs_vui s)"

section \<open>Ranges\<close>

definition window_ok :: "(nat \<times> nat \<times> nat \<times> nat) option \<Rightarrow> bool" where
  "window_ok w \<longleftrightarrow> (case w of None \<Rightarrow> True | Some (l, r, t, b) \<Rightarrow> ue_ok l \<and> ue_ok r \<and> ue_ok t \<and> ue_ok b)"

definition layer_ok :: "bool list option \<times> bool list option \<Rightarrow> bool" where
  "layer_ok = (\<lambda>(p, l). (case p of None \<Rightarrow> True | Some b \<Rightarrow> length b = 88)
     \<and> (case l of None \<Rightarrow> True | Some b \<Rightarrow> length b = 8))"

fun h265_list_ok :: "nat \<Rightarrow> h265_list \<Rightarrow> bool" where
  "h265_list_ok sizeId (PredictedFrom d) \<longleftrightarrow> ue_ok d"
| "h265_list_ok sizeId (Coded dc ks) \<longleftrightarrow>
     se_ok dc \<and> list_all se_ok ks \<and> length ks = min 64 (2 ^ (4 + 2 * sizeId))"

definition h265_scaling_ok :: "h265_list list list \<Rightarrow> bool" where
  "h265_scaling_ok m \<longleftrightarrow> map length m = [6, 6, 6, 2]
     \<and> (\<forall>i<length m. list_all (h265_list_ok i) (m ! i))"

definition ref_set_ok :: "(nat \<times> bool) list \<times> (nat \<times> bool) list \<Rightarrow> bool" where
  "ref_set_ok = (\<lambda>(neg, pos). ue_ok (length neg) \<and> ue_ok (length pos)
     \<and> list_all (\<lambda>(d, u). ue_ok d) neg \<and> list_all (\<lambda>(d, u). ue_ok d) pos)"

definition h265_picture_ok :: "h265_sps \<Rightarrow> bool" where
  "h265_picture_ok s \<longleftrightarrow> ue_ok (hs_id s) \<and> ue_ok (hs_chroma s) \<and> ue_ok (hs_width s) \<and> ue_ok (hs_height s)
     \<and> window_ok (hs_window s) \<and> ue_ok (hs_luma_depth s) \<and> ue_ok (hs_chroma_depth s) \<and> ue_ok (hs_log2_poc s)
     \<and> length (hs_orders s) = (if hs_all_orders s then length (hs_layers s) + 1 else 1)
     \<and> list_all (\<lambda>(a, b, c). ue_ok a \<and> ue_ok b \<and> ue_ok c) (hs_orders s)"

definition h265_coding_ok :: "h265_sps \<Rightarrow> bool" where
  "h265_coding_ok s \<longleftrightarrow> length (hs_blocks s) = 6 \<and> list_all ue_ok (hs_blocks s)
     \<and> (case hs_scaling s of Some (Some m) \<Rightarrow> h265_scaling_ok m | _ \<Rightarrow> True)
     \<and> (case hs_pcm s of None \<Rightarrow> True | Some (_, _, a, b, _) \<Rightarrow> ue_ok a \<and> ue_ok b)"

definition h265_sps_ok :: "h265_sps \<Rightarrow> bool" where
  "h265_sps_ok s \<longleftrightarrow> length (hs_general s) = 96 \<and> length (hs_layers s) \<le> 7 \<and> list_all layer_ok (hs_layers s)
     \<and> h265_picture_ok s \<and> h265_coding_ok s
     \<and> ue_ok (length (hs_ref_sets s)) \<and> list_all ref_set_ok (hs_ref_sets s)
     \<and> (case hs_vui s of None \<Rightarrow> True | Some v \<Rightarrow> vui_ok (hv_common v) \<and> window_ok (hv_window v))"

section \<open>The sections of the parser read their elements\<close>

lemma leads_skip:
  "reads r bits \<Longrightarrow> n \<le> length bits \<Longrightarrow> (\<And>r'. reads r' (drop n bits) \<Longrightarrow> leads (f r') out)
    \<Longrightarrow> leads (SkipBits r n \<bind> f) out"
  by (rule leads_bind [OF leads_SkipBits [of r "take n bits"]]) auto

lemma leads_window:
  assumes "reads r (crop_bits w @ rest)" and "window_ok (Some w)"
  shows "leads (do { r \<leftarrow> SkipUE r; r \<leftarrow> SkipUE r; r \<leftarrow> SkipUE r; SkipUE r }) rest"
proof -
  obtain a b c d where w: "w = (a, b, c, d)" by (cases w)
  have r: "reads r (ue_bits a @ ue_bits b @ ue_bits c @ ue_bits d @ rest)"
    and ok: "ue_ok a" "ue_ok b" "ue_ok c" "ue_ok d"
    using assms w by (simp_all add: crop_bits_def window_ok_def)
  show ?thesis
    by (rule leads_then_SkipUE [OF r ok(1)], erule leads_then_SkipUE [OF _ ok(2)],
      erule leads_then_SkipUE [OF _ ok(3)], erule leads_SkipUE [OF _ ok(4)])
qed

lemma sub_layer_flags_read:
  assumes "reads r (concat (map layer_flags ls) @ rest)"
  shows "\<exists>r'. h265_sub_layer_flags (length ls) fl r
      = Some (fl @ map (\<lambda>(p, l). (of_bool (p \<noteq> None), of_bool (l \<noteq> None))) ls, r') \<and> reads r' rest"
  using assms
proof (induction ls arbitrary: r fl)
  case Nil
  then show ?case by simp
next
  case (Cons x ls)
  obtain p l where x: "x = (p, l)" by (cases x)
  have r: "reads r ((p \<noteq> None) # (l \<noteq> None) # concat (map layer_flags ls) @ rest)"
    using Cons.prems x by (simp add: layer_flags_def)
  obtain r1 where r1: "ReadBit r = Some (of_bool (p \<noteq> None), r1)"
      "reads r1 ((l \<noteq> None) # concat (map layer_flags ls) @ rest)"
    using ReadBit_reads [OF r] by blast
  obtain r2 where r2: "ReadBit r1 = Some (of_bool (l \<noteq> None), r2)" "reads r2 (concat (map layer_flags ls) @ rest)"
    using ReadBit_reads [OF r1(2)] by blast
  from Cons.IH [OF r2(2), of "fl @ [(of_bool (p \<noteq> None), of_bool (l \<noteq> None))]"]
  show ?case using r1(1) r2(1) x by auto
qed

lemma leads_layer:
  assumes "reads r (layer_data x @ rest)" and "layer_ok x" and "flag = (of_bool (fst x \<noteq> None), of_bool (snd x \<noteq> None))"
  shows "leads (do {
       r \<leftarrow> (if fst flag \<noteq> (0 :: u32) then SkipBits r 88 else Some r);
       if snd flag \<noteq> (0 :: u32) then SkipBits r 8 else Some r
     }) rest"
proof -
  obtain p l where x: "x = (p, l)" by (cases x)
  let ?l = "(case l of None \<Rightarrow> [] | Some b \<Rightarrow> b) @ rest"
  have r: "reads r ((case p of None \<Rightarrow> [] | Some b \<Rightarrow> b) @ ?l)" using assms(1) x by (simp add: layer_data_def)
  have "leads (if fst flag \<noteq> 0 then SkipBits r 88 else Some r) ?l"
    using r assms(2,3) x by (cases p) (auto simp: layer_ok_def leads_Some intro: leads_SkipBits)
  moreover have "leads (if snd flag \<noteq> 0 then SkipBits r' 8 else Some r') rest" if "reads r' ?l" for r'
    using that assms(2,3) x by (cases l) (auto simp: layer_ok_def leads_Some intro: leads_SkipBits)
  ultimately show ?thesis by (rule leads_bind)
qed

lemma leads_ptl:
  assumes "reads r (ptl_bits s @ rest)" and "length (hs_general s) = 96" and "length (hs_layers s) \<le> 7"
    and "list_all layer_ok (hs_layers s)"
  shows "leads (h265_profile_tier_level (length (hs_layers s)) r) rest"
proof -
  let ?n = "length (hs_layers s)"
  let ?data = "concat (map layer_data (hs_layers s)) @ rest"
  let ?align = "(if ?n > 0 then align_bits (8 - ?n) else []) @ ?data"
  let ?flags = "concat (map layer_flags (hs_layers s)) @ ?align"
  let ?fl = "map (\<lambda>(p, l). (of_bool (p \<noteq> None), of_bool (l \<noteq> None))) (hs_layers s) :: (u32 \<times> u32) list"
  have r: "reads r (hs_general s @ ?flags)" using assms(1) by (simp add: ptl_bits_def)
  have align: "leads (if ?n > 0 then for_loop (8 - ?n) ?n (\<lambda>_ r. SkipBits r 2) q else Some q) ?data"
    if q: "reads q ?align" for q
  proof (cases "?n > 0")
    case True
    then have "reads q (concat (map (\<lambda>_. [False, False]) (replicate (8 - ?n) ())) @ ?data)"
      using q by (simp add: align_bits_def)
    then have "leads (for_loop (length (replicate (8 - ?n) ())) ?n (\<lambda>_ r. SkipBits r 2) q) ?data"
      by (rule leads_for) (auto intro: leads_SkipBits [where bs = "[False, False]"])
    then show ?thesis using True by simp
  next
    case False
    then show ?thesis using q by (auto simp: leads_Some)
  qed
  have data: "leads (for_loop ?n 0 (\<lambda>i r. do {
       r \<leftarrow> (if fst (?fl ! i) \<noteq> 0 then SkipBits r 88 else Some r);
       if snd (?fl ! i) \<noteq> 0 then SkipBits r 8 else Some r
     }) q) rest" if "reads q ?data" for q
    by (rule leads_for [OF that], rule leads_layer, assumption)
      (use assms(4) in \<open>auto simp: list_all_length split: prod.splits\<close>)
  have tail: "leads (do {
       (flags, r) \<leftarrow> h265_sub_layer_flags ?n [] q;
       r \<leftarrow> (if ?n > 0 then for_loop (8 - ?n) ?n (\<lambda>_ r. SkipBits r 2) r else Some r);
       for_loop ?n 0 (\<lambda>i r. do {
         r \<leftarrow> (if fst (flags ! i) \<noteq> 0 then SkipBits r 88 else Some r);
         if snd (flags ! i) \<noteq> 0 then SkipBits r 8 else Some r
       }) r
     }) rest" if q: "reads q ?flags" for q
  proof -
    obtain q' where q': "h265_sub_layer_flags ?n [] q = Some (?fl, q')" "reads q' ?align"
      using sub_layer_flags_read [OF q, of "[]"] by auto
    from leads_bind [OF align [OF q'(2)] data] show ?thesis unfolding q'(1) by simp
  qed
  show ?thesis
    unfolding h265_profile_tier_level_def
    apply (rule leads_skip [OF r], simp add: assms(2))
    apply (erule leads_skip, simp add: assms(2))+
    apply (rule tail)
    apply (simp add: assms(2))
    done
qed

lemma leads_order:
  assumes "reads r (order_bits x @ rest)" and "case x of (a, b, c) \<Rightarrow> ue_ok a \<and> ue_ok b \<and> ue_ok c"
  shows "leads (do { r \<leftarrow> SkipUE r; r \<leftarrow> SkipUE r; SkipUE r }) rest"
proof -
  obtain a b c where x: "x = (a, b, c)" by (cases x)
  have r: "reads r (ue_bits a @ ue_bits b @ ue_bits c @ rest)" and ok: "ue_ok a" "ue_ok b" "ue_ok c"
    using assms x by (simp_all add: order_bits_def)
  show ?thesis
    by (rule leads_then_SkipUE [OF r ok(1)], erule leads_then_SkipUE [OF _ ok(2)], erule leads_SkipUE [OF _ ok(3)])
qed

lemma leads_h265_picture:
  assumes "reads r (h265_picture_bits s @ rest)" and "h265_picture_ok s"
  shows "leads (h265_picture (length (hs_layers s)) r) rest"
proof -
  let ?n = "length (hs_layers s)"
  let ?orders = "concat (map order_bits (hs_orders s)) @ rest"
  let ?depths = "ue_bits (hs_luma_depth s) @ ue_bits (hs_chroma_depth s) @ ue_bits (hs_log2_poc s)
     @ hs_all_orders s # ?orders"
  let ?dims = "ue_bits (hs_width s) @ ue_bits (hs_height s) @ option_bits crop_bits (hs_window s) @ ?depths"
  have r: "reads r (ue_bits (hs_id s) @ ue_bits (hs_chroma s)
     @ (if hs_chroma s = 3 then [hs_separate s] else []) @ ?dims)"
    using assms(1) by (simp add: h265_picture_bits_def)
  have ok: "ue_ok (hs_id s)" "ue_ok (hs_chroma s)" "ue_ok (hs_width s)" "ue_ok (hs_height s)"
    "ue_ok (hs_luma_depth s)" "ue_ok (hs_chroma_depth s)" "ue_ok (hs_log2_poc s)"
    and window: "window_ok (hs_window s)"
    and orders: "length (hs_orders s) = (if hs_all_orders s then ?n + 1 else 1)"
      "\<And>i. i < length (hs_orders s) \<Longrightarrow> case hs_orders s ! i of (a, b, c) \<Rightarrow> ue_ok a \<and> ue_ok b \<and> ue_ok c"
    using assms(2) by (simp_all add: h265_picture_ok_def list_all_length)
  have c3: "(of_nat (hs_chroma s) = (3 :: u32)) \<longleftrightarrow> hs_chroma s = 3"
    using of_nat_ue_eq [OF ok(2), of 3] by simp
  have loop: "leads (for_loop (?n + 1 - (if hs_all_orders s then 0 else ?n)) (if hs_all_orders s then 0 else ?n)
      (\<lambda>_ r. do { r \<leftarrow> SkipUE r; r \<leftarrow> SkipUE r; SkipUE r }) q) rest" if q: "reads q ?orders" for q
  proof -
    have "leads (for_loop (length (hs_orders s)) k (\<lambda>_ r. do { r \<leftarrow> SkipUE r; r \<leftarrow> SkipUE r; SkipUE r }) q) rest" for k
      by (rule leads_for [OF q], rule leads_order, assumption) (rule orders(2))
    from this [of 0] this [of ?n] show ?thesis
      unfolding orders(1) by (cases "hs_all_orders s") (simp_all del: for_loop.simps)
  qed
  show ?thesis
    unfolding h265_picture_def
    apply (rule leads_then_SkipUE [OF r ok(1)])
    apply (erule leads_ReadUE [OF _ ok(2)])
    apply (simp only: case_prod_conv c3)
    apply (rule leads_bind [where rest = ?dims])
     apply (auto intro: leads_SkipBit_Suc leads_Some split: if_splits)[1]
    apply (erule leads_then_SkipUE [OF _ ok(3)], erule leads_then_SkipUE [OF _ ok(4)])
    apply (erule leads_then_optional)
     apply (erule leads_window, use window in simp)
    apply (erule leads_then_SkipUE [OF _ ok(5)], erule leads_then_SkipUE [OF _ ok(6)])
    apply (erule leads_then_SkipUE [OF _ ok(7)])
    apply (erule leads_ReadBit)
    apply (simp only: case_prod_conv Let_def)
    apply (drule loop)
    apply (simp split: if_splits)
    done
qed

section \<open>Coding tools\<close>

lemma leads_h265_list:
  assumes "reads r (h265_list_bits sizeId x @ rest)" and "h265_list_ok sizeId x"
  shows "leads (do {
       (pred_mode_flag, r) \<leftarrow> ReadBit r;
       if pred_mode_flag = 0 then SkipUE r
       else do {
         let coefNum = min 64 (2 ^ (4 + 2 * sizeId));
         r \<leftarrow> (if sizeId > 1 then SkipSE r else Some r);
         for_loop coefNum 0 (\<lambda>_. SkipSE) r
       }
     }) rest"
proof (cases x)
  case (PredictedFrom d)
  then have "reads r (False # ue_bits d @ rest)" and "ue_ok d" using assms by simp_all
  then show ?thesis by (intro leads_ReadBit [where b = False]) (auto intro: leads_SkipUE)
next
  case (Coded dc ks)
  then have r: "reads r (True # (if sizeId > 1 then ue_bits (se_code dc) else []) @ se_list_bits ks @ rest)"
    and ok: "se_ok dc" "list_all se_ok ks" and len: "min 64 (2 ^ (4 + 2 * sizeId)) = length ks"
    using assms by auto
  have "leads (do { r \<leftarrow> (if sizeId > 1 then SkipSE q else Some q); for_loop (length ks) 0 (\<lambda>_. SkipSE) r }) rest"
    if "reads q ((if sizeId > 1 then ue_bits (se_code dc) else []) @ se_list_bits ks @ rest)" for q
    by (rule leads_bind [where rest = "se_list_bits ks @ rest"])
      (use that ok in \<open>auto intro: leads_SkipSE leads_for_SE leads_Some split: if_splits\<close>)
  then show ?thesis unfolding len Let_def by (intro leads_ReadBit [OF r]) simp
qed

lemma leads_h265_scaling:
  assumes "reads r (h265_scaling_bits m @ rest)" and "h265_scaling_ok m"
  shows "leads (h265_scaling_list_data r) rest"
proof -
  have four: "length m = 4" and len: "\<And>i. i < 4 \<Longrightarrow> length (m ! i) = (if i = 3 then 2 else 6)"
    and ok: "\<And>i. i < 4 \<Longrightarrow> list_all (h265_list_ok i) (m ! i)"
  proof -
    have l: "map length m = [6, 6, 6, 2]" using assms(2) by (simp add: h265_scaling_ok_def)
    from arg_cong [OF l, of length] show four: "length m = 4" by simp
    fix i :: nat
    assume i: "i < 4"
    have "length (m ! i) = map length m ! i" using i four by simp
    then show "length (m ! i) = (if i = 3 then 2 else 6)"
      unfolding l using i by (auto simp: less_Suc_eq numeral_eq_Suc)
    show "list_all (h265_list_ok i) (m ! i)" using assms(2) i four by (simp add: h265_scaling_ok_def)
  qed
  have e: "length (enumerate 0 m) = 4" using four by simp
  show ?thesis
    unfolding h265_scaling_list_data_def
  proof (subst e [symmetric], rule leads_for)
    show "reads r (concat (map (\<lambda>(sizeId, ls). concat (map (h265_list_bits sizeId) ls)) (enumerate 0 m)) @ rest)"
      using assms(1) by (simp add: h265_scaling_bits_def)
    fix i r rest
    assume i: "i < length (enumerate 0 m)"
      and "reads r ((case enumerate 0 m ! i of (sizeId, ls) \<Rightarrow> concat (map (h265_list_bits sizeId) ls)) @ rest)"
    then have r: "reads r (concat (map (h265_list_bits i) (m ! i)) @ rest)" by (simp add: nth_enumerate_eq)
    have i4: "i < 4" using i four by simp
    show "leads (for_loop (if 0 + i = 3 then 2 else 6) 0 (\<lambda>_ r. do {
         (pred_mode_flag, r) \<leftarrow> ReadBit r;
         if pred_mode_flag = 0 then SkipUE r
         else do {
           let coefNum = min 64 (2 ^ (4 + 2 * (0 + i)));
           r \<leftarrow> (if 0 + i > 1 then SkipSE r else Some r);
           for_loop coefNum 0 (\<lambda>_. SkipSE) r
         }
       }) r) rest"
      unfolding add_0 len [OF i4, symmetric]
      by (rule leads_for [OF r], rule leads_h265_list, assumption) (use ok [OF i4] in \<open>simp add: list_all_length\<close>)
  qed
qed

lemma leads_pcm:
  assumes "reads r (pcm_bits x @ rest)" and "case x of (_, _, a, b, _) \<Rightarrow> ue_ok a \<and> ue_ok b"
  shows "leads (do {
       r \<leftarrow> SkipBits r 4;
       r \<leftarrow> SkipBits r 4;
       r \<leftarrow> SkipUE r;
       r \<leftarrow> SkipUE r;
       SkipBits r 1
     }) rest"
proof -
  obtain l c a b f where x: "x = (l, c, a, b, f)" by (cases x)
  have r: "reads r (to_bits 4 l @ to_bits 4 c @ ue_bits a @ ue_bits b @ f # rest)" and ok: "ue_ok a" "ue_ok b"
    using assms x by (simp_all add: pcm_bits_def)
  show ?thesis
    by (rule leads_then_SkipBits [OF r], erule leads_then_SkipBits, erule leads_then_SkipUE [OF _ ok(1)],
      erule leads_then_SkipUE [OF _ ok(2)], erule leads_SkipBit)
qed

lemma leads_h265_coding:
  assumes "reads r (h265_coding_bits s @ rest)" and "h265_coding_ok s"
  shows "leads (h265_coding r) rest"
proof -
  have r: "reads r (concat (map ue_bits (hs_blocks s)) @ option_bits (option_bits h265_scaling_bits) (hs_scaling s)
     @ hs_amp s # hs_sao s # option_bits pcm_bits (hs_pcm s) @ rest)"
    using assms(1) by (simp add: h265_coding_bits_def)
  have len: "length (hs_blocks s) = 6" and ok: "\<And>i. i < length (hs_blocks s) \<Longrightarrow> ue_ok (hs_blocks s ! i)"
    using assms(2) by (simp_all add: h265_coding_ok_def list_all_length)
  show ?thesis
    unfolding h265_coding_def
    apply (rule leads_bind)
     apply (rule leads_for [OF r, of _ 0, unfolded len], erule leads_SkipUE, use ok len in simp)
    apply (erule leads_then_optional)
     apply (erule leads_optional, erule leads_h265_scaling, use assms(2) in \<open>simp add: h265_coding_ok_def\<close>)
    apply (erule leads_then_SkipBit, erule leads_then_SkipBit)
    apply (erule leads_optional, erule leads_pcm, use assms(2) in \<open>simp add: h265_coding_ok_def\<close>)
    done
qed

section \<open>Reference pictures\<close>

lemma leads_ref_pics:
  assumes "reads r (concat (map ref_pic_bits ps) @ rest)" and "list_all (\<lambda>(d, u). ue_ok d) ps"
  shows "leads (for_loop (length ps) k (\<lambda>_ r. do { r \<leftarrow> SkipUE r; SkipBits r 1 }) r) rest"
proof (rule leads_for [OF assms(1)])
  fix i q rest
  assume i: "i < length ps" and q: "reads q (ref_pic_bits (ps ! i) @ rest)"
  obtain d u where p: "ps ! i = (d, u)" by (cases "ps ! i")
  have r: "reads q (ue_bits d @ u # rest)" using q p by (simp add: ref_pic_bits_def)
  have "ue_ok d" using assms(2) i p by (auto simp: list_all_length)
  with r show "leads (do { r \<leftarrow> SkipUE q; SkipBits r 1 }) rest"
    by (rule leads_then_SkipUE) (erule leads_SkipBit)
qed

lemma leads_ref_set:
  assumes "reads r (ref_set_bits (i, x) @ rest)" and "ref_set_ok x"
  shows "leads (h265_short_term_ref_pic_set n i r) rest"
proof -
  obtain neg pos where x: "x = (neg, pos)" by (cases x)
  let ?pics = "concat (map ref_pic_bits neg) @ concat (map ref_pic_bits pos) @ rest"
  let ?lens = "ue_bits (length neg) @ ue_bits (length pos) @ ?pics"
  have ok: "ue_ok (length neg)" "ue_ok (length pos)" "list_all (\<lambda>(d, u). ue_ok d) neg" "list_all (\<lambda>(d, u). ue_ok d) pos"
    using assms(2) x by (simp_all add: ref_set_ok_def)
  have u: "unat (of_nat (length neg) :: u32) = length neg" "unat (of_nat (length pos) :: u32) = length pos"
    using ok(1,2) by (simp_all add: ue_ok_def)
  have r: "reads r ((if i \<noteq> 0 then [False] else []) @ ?lens)" using assms(1) x by (simp add: ref_set_bits_def)
  have flag: "\<exists>r'. (if i \<noteq> 0 then ReadBit r else Some (0, r)) = Some (0, r') \<and> reads r' ?lens"
  proof (cases "i = 0")
    case True
    then show ?thesis using r by simp
  next
    case False
    then have "reads r (False # ?lens)" using r by simp
    from ReadBit_reads [OF this] show ?thesis using False by auto
  qed
  have sets: "leads (do {
       (num_negative_pics, r) \<leftarrow> ReadUE q;
       (num_positive_pics, r) \<leftarrow> ReadUE r;
       r \<leftarrow> for_loop (unat num_negative_pics) 0 (\<lambda>_ r. do { r \<leftarrow> SkipUE r; SkipBits r 1 }) r;
       for_loop (unat num_positive_pics) 0 (\<lambda>_ r. do { r \<leftarrow> SkipUE r; SkipBits r 1 }) r
     }) rest" if "reads q ?lens" for q
    apply (rule leads_ReadUE [OF that ok(1)], simp only: case_prod_conv)
    apply (erule leads_ReadUE [OF _ ok(2)], simp only: case_prod_conv u)
    apply (rule leads_bind, erule leads_ref_pics [OF _ ok(3)])
    apply (erule leads_ref_pics [OF _ ok(4)])
    done
  show ?thesis using flag sets unfolding h265_short_term_ref_pic_set_def by auto
qed

lemma leads_h265_refs:
  assumes "reads r (h265_ref_bits s @ rest)" and "ue_ok (length (hs_ref_sets s))"
    and "list_all ref_set_ok (hs_ref_sets s)"
  shows "leads (h265_ref_pics r) rest"
proof -
  let ?tail = "False # hs_mvp s # hs_strong s # rest"
  let ?sets = "concat (map ref_set_bits (enumerate 0 (hs_ref_sets s))) @ ?tail"
  have r: "reads r (ue_bits (length (hs_ref_sets s)) @ ?sets)" using assms(1) by (simp add: h265_ref_bits_def)
  have u: "unat (of_nat (length (hs_ref_sets s)) :: u32) = length (hs_ref_sets s)"
    using assms(2) by (simp add: ue_ok_def)
  have loop: "leads (for_loop (length (hs_ref_sets s)) 0 (h265_short_term_ref_pic_set n) q) ?tail"
    if q: "reads q ?sets" for q n
  proof -
    have "leads (for_loop (length (enumerate 0 (hs_ref_sets s))) 0 (h265_short_term_ref_pic_set n) q) ?tail"
    proof (rule leads_for [OF q])
      fix i r rest
      assume i: "i < length (enumerate 0 (hs_ref_sets s))"
        and "reads r (ref_set_bits (enumerate 0 (hs_ref_sets s) ! i) @ rest)"
      then have "reads r (ref_set_bits (i, hs_ref_sets s ! i) @ rest)" by (simp add: nth_enumerate_eq)
      moreover have "ref_set_ok (hs_ref_sets s ! i)" using assms(3) i by (simp add: list_all_length)
      ultimately show "leads (h265_short_term_ref_pic_set n (0 + i) r) rest" by (simp add: leads_ref_set)
    qed
    then show ?thesis by simp
  qed
  show ?thesis
    unfolding h265_ref_pics_def
    apply (rule leads_ReadUE [OF r assms(2)], simp only: case_prod_conv u)
    apply (rule leads_bind, erule loop)
    apply (erule leads_ReadBit, simp only: case_prod_conv of_bool_eq simp_thms if_False Option.bind.simps)
    apply (erule leads_then_SkipBit, erule leads_SkipBit)
    done
qed

section \<open>The frame rate\<close>

definition h265_fps_of :: "h265_sps \<Rightarrow> rat" where
  "h265_fps_of s = (case hs_vui s of None \<Rightarrow> DEFAULT_FPS
     | Some v \<Rightarrow> (case vu_timing (hv_common v) of None \<Rightarrow> DEFAULT_FPS
        | Some (num_units, time_scale) \<Rightarrow>
            if num_units = 0 \<or> time_scale = 0 then DEFAULT_FPS
            else of_nat time_scale / of_nat num_units))"

definition h265_timing :: "reader \<Rightarrow> rat option" where
  "h265_timing r = do {
     (present, r) \<leftarrow> ReadBit r;
     if present = 0 then Some DEFAULT_FPS
     else do {
       (num_units, r) \<leftarrow> ReadBits r 32;
       (time_scale, r) \<leftarrow> ReadBits r 32;
       if num_units = 0 \<or> time_scale = 0 then Some DEFAULT_FPS
       else Some (of_nat (unat time_scale) / of_nat (unat num_units))
     }
   }"

lemma h265_timing_value:
  assumes "reads r (timing_bits t @ rest)"
    and "case t of None \<Rightarrow> True | Some (n, s) \<Rightarrow> n < 2 ^ 32 \<and> s < 2 ^ 32"
  shows "h265_timing r = Some (case t of None \<Rightarrow> DEFAULT_FPS | Some (n, s) \<Rightarrow>
    if n = 0 \<or> s = 0 then DEFAULT_FPS else of_nat s / of_nat n)"
proof (cases t)
  case None
  then have "reads r (False # rest)" using assms(1) by (simp add: timing_bits_def)
  from ReadBit_reads [OF this] None show ?thesis by (auto simp: h265_timing_def)
next
  case (Some ns)
  obtain n s where ns: "ns = (n, s)" by (cases ns)
  have r: "reads r (True # to_bits 32 n @ to_bits 32 s @ rest)" and lt: "n < 2 ^ 32" "s < 2 ^ 32"
    using assms Some ns by (simp_all add: timing_bits_def)
  obtain r1 where r1: "ReadBit r = Some (1, r1)" "reads r1 (to_bits 32 n @ to_bits 32 s @ rest)"
    using ReadBit_reads [OF r] by auto
  obtain r2 where r2: "ReadBits r1 32 = Some (of_nat n, r2)" "reads r2 (to_bits 32 s @ rest)"
    using ReadBits_reads [OF r1(2) lt(1)] by blast
  obtain r3 where r3: "ReadBits r2 32 = Some (of_nat s, r3)" using ReadBits_reads [OF r2(2) lt(2)] by blast
  have z: "(of_nat n = (0 :: u32)) \<longleftrightarrow> n = 0" "(of_nat s = (0 :: u32)) \<longleftrightarrow> s = 0"
    and u: "unat (of_nat n :: u32) = n" "unat (of_nat s :: u32) = s"
    using lt by (simp_all add: word_unat_eq_iff)
  show ?thesis unfolding h265_timing_def using r1(1) r2(1) r3 z u Some ns by simp
qed

lemma h265_vui_value:
  assumes "reads r (option_bits h265_vui_bits (hs_vui s) @ rest)"
    and "case hs_vui s of None \<Rightarrow> True | Some v \<Rightarrow> vui_ok (hv_common v) \<and> window_ok (hv_window v)"
  shows "h265_vui r = Some (h265_fps_of s)"
proof (cases "hs_vui s")
  case None
  then have "reads r (False # rest)" using assms(1) by simp
  from ReadBit_reads [OF this] None show ?thesis by (auto simp: h265_fps_of_def h265_vui_def)
next
  case (Some v)
  obtain a b c where flags: "hv_flags v = (a, b, c)" by (cases "hv_flags v")
  let ?window = "option_bits crop_bits (hv_window v) @ timing_bits (vu_timing (hv_common v)) @ rest"
  have r: "reads r (True # vui_prefix_bits (hv_common v) @ a # b # c # ?window)"
    and ok: "vui_ok (hv_common v)" and window: "window_ok (hv_window v)"
    using assms Some flags by (simp_all add: h265_vui_bits_def)
  obtain r1 where r1: "ReadBit r = Some (1, r1)" "reads r1 (vui_prefix_bits (hv_common v) @ a # b # c # ?window)"
    using ReadBit_reads [OF r] by auto
  have t: "case vu_timing (hv_common v) of None \<Rightarrow> True | Some (n, s) \<Rightarrow> n < 2 ^ 32 \<and> s < 2 ^ 32"
    using ok by (simp add: vui_ok_def)
  have last: "(do {
       (flag, r) \<leftarrow> ReadBit q;
       r \<leftarrow> (if flag \<noteq> 0 then do { r \<leftarrow> SkipUE r; r \<leftarrow> SkipUE r; r \<leftarrow> SkipUE r; SkipUE r } else Some r);
       h265_timing r
     }) = Some (h265_fps_of s)" if q: "reads q ?window" for q
  proof -
    have "leads (ReadBit q \<bind> (\<lambda>(flag, r). if flag \<noteq> 0 then
        do { r \<leftarrow> SkipUE r; r \<leftarrow> SkipUE r; r \<leftarrow> SkipUE r; SkipUE r } else Some r))
      (timing_bits (vu_timing (hv_common v)) @ rest)"
      by (rule leads_optional [OF q], erule leads_window) (use window in simp)
    then have "(ReadBit q \<bind> (\<lambda>(flag, r). if flag \<noteq> 0 then
        do { r \<leftarrow> SkipUE r; r \<leftarrow> SkipUE r; r \<leftarrow> SkipUE r; SkipUE r } else Some r)) \<bind> h265_timing
      = Some (h265_fps_of s)"
      by (rule leads_bind_eq) (simp add: h265_timing_value [OF _ t] h265_fps_of_def Some)
    then show ?thesis by (cases "ReadBit q") (auto split: prod.splits)
  qed
  have "vui_prefix r1 \<bind> (\<lambda>r. SkipBits r 1 \<bind> (\<lambda>r. SkipBits r 1 \<bind> (\<lambda>r. SkipBits r 1 \<bind> (\<lambda>r. do {
       (flag, r) \<leftarrow> ReadBit r;
       r \<leftarrow> (if flag \<noteq> 0 then do { r \<leftarrow> SkipUE r; r \<leftarrow> SkipUE r; r \<leftarrow> SkipUE r; SkipUE r } else Some r);
       h265_timing r
     })))) = Some (h265_fps_of s)"
    by (rule leads_bind_eq [OF leads_vui_prefix [OF r1(2) ok]], rule leads_bind_eq, erule leads_SkipBit,
      rule leads_bind_eq, erule leads_SkipBit, rule leads_bind_eq, erule leads_SkipBit, erule last)
  then show ?thesis unfolding h265_vui_def h265_timing_def r1(1) by simp
qed

text \<open>C16: the H.265 frame rate: for every parameter set that follows the syntax of the standard, has no
  long-term pictures and codes its short-term reference picture sets without prediction from another
  set (the code skips both of these wrongly, \<open>long_term_frame_rate\<close> below and sps_parser.cpp:364), with
  sub-layers, scaling lists, any number of short-term sets and any values in range, behind a start code and protected by
  emulation prevention, the parser returns \<open>time_scale / num_units_in_tick\<close>, and the default 25
  exactly if the timing information is absent or one of the two is zero.\<close>

theorem ParseH265Fps_correct:
  assumes "h265_sps_ok s" and "all_bits rbsp = h265_sps_bits s @ rest"
    and "code = [0, 0, 1] \<or> code = [0, 0, 0, 1]"
  shows "ParseH265Fps (code @ insert_emulation_prevention 0 (h1 # h2 # rbsp)) = Some (h265_fps_of s)"
proof -
  let ?dat = "code @ insert_emulation_prevention 0 (h1 # h2 # rbsp)"
  have ptl: "length (hs_general s) = 96" "length (hs_layers s) \<le> 7" "list_all layer_ok (hs_layers s)"
    and picture: "h265_picture_ok s" and coding: "h265_coding_ok s"
    and refs: "ue_ok (length (hs_ref_sets s))" "list_all ref_set_ok (hs_ref_sets s)"
    and vui: "case hs_vui s of None \<Rightarrow> True | Some v \<Rightarrow> vui_ok (hv_common v) \<and> window_ok (hv_window v)"
    using assms(1) by (simp_all add: h265_sps_ok_def)
  have "104 \<le> length (all_bits rbsp)" unfolding assms(2) using ptl(1) by (simp add: h265_sps_bits_def ptl_bits_def)
  then have len: "13 \<le> length rbsp" by simp
  have l: "15 \<le> length (insert_emulation_prevention 0 (h1 # h2 # rbsp))"
    using length_insert_emulation [of "h1 # h2 # rbsp" 0] len by simp
  have off: "sps_offset ?dat = length code" using assms(3) l by (auto simp: sps_offset_def)
  have rm: "RemoveEmulationPrevention (drop (length code) ?dat) = h1 # h2 # rbsp"
    unfolding RemoveEmulationPrevention_eq by (simp add: remove_insert)
  have c: "\<not> (length code = 0 \<or> length code + 2 \<ge> length ?dat)"
    using assms(3) l unfolding length_append by (auto simp del: insert_emulation_prevention.simps)
  let ?vui = "option_bits h265_vui_bits (hs_vui s) @ rest"
  have r: "reads (BitstreamReader rbsp) (to_bits 4 (hs_vps s) @ to_bits 3 (length (hs_layers s)) @ hs_nesting s
     # ptl_bits s @ h265_picture_bits s @ h265_coding_bits s @ h265_ref_bits s @ ?vui)"
    using assms(2) len by (auto simp: reads_def reader_ok_def BitstreamReader_def bits_of_def h265_sps_bits_def)
  have body: "(if length (h1 # h2 # rbsp) < 15 then x else y) = y" for x y :: "rat option"
    using len by simp
  have tail: "drop 2 (h1 # h2 # rbsp) = rbsp" by simp
  have layers: "length (hs_layers s) < 2 ^ 3" "unat (of_nat (length (hs_layers s)) :: u32) = length (hs_layers s)"
    using ptl(2) by simp_all
  show ?thesis
    unfolding ParseH265Fps_def Let_def off rm body tail if_not_P [OF c]
    apply (rule leads_bind_eq [OF leads_SkipBits [OF r]], simp)
    apply (erule ReadBits_step [OF _ layers(1)], simp only: case_prod_conv layers(2))
    apply (rule leads_bind_eq, erule leads_SkipBit)
    apply (rule leads_bind_eq, erule leads_ptl [OF _ ptl])
    apply (rule leads_bind_eq, erule leads_h265_picture [OF _ picture])
    apply (rule leads_bind_eq, erule leads_h265_coding [OF _ coding])
    apply (rule leads_bind_eq, erule leads_h265_refs [OF _ refs])
    apply (erule h265_vui_value [OF _ vui])
    done
qed

section \<open>Witness\<close>

text \<open>A parameter set of 64x48 at 25 fps with two reference picture sets.\<close>

definition sample_hevc :: h265_sps where
  "sample_hevc = \<lparr>hs_vps = 0, hs_nesting = True,
     hs_general = all_bits [1, 0x60, 0, 0, 0, 0x90, 0, 0, 0, 0, 0, 93], hs_layers = [],
     hs_id = 0, hs_chroma = 1, hs_separate = False, hs_width = 64, hs_height = 48, hs_window = None,
     hs_luma_depth = 0, hs_chroma_depth = 0, hs_log2_poc = 4, hs_all_orders = True, hs_orders = [(4, 2, 0)],
     hs_blocks = [0, 3, 0, 3, 0, 0], hs_scaling = Some None, hs_amp = True, hs_sao = True, hs_pcm = None,
     hs_ref_sets = [([(0, True)], []), ([(0, True), (1, True)], [])], hs_mvp = True, hs_strong = True,
     hs_vui = Some \<lparr>hv_common = \<lparr>vu_aspect = None, vu_overscan = None, vu_signal = None, vu_chroma_loc = None,
       vu_timing = Some (1, 25)\<rparr>, hv_flags = (False, False, False), hv_window = None\<rparr>\<rparr>"

definition sample_hevc_rbsp :: "byte list" where
  "sample_hevc_rbsp = [1, 1, 96, 0, 0, 0, 144, 0, 0, 0, 0, 0, 93, 160, 32, 131, 22, 89, 94, 73, 59, 53, 207, 171, 128, 64, 0, 0, 0, 64, 0, 0, 6, 96]"

theorem ParseH265Fps_correct_witness:
  "ParseH265Fps ([0, 0, 0, 1] @ insert_emulation_prevention 0 (0x42 # 0x01 # sample_hevc_rbsp)) = Some 25
    \<and> length (insert_emulation_prevention 0 (0x42 # 0x01 # sample_hevc_rbsp)) > length sample_hevc_rbsp + 2"
proof -
  have ok: "h265_sps_ok sample_hevc"
    by (simp add: h265_sps_ok_def h265_picture_ok_def h265_coding_ok_def sample_hevc_def ue_ok_def vui_ok_def
        window_ok_def ref_set_ok_def)
  have num: "to_bits 32 1 = replicate 31 False @ [True]"
    "to_bits 32 25 = replicate 27 False @ [True, True, False, False, True]" by code_simp+
  have "all_bits sample_hevc_rbsp = (to_bits 4 0 @ to_bits 3 0 @ [True] @ ptl_bits sample_hevc
      @ h265_picture_bits sample_hevc @ h265_coding_bits sample_hevc @ h265_ref_bits sample_hevc
      @ True # [False, False, False, False, False, False, False, False] @ True # (replicate 31 False @ [True])
      @ (replicate 27 False @ [True, True, False, False, True])) @ [True, False, False, False, False, False]" by code_simp
  also have "\<dots> = h265_sps_bits sample_hevc @ [True, False, False, False, False, False]"
    by (simp add: h265_sps_bits_def h265_vui_bits_def sample_hevc_def vui_prefix_bits_def timing_bits_def num
        num(1) [unfolded One_nat_def])
  finally have bits: "all_bits sample_hevc_rbsp = h265_sps_bits sample_hevc @ [True, False, False, False, False, False]" .
  from ParseH265Fps_correct [OF ok bits, where code = "[0, 0, 0, 1]" and ?h1.0 = "0x42" and ?h2.0 = "0x01"]
  have "ParseH265Fps ([0, 0, 0, 1] @ insert_emulation_prevention 0 (0x42 # 0x01 # sample_hevc_rbsp)) = Some 25"
    by (simp add: h265_fps_of_def sample_hevc_def)
  moreover have "length (insert_emulation_prevention 0 (0x42 # 0x01 # sample_hevc_rbsp)) > length sample_hevc_rbsp + 2"
    by code_simp
  ultimately show ?thesis by blast
qed

section \<open>Long-term pictures\<close>

text \<open>The same set with one long-term picture, \<open>lt_ref_pic_poc_lsb_sps\<close> of \<open>log2_max_pic_order_cnt_lsb_minus4\<close> + 4 bits,
  at 50 fps: the code reads the element as an Exp-Golomb code and four bits more, loses its place and answers 25.\<close>

definition long_term_rbsp :: "byte list" where
  "long_term_rbsp = [1, 1, 96, 0, 0, 0, 144, 0, 0, 0, 0, 0, 93, 160, 32, 131, 22, 89, 94, 73, 59, 53, 207, 173, 0, 248, 4, 0, 0, 0, 4, 0, 0, 0, 202]"

lemma long_term_misread:
  "all_bits long_term_rbsp = to_bits 4 0 @ to_bits 3 0 @ [True] @ ptl_bits sample_hevc @ h265_picture_bits sample_hevc
      @ h265_coding_bits sample_hevc @ ue_bits 2 @ concat (map ref_set_bits (enumerate 0 (hs_ref_sets sample_hevc)))
      @ [True] @ ue_bits 1 @ to_bits (4 + hs_log2_poc sample_hevc) 1 @ [True] @ [True, True]
      @ True # replicate 8 False @ True # to_bits 32 1 @ to_bits 32 50 @ [True, False]"
  by code_simp

lemma long_term_frame_rate:
  "ParseH265Fps ([0, 0, 0, 1] @ insert_emulation_prevention 0 (0x42 # 0x01 # long_term_rbsp)) = Some 25"
  by code_simp

end
