(* ===== verification/TcpServer.thy ===== *)
theory TcpServer
  imports Prelude
begin

text \<open>
  The event loop of src/server/tcp_server.cpp. The callbacks are arguments of the operations, as
  they are members of the C++ object. What the operating system answers to a call (the results
  of \<open>accept\<close>, \<open>recv\<close>, \<open>epoll_wait\<close>) is an argument too, and what is asked of it is logged.
  A step yields \<open>None\<close> when a callback executes undefined behaviour or lets an exception escape.
\<close>

datatype sys_call = EpollAdd int | EpollDel int | CloseFd int

record tcp_server =
  serverFd :: int
  epollFd :: int
  timerFd :: int
  isRunning :: bool
  clientIps :: "int \<rightharpoonup> byte list"
  sys_log :: "sys_call list"

definition TcpServer :: tcp_server where
  "TcpServer = \<lparr>serverFd = - 1, epollFd = - 1, timerFd = - 1, isRunning = False,
     clientIps = Map.empty, sys_log = []\<rparr>"

section \<open>Starting and stopping\<close>

text \<open>What the calls of \<open>Start\<close> return: a descriptor or \<open>None\<close>, and success or failure.\<close>

record start_calls =
  sc_socket :: "int option"
  sc_setsockopt :: bool
  sc_nonblocking :: bool
  sc_bind :: bool
  sc_listen :: bool
  sc_epoll_create :: "int option"
  sc_epoll_add :: bool

definition close_fd :: "int \<Rightarrow> 's tcp_server_scheme \<Rightarrow> 's tcp_server_scheme" where
  "close_fd fd st = st\<lparr>sys_log := sys_log st @ [CloseFd fd]\<rparr>"

definition TcpStart :: "start_calls \<Rightarrow> 's tcp_server_scheme \<Rightarrow> bool \<times> 's tcp_server_scheme" where
  "TcpStart c st =
    (case sc_socket c of None \<Rightarrow> (False, st\<lparr>serverFd := - 1\<rparr>)
     | Some sfd \<Rightarrow>
       let st1 = st\<lparr>serverFd := sfd\<rparr> in
       if \<not> sc_setsockopt c then (False, close_fd sfd st1)
       else if \<not> sc_nonblocking c then (False, close_fd sfd st1)
       else if \<not> sc_bind c then (False, close_fd sfd st1)
       else if \<not> sc_listen c then (False, close_fd sfd st1)
       else (case sc_epoll_create c of None \<Rightarrow> (False, close_fd sfd (st1\<lparr>epollFd := - 1\<rparr>))
         | Some efd \<Rightarrow>
           let st2 = st1\<lparr>epollFd := efd\<rparr> in
           if \<not> sc_epoll_add c then (False, close_fd sfd (close_fd efd st2))
           else (True, st2\<lparr>isRunning := True, sys_log := sys_log st2 @ [EpollAdd sfd]\<rparr>)))"

definition TcpStop :: "'s tcp_server_scheme \<Rightarrow> 's tcp_server_scheme" where
  "TcpStop st =
    (let st1 = st\<lparr>isRunning := False\<rparr>;
         st2 = (if epollFd st1 \<ge> 0 then (close_fd (epollFd st1) st1)\<lparr>epollFd := - 1\<rparr> else st1)
     in if serverFd st2 \<ge> 0 then (close_fd (serverFd st2) st2)\<lparr>serverFd := - 1\<rparr> else st2)"

definition TcpRegisterTimer :: "bool \<Rightarrow> int \<Rightarrow> 's tcp_server_scheme \<Rightarrow> 's tcp_server_scheme" where
  "TcpRegisterTimer epoll_ok tfd st =
    (let st1 = st\<lparr>timerFd := tfd\<rparr>
     in if epoll_ok then st1\<lparr>sys_log := sys_log st1 @ [EpollAdd tfd]\<rparr> else st1)"

section \<open>Sending\<close>

text \<open>
  A result of \<open>send\<close>, or of \<open>mbedtls_ssl_write\<close>: a number of bytes taken, \<open>EAGAIN\<close> (for mbedTLS
  \<open>WANT_READ\<close> or \<open>WANT_WRITE\<close>), or an error. Past the end of the list of results the call keeps
  asking to be repeated: the loop, which repeats it at once, does not end, which is \<open>None\<close>. The
  bytes that were taken are returned with the result.
\<close>

datatype send_result = Sent nat | SendAgain | SendFailed

fun send_loop :: "byte list \<Rightarrow> send_result list \<Rightarrow> nat \<Rightarrow> byte list \<Rightarrow> (int \<times> byte list) option" where
  "send_loop dat results totalSent taken =
    (if totalSent < length dat then
       (case results of
          [] \<Rightarrow> None
        | SendAgain # rest \<Rightarrow> send_loop dat rest totalSent taken
        | SendFailed # rest \<Rightarrow> Some (- 1, taken)
        | Sent n # rest \<Rightarrow> send_loop dat rest (totalSent + n) (taken @ take n (drop totalSent dat)))
     else Some (sint (of_nat totalSent :: u32), taken))"

declare send_loop.simps [simp del]

definition TcpSendData :: "byte list \<Rightarrow> send_result list \<Rightarrow> (int \<times> byte list) option" where
  "TcpSendData dat results = send_loop dat results 0 []"

text \<open>A call never takes more than it is offered.\<close>

fun takes_at_most :: "nat \<Rightarrow> send_result list \<Rightarrow> bool" where
  "takes_at_most room [] \<longleftrightarrow> True"
| "takes_at_most room (Sent n # rest) \<longleftrightarrow> n \<le> room \<and> takes_at_most (room - n) rest"
| "takes_at_most room (r # rest) \<longleftrightarrow> takes_at_most room rest"

text \<open>What a sequence of results is good for: enough bytes are taken, or an error ends it.\<close>

fun ends_sending :: "nat \<Rightarrow> send_result list \<Rightarrow> bool" where
  "ends_sending 0 results \<longleftrightarrow> True"
| "ends_sending (Suc m) [] \<longleftrightarrow> False"
| "ends_sending (Suc m) (Sent n # rest) \<longleftrightarrow> ends_sending (Suc m - n) rest"
| "ends_sending (Suc m) (SendAgain # rest) \<longleftrightarrow> ends_sending (Suc m) rest"
| "ends_sending (Suc m) (SendFailed # rest) \<longleftrightarrow> True"

lemma send_loop_sent:
  assumes "takes_at_most (length dat - t) results" "t \<le> length dat" "length dat < 2 ^ 31"
    and "send_loop dat results t (take t dat) = Some (n, taken)"
  shows "(n = int (length dat) \<and> taken = dat) \<or> (n = - 1 \<and> (\<exists>k < length dat. taken = take k dat))"
  using assms(1,2,4)
proof (induction results arbitrary: t)
  case Nil
  then show ?case using assms(3)
    by (auto simp: send_loop.simps signed_of_nat signed_take_bit_int_eq_self split: if_splits)
next
  case (Cons r rest)
  show ?case
  proof (cases "t < length dat")
    case False
    with Cons.prems assms(3) show ?thesis
      by (auto simp: send_loop.simps signed_of_nat signed_take_bit_int_eq_self)
  next
    case True
    show ?thesis
    proof (cases r)
      case (Sent k)
      have "send_loop dat rest (t + k) (take (t + k) dat) = Some (n, taken)"
        using Cons.prems(3) True Sent by (simp add: send_loop.simps [of dat "_ # _"] take_add)
      moreover have "takes_at_most (length dat - (t + k)) rest" "t + k \<le> length dat"
        using Cons.prems(1,2) Sent by auto
      ultimately show ?thesis by (intro Cons.IH)
    next
      case SendAgain
      with Cons True show ?thesis by (simp add: send_loop.simps [of dat "_ # _"])
    next
      case SendFailed
      with Cons.prems True show ?thesis by (auto simp: send_loop.simps)
    qed
  qed
qed

lemma send_loop_ends:
  "send_loop dat results t taken \<noteq> None \<longleftrightarrow> ends_sending (length dat - t) results"
proof (induction results arbitrary: t taken)
  case Nil
  then show ?case by (cases "length dat - t") (auto simp: send_loop.simps)
next
  case (Cons r rest)
  show ?case
  proof (cases "length dat - t")
    case (Suc m)
    then have "Suc m - n = length dat - (t + n)" "t < length dat" for n by simp_all
    with Suc Cons.IH show ?thesis
      by (cases r) (simp_all add: send_loop.simps [of dat "_ # _"])
  qed (simp add: send_loop.simps)
qed

section \<open>The event loop\<close>

text \<open>A result of \<open>accept\<close>: the descriptor and address, and whether \<open>fcntl\<close> and \<open>epoll_ctl\<close> succeed.\<close>

datatype accept_result = Accepted int "byte list" bool bool

text \<open>
  A result of \<open>recv\<close>: data, end of stream or an error; the end of the list of results is
  \<open>EAGAIN\<close>. \<open>'x\<close> is what the layer above is told by its own library while it handles the data.
\<close>

datatype 'x recv_result = RecvData "byte list" 'x | RecvClosed | RecvError

text \<open>
  A ready descriptor: whether \<open>EPOLLERR\<close> or \<open>EPOLLHUP\<close> and \<open>EPOLLIN\<close> are set, and what \<open>accept\<close>
  or \<open>recv\<close> will return on it.
\<close>

record 'x ready_event =
  ev_fd :: int
  ev_err :: bool
  ev_in :: bool
  ev_accepts :: "accept_result list"
  ev_recvs :: "'x recv_result list"

definition RemoveClient ::
  "(int \<Rightarrow> 's tcp_server_scheme \<Rightarrow> 's tcp_server_scheme) \<Rightarrow> int
    \<Rightarrow> 's tcp_server_scheme \<Rightarrow> 's tcp_server_scheme" where
  "RemoveClient onDisconnect fd st =
    (let st1 = st\<lparr>sys_log := sys_log st @ [EpollDel fd]\<rparr>;
         st2 = onDisconnect fd st1
     in st2\<lparr>clientIps := (clientIps st2)(fd := None), sys_log := sys_log st2 @ [CloseFd fd]\<rparr>)"

definition TcpCloseConnection ::
  "(int \<Rightarrow> 's tcp_server_scheme \<Rightarrow> 's tcp_server_scheme) \<Rightarrow> int
    \<Rightarrow> 's tcp_server_scheme \<Rightarrow> 's tcp_server_scheme" where
  "TcpCloseConnection onDisconnect fd st = RemoveClient onDisconnect fd st"

fun AcceptConnection ::
  "(int \<Rightarrow> byte list \<Rightarrow> 's tcp_server_scheme \<Rightarrow> 's tcp_server_scheme option)
    \<Rightarrow> accept_result list \<Rightarrow> 's tcp_server_scheme \<Rightarrow> 's tcp_server_scheme option" where
  "AcceptConnection onConnect [] st = Some st"
| "AcceptConnection onConnect (Accepted fd ip nonblocking epoll_ok # rest) st =
    (if \<not> nonblocking then
       AcceptConnection onConnect rest (st\<lparr>sys_log := sys_log st @ [CloseFd fd]\<rparr>)
     else if \<not> epoll_ok then
       AcceptConnection onConnect rest (st\<lparr>sys_log := sys_log st @ [CloseFd fd]\<rparr>)
     else do {
       st' \<leftarrow> onConnect fd ip (st\<lparr>sys_log := sys_log st @ [EpollAdd fd],
                                clientIps := (clientIps st)(fd \<mapsto> ip)\<rparr>);
       AcceptConnection onConnect rest st'
     })"

fun HandleClientData ::
  "(int \<Rightarrow> byte list \<Rightarrow> 'x \<Rightarrow> 's tcp_server_scheme \<Rightarrow> 's tcp_server_scheme option)
    \<Rightarrow> (int \<Rightarrow> 's tcp_server_scheme \<Rightarrow> 's tcp_server_scheme) \<Rightarrow> int
    \<Rightarrow> 'x recv_result list \<Rightarrow> 's tcp_server_scheme \<Rightarrow> 's tcp_server_scheme option" where
  "HandleClientData onData onDisconnect fd [] st = Some st"
| "HandleClientData onData onDisconnect fd (RecvError # rest) st = Some (RemoveClient onDisconnect fd st)"
| "HandleClientData onData onDisconnect fd (RecvClosed # rest) st = Some (RemoveClient onDisconnect fd st)"
| "HandleClientData onData onDisconnect fd (RecvData bytes x # rest) st = do {
     st' \<leftarrow> onData fd bytes x st;
     HandleClientData onData onDisconnect fd rest st'
   }"

text \<open>One event, and the events \<open>epoll_wait\<close> reports, \<open>None\<close> when it fails.\<close>

definition HandleEvent ::
  "(int \<Rightarrow> byte list \<Rightarrow> 's tcp_server_scheme \<Rightarrow> 's tcp_server_scheme option)
    \<Rightarrow> (int \<Rightarrow> byte list \<Rightarrow> 'x \<Rightarrow> 's tcp_server_scheme \<Rightarrow> 's tcp_server_scheme option)
    \<Rightarrow> (int \<Rightarrow> 's tcp_server_scheme \<Rightarrow> 's tcp_server_scheme)
    \<Rightarrow> ('s tcp_server_scheme \<Rightarrow> 's tcp_server_scheme option)
    \<Rightarrow> 'x ready_event \<Rightarrow> 's tcp_server_scheme \<Rightarrow> 's tcp_server_scheme option" where
  "HandleEvent onConnect onData onDisconnect timerCallback e st =
    (if ev_fd e = serverFd st then AcceptConnection onConnect (ev_accepts e) st
     else if ev_fd e = timerFd st then timerCallback st
     else if ev_err e then Some (RemoveClient onDisconnect (ev_fd e) st)
     else if ev_in e then HandleClientData onData onDisconnect (ev_fd e) (ev_recvs e) st
     else Some st)"

fun HandleEvents ::
  "(int \<Rightarrow> byte list \<Rightarrow> 's tcp_server_scheme \<Rightarrow> 's tcp_server_scheme option)
    \<Rightarrow> (int \<Rightarrow> byte list \<Rightarrow> 'x \<Rightarrow> 's tcp_server_scheme \<Rightarrow> 's tcp_server_scheme option)
    \<Rightarrow> (int \<Rightarrow> 's tcp_server_scheme \<Rightarrow> 's tcp_server_scheme)
    \<Rightarrow> ('s tcp_server_scheme \<Rightarrow> 's tcp_server_scheme option)
    \<Rightarrow> 'x ready_event list \<Rightarrow> 's tcp_server_scheme \<Rightarrow> 's tcp_server_scheme option" where
  "HandleEvents onConnect onData onDisconnect timerCallback [] st = Some st"
| "HandleEvents onConnect onData onDisconnect timerCallback (e # es) st = do {
     st' \<leftarrow> HandleEvent onConnect onData onDisconnect timerCallback e st;
     HandleEvents onConnect onData onDisconnect timerCallback es st'
   }"

definition ProcessEvents ::
  "(int \<Rightarrow> byte list \<Rightarrow> 's tcp_server_scheme \<Rightarrow> 's tcp_server_scheme option)
    \<Rightarrow> (int \<Rightarrow> byte list \<Rightarrow> 'x \<Rightarrow> 's tcp_server_scheme \<Rightarrow> 's tcp_server_scheme option)
    \<Rightarrow> (int \<Rightarrow> 's tcp_server_scheme \<Rightarrow> 's tcp_server_scheme)
    \<Rightarrow> ('s tcp_server_scheme \<Rightarrow> 's tcp_server_scheme option)
    \<Rightarrow> 'x ready_event list option \<Rightarrow> 's tcp_server_scheme \<Rightarrow> 's tcp_server_scheme option" where
  "ProcessEvents onConnect onData onDisconnect timerCallback ready st =
    (case ready of None \<Rightarrow> Some st
     | Some es \<Rightarrow> HandleEvents onConnect onData onDisconnect timerCallback es st)"

section \<open>An invariant through the event loop\<close>

text \<open>
  What the loop asks of its four callbacks to keep a property of the state; the loop's own
  bookkeeping must not matter to it.
\<close>

locale tcp_callbacks =
  fixes inv :: "'s tcp_server_scheme \<Rightarrow> bool"
    and onConnect :: "int \<Rightarrow> byte list \<Rightarrow> 's tcp_server_scheme \<Rightarrow> 's tcp_server_scheme option"
    and onData :: "int \<Rightarrow> byte list \<Rightarrow> 'x \<Rightarrow> 's tcp_server_scheme \<Rightarrow> 's tcp_server_scheme option"
    and onDisconnect :: "int \<Rightarrow> 's tcp_server_scheme \<Rightarrow> 's tcp_server_scheme"
    and timerCallback :: "'s tcp_server_scheme \<Rightarrow> 's tcp_server_scheme option"
  assumes bookkeeping: "inv st \<Longrightarrow> inv (st\<lparr>sys_log := l\<rparr>)" "inv st \<Longrightarrow> inv (st\<lparr>clientIps := m\<rparr>)"
    and connect_inv: "inv st \<Longrightarrow> onConnect fd ip st = Some st' \<Longrightarrow> inv st'"
    and data_inv: "inv st \<Longrightarrow> onData fd bytes x st = Some st' \<Longrightarrow> inv st'"
    and disconnect_inv: "inv st \<Longrightarrow> inv (onDisconnect fd st)"
    and timer_inv: "inv st \<Longrightarrow> timerCallback st = Some st' \<Longrightarrow> inv st'"
begin

lemma remove_inv: "inv st \<Longrightarrow> inv (RemoveClient onDisconnect fd st)"
  unfolding RemoveClient_def Let_def
  by (intro bookkeeping(1) bookkeeping(2) disconnect_inv)

lemma accept_inv: "inv st \<Longrightarrow> AcceptConnection onConnect accepts st = Some st' \<Longrightarrow> inv st'"
proof (induction accepts arbitrary: st)
  case (Cons a rest)
  obtain fd ip nonblocking epoll_ok where a: "a = Accepted fd ip nonblocking epoll_ok" by (cases a)
  show ?case
  proof (cases "nonblocking \<and> epoll_ok")
    case True
    with Cons.prems(2) a obtain st1 where st1: "AcceptConnection onConnect rest st1 = Some st'"
      "onConnect fd ip (st\<lparr>sys_log := sys_log st @ [EpollAdd fd], clientIps := (clientIps st)(fd \<mapsto> ip)\<rparr>) = Some st1"
      by (auto split: Option.bind_splits)
    have "inv (st\<lparr>sys_log := sys_log st @ [EpollAdd fd], clientIps := (clientIps st)(fd \<mapsto> ip)\<rparr>)"
      using bookkeeping Cons.prems(1) by blast
    from Cons.IH [OF connect_inv [OF this st1(2)] st1(1)] show ?thesis .
  next
    case False
    then have "AcceptConnection onConnect rest (st\<lparr>sys_log := sys_log st @ [CloseFd fd]\<rparr>) = Some st'"
      using Cons.prems(2) a by (simp split: if_splits)
    with Cons.IH bookkeeping(1) [OF Cons.prems(1)] show ?thesis by blast
  qed
qed simp

lemma client_data_inv:
  "inv st \<Longrightarrow> HandleClientData onData onDisconnect fd recvs st = Some st' \<Longrightarrow> inv st'"
proof (induction recvs arbitrary: st)
  case (Cons r recvs)
  show ?case
  proof (cases r)
    case (RecvData bytes x)
    with Cons.prems(2) obtain st1 where "onData fd bytes x st = Some st1"
      "HandleClientData onData onDisconnect fd recvs st1 = Some st'" by (auto split: Option.bind_splits)
    with Cons.IH data_inv [OF Cons.prems(1)] show ?thesis by blast
  qed (use Cons.prems remove_inv in auto)
qed simp

lemma event_inv:
  assumes "inv st" and "HandleEvent onConnect onData onDisconnect timerCallback e st = Some st'"
  shows "inv st'"
  using assms(2) accept_inv [OF assms(1)] timer_inv [OF assms(1)] remove_inv [OF assms(1)]
    client_data_inv [OF assms(1)] assms(1)
  unfolding HandleEvent_def by (auto split: if_splits)

lemma events_list_inv:
  "inv st \<Longrightarrow> HandleEvents onConnect onData onDisconnect timerCallback es st = Some st' \<Longrightarrow> inv st'"
proof (induction es arbitrary: st)
  case (Cons e es)
  from Cons.prems(2) obtain st1 where "HandleEvent onConnect onData onDisconnect timerCallback e st = Some st1"
    "HandleEvents onConnect onData onDisconnect timerCallback es st1 = Some st'"
    by (auto split: Option.bind_splits)
  with Cons.IH event_inv [OF Cons.prems(1)] show ?case by blast
qed simp

lemma events_inv:
  assumes "inv st" and "ProcessEvents onConnect onData onDisconnect timerCallback ready st = Some st'"
  shows "inv st'"
  using assms events_list_inv [OF assms(1)] by (cases ready) (simp_all add: ProcessEvents_def)

end

end
