(* ===== verification/TlsServer.thy ===== *)
theory TlsServer
  imports TcpServer
begin

text \<open>
  The TLS layer of src/server/tls_server.cpp on top of the event loop. The TLS protocol itself is
  mbedTLS: the result of each of its calls is an argument, together with the sizes for which it
  called back \<open>SslRecv\<close> meanwhile. The loop in \<open>OnTcpData\<close> keeps an iterator into
  \<open>tlsConnections_\<close> across the user's callback; when the callback erased the entry, the next
  call to \<open>mbedtls_ssl_read\<close> uses it after it was freed, which is \<open>None\<close>.
\<close>

record TlsConnection =
  handshakeComplete :: bool
  tls_fd :: int
  recvBuf :: "byte list"
  recvBufOffset :: nat

record tls_server = tcp_server +
  tlsConnections :: "int \<rightharpoonup> TlsConnection"
  ssl_sent :: "(int \<times> byte list) list"

section \<open>The receive buffer between TCP and mbedTLS\<close>

text \<open>\<open>None\<close> is \<open>MBEDTLS_ERR_SSL_WANT_READ\<close>.\<close>

definition SslRecv :: "nat \<Rightarrow> TlsConnection \<Rightarrow> byte list option \<times> TlsConnection" where
  "SslRecv len conn =
    (let available = length (recvBuf conn) - recvBufOffset conn in
     if available = 0 then (None, conn)
     else
       let toRead = (if len < available then len else available);
           bytes = take toRead (drop (recvBufOffset conn) (recvBuf conn));
           conn1 = conn\<lparr>recvBufOffset := recvBufOffset conn + toRead\<rparr>;
           conn2 = (if recvBufOffset conn1 = length (recvBuf conn1)
                    then conn1\<lparr>recvBuf := [], recvBufOffset := 0\<rparr> else conn1)
       in (Some bytes, conn2))"

text \<open>A sequence of callbacks, and all the bytes they return.\<close>

fun ssl_pull :: "nat list \<Rightarrow> TlsConnection \<Rightarrow> byte list \<times> TlsConnection" where
  "ssl_pull [] conn = ([], conn)"
| "ssl_pull (n # ns) conn =
    (case SslRecv n conn of (bytes, conn1) \<Rightarrow>
     case ssl_pull ns conn1 of (later, conn2) \<Rightarrow>
       ((case bytes of None \<Rightarrow> [] | Some bs \<Rightarrow> bs) @ later, conn2))"

datatype handshake_result = HandshakeWants | HandshakeFailed | HandshakeDone
datatype read_result = ReadWants | ReadPlain "byte list" | ReadClosed | ReadFailed

text \<open>What mbedTLS does while \<open>OnTcpData\<close> runs: one handshake call, or read calls.\<close>

record tls_calls =
  handshake_call :: "nat list \<times> handshake_result"
  read_calls :: "(nat list \<times> read_result) list"

section \<open>Connections\<close>

definition RemoveTlsConnection :: "int \<Rightarrow> 's tls_server_scheme \<Rightarrow> 's tls_server_scheme" where
  "RemoveTlsConnection fd st =
    (case tlsConnections st fd of None \<Rightarrow> st
     | Some _ \<Rightarrow> st\<lparr>tlsConnections := (tlsConnections st)(fd := None)\<rparr>)"

definition OnTcpDisconnect ::
  "(int \<Rightarrow> 's tls_server_scheme \<Rightarrow> 's tls_server_scheme) \<Rightarrow> int
    \<Rightarrow> 's tls_server_scheme \<Rightarrow> 's tls_server_scheme" where
  "OnTcpDisconnect userOnDisconnect fd st =
    (let wasConnected = (case tlsConnections st fd of None \<Rightarrow> False | Some c \<Rightarrow> handshakeComplete c);
         st1 = RemoveTlsConnection fd st
     in if wasConnected then userOnDisconnect fd st1 else st1)"

definition TlsCloseConnection ::
  "(int \<Rightarrow> 's tls_server_scheme \<Rightarrow> 's tls_server_scheme) \<Rightarrow> int
    \<Rightarrow> 's tls_server_scheme \<Rightarrow> 's tls_server_scheme" where
  "TlsCloseConnection userOnDisconnect fd st =
     TcpCloseConnection (OnTcpDisconnect userOnDisconnect) fd (RemoveTlsConnection fd st)"

text \<open>\<open>setup_ok\<close> is whether \<open>mbedtls_ssl_setup\<close> succeeds.\<close>

definition StartTlsHandshake :: "bool \<Rightarrow> int \<Rightarrow> 's tls_server_scheme \<Rightarrow> bool \<times> 's tls_server_scheme" where
  "StartTlsHandshake setup_ok fd st =
    (if \<not> setup_ok then (False, st)
     else (True, st\<lparr>tlsConnections := (tlsConnections st)(fd \<mapsto>
       \<lparr>handshakeComplete = False, tls_fd = fd, recvBuf = [], recvBufOffset = 0\<rparr>)\<rparr>))"

definition OnTcpConnect ::
  "(int \<Rightarrow> 's tls_server_scheme \<Rightarrow> 's tls_server_scheme) \<Rightarrow> (int \<Rightarrow> bool) \<Rightarrow> int \<Rightarrow> byte list
    \<Rightarrow> 's tls_server_scheme \<Rightarrow> 's tls_server_scheme option" where
  "OnTcpConnect userOnDisconnect setup_ok fd ip st =
    (case StartTlsHandshake (setup_ok fd) fd st of
       (True, st1) \<Rightarrow> Some st1
     | (False, st1) \<Rightarrow> Some (TcpCloseConnection (OnTcpDisconnect userOnDisconnect) fd st1))"

definition ContinueTlsHandshake ::
  "(int \<Rightarrow> byte list \<Rightarrow> 's tls_server_scheme \<Rightarrow> 's tls_server_scheme option)
    \<Rightarrow> (int \<Rightarrow> 's tls_server_scheme \<Rightarrow> 's tls_server_scheme)
    \<Rightarrow> nat list \<times> handshake_result \<Rightarrow> int \<Rightarrow> 's tls_server_scheme \<Rightarrow> 's tls_server_scheme option" where
  "ContinueTlsHandshake userOnConnect userOnDisconnect call fd st =
    (case tlsConnections st fd of None \<Rightarrow> Some st
     | Some conn \<Rightarrow>
       let conn1 = snd (ssl_pull (fst call) conn);
           st1 = st\<lparr>tlsConnections := (tlsConnections st)(fd \<mapsto> conn1)\<rparr>
       in case snd call of
            HandshakeWants \<Rightarrow> Some st1
          | HandshakeFailed \<Rightarrow> Some (TcpCloseConnection (OnTcpDisconnect userOnDisconnect) fd st1)
          | HandshakeDone \<Rightarrow>
              userOnConnect fd [] (st1\<lparr>tlsConnections :=
                (tlsConnections st1)(fd \<mapsto> conn1\<lparr>handshakeComplete := True\<rparr>)\<rparr>))"

text \<open>The read loop of \<open>OnTcpData\<close>; past the end of the list mbedTLS wants more data.\<close>

fun tls_read_loop ::
  "(int \<Rightarrow> byte list \<Rightarrow> 's tls_server_scheme \<Rightarrow> 's tls_server_scheme option)
    \<Rightarrow> (int \<Rightarrow> 's tls_server_scheme \<Rightarrow> 's tls_server_scheme) \<Rightarrow> int
    \<Rightarrow> (nat list \<times> read_result) list \<Rightarrow> 's tls_server_scheme \<Rightarrow> 's tls_server_scheme option" where
  "tls_read_loop userOnData userOnDisconnect fd calls st =
    (case tlsConnections st fd of None \<Rightarrow> None
     | Some conn \<Rightarrow>
       (case calls of [] \<Rightarrow> Some st
        | call # rest \<Rightarrow>
          let st1 = st\<lparr>tlsConnections := (tlsConnections st)(fd \<mapsto> snd (ssl_pull (fst call) conn))\<rparr> in
          (case snd call of
             ReadWants \<Rightarrow> Some st1
           | ReadClosed \<Rightarrow> Some (TcpCloseConnection (OnTcpDisconnect userOnDisconnect) fd st1)
           | ReadFailed \<Rightarrow> Some (TcpCloseConnection (OnTcpDisconnect userOnDisconnect) fd st1)
           | ReadPlain bytes \<Rightarrow> do {
               st2 \<leftarrow> userOnData fd bytes st1;
               tls_read_loop userOnData userOnDisconnect fd rest st2
             })))"

declare tls_read_loop.simps [simp del]

definition OnTcpData ::
  "(int \<Rightarrow> byte list \<Rightarrow> 's tls_server_scheme \<Rightarrow> 's tls_server_scheme option)
    \<Rightarrow> (int \<Rightarrow> byte list \<Rightarrow> 's tls_server_scheme \<Rightarrow> 's tls_server_scheme option)
    \<Rightarrow> (int \<Rightarrow> 's tls_server_scheme \<Rightarrow> 's tls_server_scheme)
    \<Rightarrow> int \<Rightarrow> byte list \<Rightarrow> tls_calls \<Rightarrow> 's tls_server_scheme \<Rightarrow> 's tls_server_scheme option" where
  "OnTcpData userOnConnect userOnData userOnDisconnect fd bytes calls st =
    (case tlsConnections st fd of None \<Rightarrow> Some st
     | Some conn \<Rightarrow>
       let conn1 = conn\<lparr>recvBuf := recvBuf conn @ bytes\<rparr>;
           st1 = st\<lparr>tlsConnections := (tlsConnections st)(fd \<mapsto> conn1)\<rparr>
       in if \<not> handshakeComplete conn1
          then ContinueTlsHandshake userOnConnect userOnDisconnect (handshake_call calls) fd st1
          else tls_read_loop userOnData userOnDisconnect fd (read_calls calls) st1)"

text \<open>\<open>writes\<close> are the results of the calls of \<open>mbedtls_ssl_write\<close>, see \<open>send_loop\<close>.\<close>

definition TlsSendData ::
  "send_result list \<Rightarrow> int \<Rightarrow> byte list \<Rightarrow> 's tls_server_scheme \<Rightarrow> (int \<times> 's tls_server_scheme) option" where
  "TlsSendData writes fd dat st =
    (case tlsConnections st fd of None \<Rightarrow> Some (- 1, st)
     | Some conn \<Rightarrow>
       if \<not> handshakeComplete conn then Some (- 1, st)
       else do {
         (sent, taken) \<leftarrow> send_loop dat writes 0 [];
         Some (sent, st\<lparr>ssl_sent := ssl_sent st @ [(fd, taken)]\<rparr>)
       })"

section \<open>Starting and stopping\<close>

text \<open>\<open>context_ok\<close> is whether \<open>TlsContext::Initialize\<close> succeeds.\<close>

definition TlsStart :: "bool \<Rightarrow> start_calls \<Rightarrow> 's tls_server_scheme \<Rightarrow> bool \<times> 's tls_server_scheme" where
  "TlsStart context_ok calls st = (if \<not> context_ok then (False, st) else TcpStart calls st)"

definition TlsStop :: "'s tls_server_scheme \<Rightarrow> 's tls_server_scheme" where
  "TlsStop st = TcpStop (st\<lparr>tlsConnections := Map.empty\<rparr>)"

section \<open>No byte is lost between TCP and mbedTLS\<close>

definition tls_conn_ok :: "TlsConnection \<Rightarrow> bool" where
  "tls_conn_ok conn \<longleftrightarrow> recvBufOffset conn \<le> length (recvBuf conn)"

definition pending :: "TlsConnection \<Rightarrow> byte list" where
  "pending conn = drop (recvBufOffset conn) (recvBuf conn)"

lemma SslRecv_spec:
  assumes "tls_conn_ok conn"
  shows "SslRecv len conn = (r, conn') \<Longrightarrow>
    r = (if pending conn = [] then None else Some (take len (pending conn)))
    \<and> pending conn' = drop len (pending conn) \<and> tls_conn_ok conn'
    \<and> handshakeComplete conn' = handshakeComplete conn \<and> tls_fd conn' = tls_fd conn"
  using assms by (auto simp: SslRecv_def pending_def tls_conn_ok_def Let_def add.commute split: if_splits)

lemma ssl_pull_spec:
  assumes "tls_conn_ok conn" and "ssl_pull ns conn = (bytes, conn')"
  shows "pending conn = bytes @ pending conn' \<and> tls_conn_ok conn'
    \<and> handshakeComplete conn' = handshakeComplete conn \<and> tls_fd conn' = tls_fd conn"
  using assms
proof (induction ns arbitrary: conn bytes)
  case (Cons n ns)
  obtain r c1 where r: "SslRecv n conn = (r, c1)" by (cases "SslRecv n conn")
  obtain later where later: "ssl_pull ns c1 = (later, conn')"
    "bytes = (case r of None \<Rightarrow> [] | Some bs \<Rightarrow> bs) @ later"
    using Cons.prems(2) r by (auto split: prod.splits)
  note one = SslRecv_spec [OF Cons.prems(1) r]
  then have IH: "pending c1 = later @ pending conn'" "tls_conn_ok conn'"
    "handshakeComplete conn' = handshakeComplete conn" "tls_fd conn' = tls_fd conn"
    using Cons.IH [OF _ later(1)] by simp_all
  have "pending conn = (case r of None \<Rightarrow> [] | Some bs \<Rightarrow> bs) @ pending c1"
    using one by (cases "pending conn = []") simp_all
  then show ?case using IH later(2) by simp
qed simp

lemma ssl_pull_ok [simp]: "tls_conn_ok conn \<Longrightarrow> tls_conn_ok (snd (ssl_pull ns conn))"
  using ssl_pull_spec [of conn ns] by (cases "ssl_pull ns conn") auto

definition tls_ok :: "'s tls_server_scheme \<Rightarrow> bool" where
  "tls_ok st \<longleftrightarrow> (\<forall>fd conn. tlsConnections st fd = Some conn \<longrightarrow> tls_conn_ok conn \<and> tls_fd conn = fd)"

section \<open>Closing a connection\<close>

lemma RemoveTlsConnection_eq:
  "RemoveTlsConnection fd st = st\<lparr>tlsConnections := (tlsConnections st)(fd := None)\<rparr>"
  by (cases "tlsConnections st fd") (auto simp: RemoveTlsConnection_def fun_upd_idem)

lemma TlsCloseConnection_eq:
  "TlsCloseConnection userOnDisconnect fd st = st\<lparr>tlsConnections := (tlsConnections st)(fd := None),
     clientIps := (clientIps st)(fd := None), sys_log := sys_log st @ [EpollDel fd, CloseFd fd]\<rparr>"
  by (simp add: TlsCloseConnection_def TcpCloseConnection_def RemoveClient_def OnTcpDisconnect_def
      RemoveTlsConnection_eq Let_def)

section \<open>The contract of the user of the TLS layer\<close>

locale tls_user =
  fixes inv :: "'s tls_server_scheme \<Rightarrow> bool"
    and userOnConnect :: "int \<Rightarrow> byte list \<Rightarrow> 's tls_server_scheme \<Rightarrow> 's tls_server_scheme option"
    and userOnData :: "int \<Rightarrow> byte list \<Rightarrow> 's tls_server_scheme \<Rightarrow> 's tls_server_scheme option"
    and userOnDisconnect :: "int \<Rightarrow> 's tls_server_scheme \<Rightarrow> 's tls_server_scheme"
    and timer :: "'s tls_server_scheme \<Rightarrow> 's tls_server_scheme option"
    and setup_ok :: "int \<Rightarrow> bool"
  assumes tcp_state: "inv st \<Longrightarrow> inv (st\<lparr>sys_log := l\<rparr>)" "inv st \<Longrightarrow> inv (st\<lparr>clientIps := m\<rparr>)"
    and tls_remove: "inv st \<Longrightarrow> inv (st\<lparr>tlsConnections := (tlsConnections st)(fd := None)\<rparr>)"
    and tls_update: "inv st \<Longrightarrow> tls_conn_ok conn \<Longrightarrow> tls_fd conn = fd
      \<Longrightarrow> inv (st\<lparr>tlsConnections := (tlsConnections st)(fd \<mapsto> conn)\<rparr>)"
    and inv_tls: "inv st \<Longrightarrow> tls_ok st"
    and user_connect: "inv st \<Longrightarrow> userOnConnect fd ip st = Some st' \<Longrightarrow> inv st'"
    and user_data: "inv st \<Longrightarrow> userOnData fd bytes st = Some st' \<Longrightarrow> inv st'"
    and user_disconnect: "inv st \<Longrightarrow> inv (userOnDisconnect fd st)"
    and user_timer: "inv st \<Longrightarrow> timer st = Some st' \<Longrightarrow> inv st'"
begin

lemma conn_ok: "inv st \<Longrightarrow> tlsConnections st fd = Some conn \<Longrightarrow> tls_conn_ok conn \<and> tls_fd conn = fd"
  using inv_tls by (auto simp: tls_ok_def)

lemma disconnect: "inv st \<Longrightarrow> inv (OnTcpDisconnect userOnDisconnect fd st)"
  using tls_remove user_disconnect by (auto simp: OnTcpDisconnect_def RemoveTlsConnection_eq Let_def)

lemma close: "inv st \<Longrightarrow> inv (TcpCloseConnection (OnTcpDisconnect userOnDisconnect) fd st)"
  unfolding TcpCloseConnection_def RemoveClient_def Let_def
  by (intro tcp_state(1) tcp_state(2) disconnect)

lemma pulled: "inv st \<Longrightarrow> tlsConnections st fd = Some conn
    \<Longrightarrow> inv (st\<lparr>tlsConnections := (tlsConnections st)(fd \<mapsto> snd (ssl_pull ns conn))\<rparr>)"
proof -
  assume a: "inv st" "tlsConnections st fd = Some conn"
  obtain bs c where p: "ssl_pull ns conn = (bs, c)" by (cases "ssl_pull ns conn")
  show ?thesis using ssl_pull_spec [OF _ p] conn_ok [OF a] tls_update [OF a(1), of c fd] p by simp
qed

lemma connect:
  "inv st \<Longrightarrow> OnTcpConnect userOnDisconnect setup_ok fd ip st = Some st' \<Longrightarrow> inv st'"
  using close [of st fd] tls_update [of st "\<lparr>handshakeComplete = False, tls_fd = fd, recvBuf = [], recvBufOffset = 0\<rparr>" fd]
  by (auto simp: OnTcpConnect_def StartTlsHandshake_def tls_conn_ok_def split: if_splits)

lemma read_loop:
  "inv st \<Longrightarrow> tls_read_loop userOnData userOnDisconnect fd calls st = Some st' \<Longrightarrow> inv st'"
proof (induction calls arbitrary: st)
  case Nil
  then show ?case by (auto simp: tls_read_loop.simps split: option.splits)
next
  case (Cons call calls)
  then obtain conn where conn: "tlsConnections st fd = Some conn"
    by (auto simp: tls_read_loop.simps split: option.splits)
  note st1 = pulled [OF Cons.prems(1) conn, of "fst call"]
  show ?case
  proof (cases "snd call")
    case (ReadPlain bytes)
    with Cons.prems(2) conn obtain st2 where
      "userOnData fd bytes (st\<lparr>tlsConnections := (tlsConnections st)(fd \<mapsto> snd (ssl_pull (fst call) conn))\<rparr>) = Some st2"
      "tls_read_loop userOnData userOnDisconnect fd calls st2 = Some st'"
      by (auto simp: tls_read_loop.simps [of _ _ _ "call # calls"] Let_def split: Option.bind_splits)
    with Cons.IH user_data [OF st1] show ?thesis by blast
  qed (use Cons.prems(2) conn st1 close [OF st1, of fd] in
      \<open>auto simp: tls_read_loop.simps [of _ _ _ "call # calls"] Let_def\<close>)
qed

lemma data:
  assumes "inv st"
    and "OnTcpData userOnConnect userOnData userOnDisconnect fd bytes calls st = Some st'"
  shows "inv st'"
proof (cases "tlsConnections st fd")
  case None
  with assms show ?thesis by (simp add: OnTcpData_def)
next
  case (Some conn)
  let ?conn1 = "conn\<lparr>recvBuf := recvBuf conn @ bytes\<rparr>"
  let ?st1 = "st\<lparr>tlsConnections := (tlsConnections st)(fd \<mapsto> ?conn1)\<rparr>"
  have c1: "tls_conn_ok ?conn1" "tls_fd ?conn1 = fd"
    using conn_ok [OF assms(1) Some] by (simp_all add: tls_conn_ok_def)
  then have st1: "inv ?st1" by (rule tls_update [OF assms(1)])
  show ?thesis
  proof (cases "handshakeComplete conn")
    case True
    with assms(2) Some have "tls_read_loop userOnData userOnDisconnect fd (read_calls calls) ?st1 = Some st'"
      by (simp add: OnTcpData_def)
    from read_loop [OF st1 this] show ?thesis .
  next
    case False
    let ?c2 = "snd (ssl_pull (fst (handshake_call calls)) ?conn1)"
    let ?st2 = "st\<lparr>tlsConnections := (tlsConnections st)(fd \<mapsto> ?c2)\<rparr>"
    obtain bs c where p: "ssl_pull (fst (handshake_call calls)) ?conn1 = (bs, c)" by force
    have c2: "tls_conn_ok ?c2" "tls_fd ?c2 = fd" using ssl_pull_spec [OF c1(1) p] c1(2) p by simp_all
    then have st2: "inv ?st2" "inv (st\<lparr>tlsConnections := (tlsConnections st)(fd \<mapsto> ?c2\<lparr>handshakeComplete := True\<rparr>)\<rparr>)"
      using tls_update [OF assms(1)] by (simp_all add: tls_conn_ok_def)
    show ?thesis
      using assms(2) Some False st2 close [OF st2(1), of fd] user_connect [OF st2(2)]
      by (auto simp: OnTcpData_def ContinueTlsHandshake_def Let_def split: handshake_result.splits)
  qed
qed

end

sublocale tls_user \<subseteq> tcp: tcp_callbacks inv "OnTcpConnect userOnDisconnect setup_ok"
  "OnTcpData userOnConnect userOnData userOnDisconnect" "OnTcpDisconnect userOnDisconnect" timer
  by unfold_locales (fact tcp_state connect data disconnect user_timer)+

end
