(* ===== verification/Connections.thy ===== *)
theory Connections
  imports Complex_Main Prelude
begin

text \<open>
  Connections and their manager: src/server/connection.h and connection.cpp. File descriptors
  and ids are integers in the range of \<open>int32_t\<close>; the positions in the media, \<open>size_t\<close> in the code, are natural
  numbers, which they are for the first 2 to the 64 units sent; times are ticks of the steady clock, nanoseconds. The statistics printed to the console are
  not modelled, but \<open>LogServerStatus\<close>'s totals are.
\<close>

datatype ConnState = HANDSHAKING_TLS | HANDSHAKING_WS | CONNECTED | NEGOTIATING | STREAMING | CLOSING

text \<open>The order of the enumeration is the order in which a connection goes through its states.\<close>

fun ConnState_rank :: "ConnState \<Rightarrow> nat" where
  "ConnState_rank HANDSHAKING_TLS = 0"
| "ConnState_rank HANDSHAKING_WS = 1"
| "ConnState_rank CONNECTED = 2"
| "ConnState_rank NEGOTIATING = 3"
| "ConnState_rank STREAMING = 4"
| "ConnState_rank CLOSING = 5"

instantiation ConnState :: linorder
begin

definition less_eq_ConnState :: "ConnState \<Rightarrow> ConnState \<Rightarrow> bool" where
  "less_eq_ConnState a b \<longleftrightarrow> ConnState_rank a \<le> ConnState_rank b"

definition less_ConnState :: "ConnState \<Rightarrow> ConnState \<Rightarrow> bool" where
  "less_ConnState a b \<longleftrightarrow> ConnState_rank a < ConnState_rank b"

instance
proof
  fix x y :: ConnState
  assume "x \<le> y" "y \<le> x"
  then show "x = y" by (cases x; cases y) (simp_all add: less_eq_ConnState_def)
qed (auto simp: less_eq_ConnState_def less_ConnState_def)

end

lemma ConnState_order [simp]:
  "a \<le> CLOSING" "HANDSHAKING_TLS \<le> a" "HANDSHAKING_WS \<le> CONNECTED" "HANDSHAKING_WS \<le> NEGOTIATING"
  "CONNECTED \<le> NEGOTIATING" "NEGOTIATING \<le> STREAMING"
  by (cases a; simp add: less_eq_ConnState_def)+

record Connection =
  c_fd :: int
  c_id :: int
  c_ip :: "byte list"
  c_state :: ConnState
  messagesSent :: u64
  bytesSent :: u64
  connectedAt :: int
  auIndex :: nat
  packetIndex :: nat
  playbackTimeMs :: rat
  recvBuffer :: "byte list"
  negotiateOfferTime :: int

record conn_manager =
  conns :: "int \<rightharpoonup> Connection"
  totalConnections :: int

definition ConnectionManager :: conn_manager where
  "ConnectionManager = \<lparr>conns = Map.empty, totalConnections = 0\<rparr>"

definition new_connection :: "int \<Rightarrow> int \<Rightarrow> byte list \<Rightarrow> int \<Rightarrow> Connection" where
  "new_connection fd i ip now =
     \<lparr>c_fd = fd, c_id = i, c_ip = ip, c_state = HANDSHAKING_WS, messagesSent = 0, bytesSent = 0,
       connectedAt = now, auIndex = 0, packetIndex = 0, playbackTimeMs = 0, recvBuffer = [],
       negotiateOfferTime = 0\<rparr>"

text \<open>The count is a signed 32-bit number: its overflow is undefined behaviour.\<close>

definition AddConnection :: "int \<Rightarrow> byte list \<Rightarrow> int \<Rightarrow> conn_manager \<Rightarrow> (int \<times> conn_manager) option" where
  "AddConnection fd ip now m = do {
     i \<leftarrow> i32_add (totalConnections m) 1;
     Some (i, m\<lparr>totalConnections := i, conns := (conns m)(fd \<mapsto> new_connection fd i ip now)\<rparr>)
   }"

definition RemoveConnection :: "int \<Rightarrow> conn_manager \<Rightarrow> conn_manager" where
  "RemoveConnection fd m =
     (case conns m fd of None \<Rightarrow> m | Some _ \<Rightarrow> m\<lparr>conns := (conns m)(fd := None)\<rparr>)"

definition GetConnection :: "conn_manager \<Rightarrow> int \<Rightarrow> Connection option" where
  "GetConnection m fd = conns m fd"

text \<open>The totals of \<open>LogServerStatus\<close>, over the connections in some order of the map.\<close>

definition LogServerStatus :: "int list \<Rightarrow> conn_manager \<Rightarrow> u64 \<times> u64" where
  "LogServerStatus order m =
     foldl (\<lambda>(bytes, messages) fd. case conns m fd of
         None \<Rightarrow> (bytes, messages)
       | Some c \<Rightarrow> (bytes + bytesSent c, messages + messagesSent c)) (0, 0) order"

section \<open>The manager's invariant\<close>

text \<open>A connection is stored under its descriptor; ids are at most the count, which fits its type, and unique.\<close>

definition manager_inv :: "conn_manager \<Rightarrow> bool" where
  "manager_inv m \<longleftrightarrow> (\<forall>fd c. conns m fd = Some c \<longrightarrow> c_fd c = fd \<and> 0 < c_id c \<and> c_id c \<le> totalConnections m)
     \<and> (\<forall>fd fd' c c'. conns m fd = Some c \<and> conns m fd' = Some c' \<and> c_id c = c_id c' \<longrightarrow> fd = fd')
     \<and> 0 \<le> totalConnections m \<and> totalConnections m < 2 ^ 31 \<and> finite (dom (conns m))"

lemma manager_inv_init [inv_intros]: "manager_inv ConnectionManager"
  by (simp add: manager_inv_def ConnectionManager_def)

lemma manager_inv_remove [inv_intros]: "manager_inv m \<Longrightarrow> manager_inv (RemoveConnection fd m)"
  unfolding manager_inv_def RemoveConnection_def by (auto split: option.splits if_splits)

lemma AddConnection_Some:
  assumes "AddConnection fd ip now m = Some (i, m')"
  shows "i = totalConnections m + 1" "totalConnections m' = totalConnections m + 1" "totalConnections m + 1 < 2 ^ 31"
    "conns m' = (conns m)(fd \<mapsto> new_connection fd (totalConnections m + 1) ip now)"
  using assms by (auto simp: AddConnection_def i32_add_def split: if_splits)

lemma manager_inv_add:
  assumes "manager_inv m" and "AddConnection fd ip now m = Some (i, m')"
  shows "manager_inv m'"
proof -
  let ?c = "new_connection fd (totalConnections m + 1) ip now"
  let ?m = m'
  note m = AddConnection_Some(4,2) [OF assms(2)]
  have small: "totalConnections m + 1 < 2 ^ 31" by (rule AddConnection_Some(3) [OF assms(2)])
  have new: "c_fd ?c = fd" "c_id ?c = totalConnections m + 1" by (simp_all add: new_connection_def)
  note old = assms(1) [unfolded manager_inv_def]
  have le: "conns m k = Some c \<Longrightarrow> c_fd c = k \<and> 0 < c_id c \<and> c_id c \<le> totalConnections m" for k c using old by blast
  have total: "0 \<le> totalConnections m" "finite (dom (conns m))" using old by blast+
  show ?thesis
    unfolding manager_inv_def m
  proof (intro conjI allI impI)
    fix k k' c c'
    assume c: "((conns m)(fd \<mapsto> ?c)) k = Some c \<and> ((conns m)(fd \<mapsto> ?c)) k' = Some c' \<and> c_id c = c_id c'"
    consider "k = fd" "k' = fd" | "k = fd" "k' \<noteq> fd" | "k \<noteq> fd" "k' = fd" | "k \<noteq> fd" "k' \<noteq> fd" by blast
    then show "k = k'"
    proof cases
      case 4
      with c have "conns m k = Some c \<and> conns m k' = Some c' \<and> c_id c = c_id c'" by simp
      then show ?thesis using old by blast
    qed (use c new(2) le [of k c] le [of k' c'] in simp_all)
  next
    fix k c
    assume c: "((conns m)(fd \<mapsto> ?c)) k = Some c"
    have "c_fd c = k \<and> 0 < c_id c \<and> c_id c \<le> totalConnections m + 1"
    proof (cases "k = fd")
      case True
      then have "c = ?c" using c by simp
      then show ?thesis using True new total(1) by simp
    next
      case False
      then have "conns m k = Some c" using c by simp
      then show ?thesis using le [of k c] by simp
    qed
    then show "c_fd c = k" "0 < c_id c" "c_id c \<le> totalConnections m + 1" by simp_all
  qed (use total small in simp_all)
qed

text \<open>An update of a connection in place that keeps its descriptor and id.\<close>

lemma manager_inv_update [inv_intros]:
  assumes "manager_inv m" and "conns m fd = Some c" and "c_fd c' = c_fd c" "c_id c' = c_id c"
  shows "manager_inv (m\<lparr>conns := (conns m)(fd \<mapsto> c')\<rparr>)"
proof -
  let ?m = "m\<lparr>conns := (conns m)(fd \<mapsto> c')\<rparr>"
  note old = assms(1) [unfolded manager_inv_def]
  have was: "\<exists>y. conns m k = Some y \<and> c_fd y = c_fd x \<and> c_id y = c_id x" if "conns ?m k = Some x" for k x
    using that assms(2-4) by (cases "k = fd") simp_all
  show ?thesis
    unfolding manager_inv_def
  proof (intro conjI allI impI)
    fix k k' x x'
    assume x: "conns ?m k = Some x \<and> conns ?m k' = Some x' \<and> c_id x = c_id x'"
    obtain y y' where "conns m k = Some y \<and> conns m k' = Some y' \<and> c_id y = c_id y'"
      using x was [of k x] was [of k' x'] by fastforce
    then show "k = k'" using old by blast
  next
    fix k x
    assume "conns ?m k = Some x"
    from was [OF this] obtain y where y: "conns m k = Some y" "c_fd y = c_fd x" "c_id y = c_id x" by blast
    then have "c_fd y = k \<and> 0 < c_id y \<and> c_id y \<le> totalConnections m" using old by blast
    then show "c_fd x = k" "0 < c_id x" "c_id x \<le> totalConnections ?m" using y by simp_all
  qed (use old in simp_all)
qed

end
