(* ===== verification/NalParser.thy ===== *)
theory NalParser
  imports Prelude
begin

text \<open>
  Splitting an Annex B byte stream into NAL units and access units: \<open>ParseNalUnits\<close>,
  \<open>GetNalType\<close> and \<open>GroupIntoAccessUnits\<close> of src/server/nal_parser.cpp. Every index the loops
  read is below the size of the buffer: the scan stops three bytes before its end.
\<close>

section \<open>NAL units\<close>

text \<open>\<open>assign(begin + a, begin + b)\<close>.\<close>

definition slice :: "byte list \<Rightarrow> nat \<Rightarrow> nat \<Rightarrow> byte list" where
  "slice buf a b = take (b - a) (drop a buf)"

text \<open>The loop: position, start of the current unit, whether one was found, and the units saved.\<close>

function nal_scan ::
  "byte list \<Rightarrow> nat \<Rightarrow> nat \<Rightarrow> bool \<Rightarrow> byte list list \<Rightarrow> byte list list \<times> nat \<times> bool" where
  "nal_scan buf i start firstNalFound nalUnits =
    (if i < length buf - 3 then
       let is4ByteStart = buf ! i = 0 \<and> buf ! (i + 1) = 0 \<and> buf ! (i + 2) = 0 \<and> buf ! (i + 3) = 1;
           is3ByteStart = \<not> is4ByteStart \<and> i > 0
             \<and> (buf ! i = 0 \<and> buf ! (i + 1) = 0 \<and> buf ! (i + 2) = 1)
       in if is4ByteStart \<or> is3ByteStart
          then nal_scan buf (i + (if is4ByteStart then 3 else 2) + 1) i True
                 (if firstNalFound then nalUnits @ [slice buf start i] else nalUnits)
          else nal_scan buf (i + 1) start firstNalFound nalUnits
     else (nalUnits, start, firstNalFound))"
  by pat_completeness auto
termination by (relation "measure (\<lambda>(buf, i, _). length buf - i)") (auto split: if_splits)

declare nal_scan.simps [simp del]

definition ParseNalUnits :: "byte list \<Rightarrow> byte list list" where
  "ParseNalUnits buf =
    (if length buf < 4 then []
     else case nal_scan buf 0 0 False [] of
       (nalUnits, start, firstNalFound) \<Rightarrow>
         if firstNalFound \<and> start < length buf then nalUnits @ [slice buf start (length buf)]
         else nalUnits)"

section \<open>Types of NAL units\<close>

definition GetNalType :: "bool \<Rightarrow> byte list \<Rightarrow> byte" where
  "GetNalType isH265 nal =
    (let offset = (if length nal \<ge> 4 \<and> nal ! 0 = 0 \<and> nal ! 1 = 0 then
                     if nal ! 2 = 0 \<and> nal ! 3 = 1 then 4
                     else if nal ! 2 = 1 then 3 else 0
                   else 0)
     in if offset = 0 \<or> offset \<ge> length nal then 0xFF
        else if isH265 then drop_bit 1 (nal ! offset) AND 0x3F
        else nal ! offset AND 0x1F)"

section \<open>Access units\<close>

text \<open>The types that \<open>GroupIntoAccessUnits\<close> looks at: an access unit delimiter and slice data.\<close>

definition is_aud :: "bool \<Rightarrow> byte list \<Rightarrow> bool" where
  "is_aud isH265 nal \<longleftrightarrow> GetNalType isH265 nal = (if isH265 then 35 else 9)"

definition is_vcl :: "bool \<Rightarrow> byte list \<Rightarrow> bool" where
  "is_vcl isH265 nal \<longleftrightarrow>
    (if isH265 then 0 \<le> GetNalType isH265 nal \<and> GetNalType isH265 nal \<le> 31
     else GetNalType isH265 nal = 1 \<or> GetNalType isH265 nal = 5)"

definition starts_new_AU :: "bool \<Rightarrow> byte list list \<Rightarrow> byte list \<Rightarrow> bool" where
  "starts_new_AU isH265 currentAU nal =
    (if is_aud isH265 nal then True
     else if is_vcl isH265 nal then
       if currentAU \<noteq> [] then list_ex (is_vcl isH265) currentAU else False
     else False)"

definition group_step ::
  "bool \<Rightarrow> byte list list list \<times> byte list list \<Rightarrow> byte list \<Rightarrow> byte list list list \<times> byte list list" where
  "group_step isH265 = (\<lambda>(accessUnits, currentAU) nal.
     if starts_new_AU isH265 currentAU nal \<and> currentAU \<noteq> []
     then (accessUnits @ [currentAU], [nal])
     else (accessUnits, currentAU @ [nal]))"

definition GroupIntoAccessUnits :: "bool \<Rightarrow> byte list list \<Rightarrow> byte list list list" where
  "GroupIntoAccessUnits isH265 nalUnits =
    (if nalUnits = [] then []
     else case foldl (group_step isH265) ([], []) nalUnits of
       (accessUnits, currentAU) \<Rightarrow>
         if currentAU \<noteq> [] then accessUnits @ [currentAU] else accessUnits)"

section \<open>Splitting loses nothing\<close>

definition has_start_code :: "byte list \<Rightarrow> bool" where
  "has_start_code nal \<longleftrightarrow> take 4 nal = [0, 0, 0, 1] \<or> take 3 nal = [0, 0, 1]"

text \<open>The scan sees a start code at position \<open>k\<close>.\<close>

definition code_at :: "byte list \<Rightarrow> nat \<Rightarrow> bool" where
  "code_at buf k \<longleftrightarrow> k + 3 < length buf \<and>
    (buf ! k = 0 \<and> buf ! (k + 1) = 0 \<and> buf ! (k + 2) = 0 \<and> buf ! (k + 3) = 1
     \<or> k > 0 \<and> buf ! k = 0 \<and> buf ! (k + 1) = 0 \<and> buf ! (k + 2) = 1)"

lemma slice_append:
  assumes "a \<le> b" and "b \<le> c"
  shows "slice buf a b @ slice buf b c = slice buf a c"
proof -
  obtain m n where "b = a + m" "c = a + m + n" using assms by (metis le_Suc_ex)
  then show ?thesis by (simp add: slice_def take_add add.commute)
qed

lemma slice_to_end: "slice buf a (length buf) = drop a buf"
  by (simp add: slice_def)

lemma slice_empty [simp]: "slice buf a a = []"
  by (simp add: slice_def)

lemma drop_three:
  assumes "i + 3 < length buf"
  shows "drop i buf = buf ! i # buf ! (i + 1) # buf ! (i + 2) # buf ! (i + 3) # drop (i + 4) buf"
proof -
  have "drop (i + k) buf = buf ! (i + k) # drop (i + Suc k) buf" if "k \<le> 3" for k
    using that assms by (simp add: Cons_nth_drop_Suc)
  from this [of 0] this [of 1] this [of 2] this [of 3] show ?thesis by (simp add: eval_nat_numeral)
qed

lemma has_start_code_slice:
  assumes "i + 3 < length buf" and "i + (if four then 3 else 2) + 1 \<le> j"
    and "if four then buf ! i = 0 \<and> buf ! (i + 1) = 0 \<and> buf ! (i + 2) = 0 \<and> buf ! (i + 3) = 1
      else buf ! i = 0 \<and> buf ! (i + 1) = 0 \<and> buf ! (i + 2) = 1"
  shows "has_start_code (slice buf i j)"
proof -
  have "\<exists>k. j - i = (if four then 4 else 3) + k"
    using assms(2) by (intro exI [of _ "j - i - (if four then 4 else 3)"]) auto
  then show ?thesis
    using drop_three [OF assms(1)] assms(3)
    by (auto simp: slice_def has_start_code_def take_Cons' split: if_splits)
qed

text \<open>The invariant of the scan: the units saved so far are the bytes from the first start code to
  the current unit, which itself begins with a start code that ends before the position.\<close>

definition scan_inv :: "byte list \<Rightarrow> nat \<Rightarrow> nat \<Rightarrow> bool \<Rightarrow> byte list list \<Rightarrow> bool" where
  "scan_inv buf i start found nals \<longleftrightarrow>
    (if found then start + 3 \<le> i \<and> start < length buf
        \<and> (\<exists>f \<le> start. concat nals = slice buf f start \<and> (\<forall>k<f. \<not> code_at buf k))
        \<and> (\<forall>j. i \<le> j \<longrightarrow> has_start_code (slice buf start j)) \<and> list_all has_start_code nals
     else nals = [] \<and> (\<forall>k<i. \<not> code_at buf k))"

lemma scan_inv_scan:
  assumes "scan_inv buf i start found nals" "i \<le> length buf"
    "nal_scan buf i start found nals = (nals', start', found')"
  shows "\<exists>i' \<le> length buf. length buf - 3 \<le> i' \<and> scan_inv buf i' start' found' nals'"
  using assms
proof (induction buf i start found nals rule: nal_scan.induct)
  case (1 buf i start found nals)
  let ?four = "buf ! i = 0 \<and> buf ! (i + 1) = 0 \<and> buf ! (i + 2) = 0 \<and> buf ! (i + 3) = 1"
  let ?three = "\<not> ?four \<and> i > 0 \<and> (buf ! i = 0 \<and> buf ! (i + 1) = 0 \<and> buf ! (i + 2) = 1)"
  let ?next = "i + (if ?four then 3 else 2) + 1"
  let ?saved = "if found then nals @ [slice buf start i] else nals"
  show ?case
  proof (cases "i < length buf - 3")
    case False
    with 1 show ?thesis by (auto simp: nal_scan.simps [of buf i])
  next
    case i: True
    then have i3: "i + 3 < length buf" by simp
    show ?thesis
    proof (cases "?four \<or> ?three")
      case True
      have code: "has_start_code (slice buf i j)" if "?next \<le> j" for j
        by (rule has_start_code_slice [OF i3 that]) (use True in auto)
      have keep: "scan_inv buf ?next i True ?saved"
      proof (cases found)
        case True
        then obtain f where f: "f \<le> start" "concat nals = slice buf f start"
            "\<forall>k<f. \<not> code_at buf k"
          and s: "start + 3 \<le> i" "\<forall>j. i \<le> j \<longrightarrow> has_start_code (slice buf start j)"
            "list_all has_start_code nals"
          using 1(3) by (auto simp: scan_inv_def)
        have "concat ?saved = slice buf f i"
          using True f s(1) slice_append [of f start i] by simp
        then show ?thesis
          using True f(1,3) s code i3 by (auto simp: scan_inv_def intro: exI [of _ f])
      next
        case False
        then show ?thesis using 1(3) code i3 by (auto simp: scan_inv_def intro: exI [of _ i])
      qed
      have "nal_scan buf ?next i True ?saved = (nals', start', found')"
        using 1(5) i True by (subst (asm) nal_scan.simps) (simp only: Let_def if_True)
      from 1(1) [OF i refl refl True keep _ this] i3 show ?thesis by auto
    next
      case False
      have "\<not> code_at buf i" using False by (auto simp: code_at_def)
      then have "scan_inv buf (i + 1) start found nals"
        using 1(3) by (auto simp: scan_inv_def less_Suc_eq)
      moreover have "nal_scan buf (i + 1) start found nals = (nals', start', found')"
        using 1(5) i False by (subst (asm) nal_scan.simps) (simp only: Let_def if_True if_False)
      ultimately show ?thesis using 1(2) [OF i refl refl False] i3 by auto
    qed
  qed
qed

lemma ParseNalUnits_result:
  "list_all has_start_code (ParseNalUnits buf)
    \<and> (\<exists>n. concat (ParseNalUnits buf) = drop n buf \<and> (\<forall>k<n. \<not> code_at buf k))"
proof (cases "length buf < 4")
  case True
  then show ?thesis
    by (auto simp: ParseNalUnits_def code_at_def intro: exI [of _ "length buf"])
next
  case False
  obtain nals start found where scan: "nal_scan buf 0 0 False [] = (nals, start, found)"
    by (cases "nal_scan buf 0 0 False []") auto
  have "scan_inv buf 0 0 False []" by (simp add: scan_inv_def)
  from scan_inv_scan [OF this _ scan] obtain i where i: "i \<le> length buf" "scan_inv buf i start found nals"
    "length buf - 3 \<le> i"
    by auto
  show ?thesis
  proof (cases found)
    case True
    with i obtain f where f: "f \<le> start" "concat nals = slice buf f start" "\<forall>k<f. \<not> code_at buf k"
      and s: "start < length buf" "has_start_code (slice buf start (length buf))"
        "list_all has_start_code nals" by (auto simp: scan_inv_def)
    have "ParseNalUnits buf = nals @ [slice buf start (length buf)]"
      using False scan True s(1) by (simp add: ParseNalUnits_def)
    moreover have "slice buf f start @ slice buf start (length buf) = drop f buf"
      using f(1) s(1) slice_append [of f start "length buf" buf] by (simp add: slice_to_end)
    ultimately show ?thesis using f(2,3) s(2,3) by (auto intro: exI [of _ f])
  next
    case nf: False
    then have "ParseNalUnits buf = []" using i False scan by (simp add: ParseNalUnits_def scan_inv_def)
    moreover have "\<not> code_at buf k" for k
      using i nf by (auto simp: scan_inv_def code_at_def)
    ultimately show ?thesis by (auto intro: exI [of _ "length buf"])
  qed
qed

section \<open>Streams of NAL units\<close>

text \<open>An Annex B stream: each unit is a start code of four or three bytes and its payload. The payload is
  as H.264 and H.265 make it: not empty, not ending in a zero byte, and without the three byte
  patterns that emulation prevention removes.\<close>

type_synonym annexb_unit = "bool \<times> byte list"

fun unit_bytes :: "annexb_unit \<Rightarrow> byte list" where
  "unit_bytes (four, payload) = (if four then [0, 0, 0, 1] else [0, 0, 1]) @ payload"

definition escaped :: "byte list \<Rightarrow> bool" where
  "escaped p \<longleftrightarrow> p \<noteq> [] \<and> last p \<noteq> 0
     \<and> (\<forall>k < length p - 2. \<not> (p ! k = 0 \<and> p ! (k + 1) = 0 \<and> p ! (k + 2) \<le> 1))"

lemma nal_scan_end:
  assumes "\<not> i + 3 < length buf"
  shows "nal_scan buf i start found nals = (nals, start, found)"
proof -
  have "\<not> i < length buf - 3" using assms by linarith
  then show ?thesis by (subst nal_scan.simps) (simp only: if_False)
qed

lemma nal_scan_miss:
  assumes "i + 3 < length buf" and "\<not> code_at buf i"
  shows "nal_scan buf i start found nals = nal_scan buf (i + 1) start found nals"
proof -
  have "i < length buf - 3" using assms(1) by simp
  moreover have "\<not> (buf ! i = 0 \<and> buf ! (i + 1) = 0 \<and> buf ! (i + 2) = 0 \<and> buf ! (i + 3) = 1)"
    "\<not> (i > 0 \<and> buf ! i = 0 \<and> buf ! (i + 1) = 0 \<and> buf ! (i + 2) = 1)"
    using assms by (auto simp: code_at_def)
  ultimately show ?thesis by (subst nal_scan.simps) (simp only: Let_def if_True if_False simp_thms)
qed

lemma nal_scan_hit:
  assumes i: "i + 3 < length buf" and d: "drop i buf = (if four then [0, 0, 0, 1] else [0, 0, 1]) @ r"
    and pos: "four \<or> 0 < i"
  shows "nal_scan buf i start found nals = nal_scan buf (i + (if four then 4 else 3)) i True
    (if found then nals @ [slice buf start i] else nals)"
proof -
  have lt: "i < length buf - 3" using i by simp
  have b: "buf ! i # buf ! (i + 1) # buf ! (i + 2) # buf ! (i + 3) # drop (i + 4) buf
      = (if four then [0, 0, 0, 1] else [0, 0, 1]) @ r"
    using drop_three [OF i] d by simp
  show ?thesis
  proof (cases four)
    case True
    with b have "buf ! i = 0 \<and> buf ! (i + 1) = 0 \<and> buf ! (i + 2) = 0 \<and> buf ! (i + 3) = 1" by simp
    with lt True show ?thesis
      by (subst nal_scan.simps) (simp only: Let_def if_True if_False simp_thms add.assoc, simp)
  next
    case False
    with b have "buf ! i = 0" "buf ! (i + 1) = 0" "buf ! (i + 2) = 1" by simp_all
    with lt False pos show ?thesis
      by (subst nal_scan.simps) (simp only: Let_def if_True if_False simp_thms add.assoc zero_neq_one one_neq_zero, simp)
  qed
qed

lemma nal_scan_skip:
  assumes "\<forall>k. i \<le> k \<and> k < i + n \<longrightarrow> \<not> code_at buf k"
  shows "nal_scan buf i start found nals = nal_scan buf (i + n) start found nals"
  using assms
proof (induction n arbitrary: i)
  case 0
  then show ?case by simp
next
  case (Suc n)
  have "nal_scan buf i start found nals = nal_scan buf (i + 1) start found nals"
  proof (cases "i + 3 < length buf")
    case True
    then have "\<not> code_at buf i" using Suc.prems by simp
    with True show ?thesis by (rule nal_scan_miss)
  next
    case False
    then show ?thesis by (simp add: nal_scan_end)
  qed
  with Suc.IH [of "i + 1"] Suc.prems show ?case by simp
qed

lemma no_code_in_payload:
  assumes p: "escaped p" and r: "r = [] \<or> (\<exists>t. r = 0 # 0 # t)" and m: "m < length p"
  shows "\<not> code_at (a @ p @ r) (length a + m)"
proof
  assume code: "code_at (a @ p @ r) (length a + m)"
  have nth: "(a @ p @ r) ! (length a + k) = (p @ r) ! k" for k by (simp add: nth_append)
  have z: "(p @ r) ! m = 0" "(p @ r) ! (m + 1) = 0" "(p @ r) ! (m + 2) \<le> 1"
    using code nth [of m] nth [of "m + 1"] nth [of "m + 2"] by (auto simp: code_at_def add.assoc)
  show False
  proof (cases "m + 2 < length p")
    case True
    with z p show False by (auto simp: escaped_def nth_append)
  next
    case False
    then consider "m = length p - 1" | "m + 1 = length p - 1" using m by linarith
    then have "(p @ r) ! (length p - 1) = 0" using z by cases auto
    moreover have "p \<noteq> []" "last p \<noteq> 0" using p by (simp_all add: escaped_def)
    ultimately show False by (simp add: nth_append last_conv_nth)
  qed
qed

lemma units_start: "concat (map unit_bytes us) = [] \<or> (\<exists>t. concat (map unit_bytes us) = 0 # 0 # t)"
  by (cases us) (auto split: if_splits)

text \<open>What \<open>ParseNalUnits\<close> does after the loop.\<close>

definition finish :: "byte list \<Rightarrow> byte list list \<times> nat \<times> bool \<Rightarrow> byte list list" where
  "finish buf = (\<lambda>(nals, start, found).
     if found \<and> start < length buf then nals @ [slice buf start (length buf)] else nals)"

lemma scan_unit:
  assumes u: "escaped p" and buf: "buf = pre @ unit_bytes (four, p) @ concat (map unit_bytes us)"
    and pos: "four \<or> pre \<noteq> []"
  shows "nal_scan buf (length pre) start found nals
    = nal_scan buf (length (pre @ unit_bytes (four, p))) (length pre) True
        (if found then nals @ [slice buf start (length pre)] else nals)"
proof -
  let ?code = "if four then [0, 0, 0, 1] else [0, 0, 1 :: byte]"
  let ?r = "concat (map unit_bytes us)"
  have ne: "p \<noteq> []" using u by (simp add: escaped_def)
  have "length pre + 3 < length buf" using ne by (cases p) (auto simp: buf)
  moreover have "drop (length pre) buf = ?code @ (p @ ?r)" by (simp add: buf)
  ultimately have hit: "nal_scan buf (length pre) start found nals
    = nal_scan buf (length pre + (if four then 4 else 3)) (length pre) True
        (if found then nals @ [slice buf start (length pre)] else nals)"
    using pos by (intro nal_scan_hit) auto
  have "\<not> code_at buf k" if "length pre + (if four then 4 else 3) \<le> k"
    "k < length pre + (if four then 4 else 3) + length p" for k
  proof -
    have "buf = (pre @ ?code) @ p @ ?r" by (simp add: buf)
    moreover have "k = length (pre @ ?code) + (k - length (pre @ ?code))" using that(1) by auto
    moreover have "k - length (pre @ ?code) < length p" using that by auto
    ultimately show ?thesis using no_code_in_payload [OF u units_start] by metis
  qed
  then have "nal_scan buf (length pre + (if four then 4 else 3)) s f n
      = nal_scan buf (length pre + (if four then 4 else 3) + length p) s f n" for s f n
    by (intro nal_scan_skip) blast
  moreover have "length pre + (if four then 4 else 3) + length p = length (pre @ unit_bytes (four, p))"
    by simp
  ultimately show ?thesis using hit by simp
qed

lemma scan_units:
  assumes "\<forall>(four, p) \<in> set us. escaped p" and "start < length pre"
    and "buf = pre @ concat (map unit_bytes us)"
  shows "finish buf (nal_scan buf (length pre) start True nals)
    = nals @ [slice buf start (length pre)] @ map unit_bytes us"
  using assms
proof (induction us arbitrary: pre start nals)
  case Nil
  then show ?case by (simp add: nal_scan_end finish_def)
next
  case (Cons u us)
  obtain four p where u: "u = (four, p)" by (cases u)
  have pre: "pre \<noteq> []" using Cons.prems(2) by auto
  have buf: "buf = pre @ unit_bytes (four, p) @ concat (map unit_bytes us)"
    using Cons.prems(3) by (simp add: u)
  have p: "escaped p" using Cons.prems(1) by (simp add: u)
  have start: "length pre < length (pre @ unit_bytes (four, p))" by simp
  have "slice buf (length pre) (length (pre @ unit_bytes (four, p))) = unit_bytes (four, p)"
    unfolding buf slice_def by simp
  moreover have "finish buf (nal_scan buf (length (pre @ unit_bytes (four, p))) (length pre) True
      (nals @ [slice buf start (length pre)]))
    = (nals @ [slice buf start (length pre)])
      @ [slice buf (length pre) (length (pre @ unit_bytes (four, p)))] @ map unit_bytes us"
    by (rule Cons.IH) (use Cons.prems(1) start buf in auto)
  ultimately show ?case
    using scan_unit [OF p buf, of start True nals] pre by (simp add: u)
qed

text \<open>C17: round trip: a stream of payloads, the first behind a four-byte start code and the others
  behind start codes of four or three bytes, is split into exactly those units, in order.\<close>

theorem ParseNalUnits_stream:
  assumes "\<forall>(four, p) \<in> set ((True, p0) # us). escaped p"
  shows "ParseNalUnits (concat (map unit_bytes ((True, p0) # us))) = map unit_bytes ((True, p0) # us)"
proof -
  let ?buf = "concat (map unit_bytes ((True, p0) # us))"
  let ?pre = "unit_bytes (True, p0)"
  have buf: "?buf = [] @ ?pre @ concat (map unit_bytes us)" by simp
  have p0: "escaped p0" using assms by simp
  have "nal_scan ?buf 0 0 False [] = nal_scan ?buf (length ?pre) 0 True []"
    using scan_unit [OF p0 buf, of 0 False "[]"] by simp
  moreover have "finish ?buf (nal_scan ?buf (length ?pre) 0 True [])
      = [] @ [slice ?buf 0 (length ?pre)] @ map unit_bytes us"
    by (rule scan_units) (use assms in auto)
  moreover have "slice ?buf 0 (length ?pre) = ?pre" by (simp add: slice_def)
  ultimately have "finish ?buf (nal_scan ?buf 0 0 False []) = map unit_bytes ((True, p0) # us)" by simp
  moreover have "\<not> length ?buf < 4" by simp
  ultimately show ?thesis by (simp add: ParseNalUnits_def finish_def)
qed

text \<open>Splitting loses nothing: the NAL units of a buffer, put together again, are the buffer from
  its first start code on, and every unit begins with a start code.\<close>

theorem ParseNalUnits_partition:
  "list_all has_start_code (ParseNalUnits buf)
    \<and> (\<exists>n. concat (ParseNalUnits buf) = drop n buf \<and> (\<forall>k<n. \<not> code_at buf k))"
  by (rule ParseNalUnits_result)

section \<open>Access units\<close>

text \<open>The current access unit while grouping: a delimiter only at its front, slice data at most once.\<close>

definition au_ok :: "bool \<Rightarrow> byte list list \<Rightarrow> bool" where
  "au_ok isH265 au \<longleftrightarrow> au \<noteq> [] \<and> length (filter (is_vcl isH265) au) \<le> 1
     \<and> list_all (\<lambda>n. \<not> is_aud isH265 n) (tl au)"

lemma aud_not_vcl: "is_aud h n \<Longrightarrow> \<not> is_vcl h n"
  by (auto simp: is_aud_def is_vcl_def split: if_splits)

lemma length_filter_none: "\<not> list_ex P xs \<Longrightarrow> length (filter P xs) = 0"
  by (simp add: filter_empty_conv list_ex_iff)

lemma group_step_ok:
  assumes "list_all (au_ok h) aus" and "cur = [] \<or> au_ok h cur"
  shows "list_all (au_ok h) (fst (group_step h (aus, cur) n)) \<and> au_ok h (snd (group_step h (aus, cur) n))
    \<and> concat (fst (group_step h (aus, cur) n)) @ snd (group_step h (aus, cur) n) = concat aus @ cur @ [n]"
proof (cases "starts_new_AU h cur n \<and> cur \<noteq> []")
  case True
  then show ?thesis using assms by (auto simp: group_step_def au_ok_def)
next
  case False
  have "au_ok h (cur @ [n])"
  proof (cases "cur = []")
    case True
    then show ?thesis by (simp add: au_ok_def)
  next
    case ne: False
    then have "\<not> is_aud h n" and "is_vcl h n \<longrightarrow> \<not> list_ex (is_vcl h) cur"
      using False by (auto simp: starts_new_AU_def split: if_splits)
    then show ?thesis
      using assms(2) ne length_filter_none [of "is_vcl h" cur] by (cases cur) (auto simp: au_ok_def)
  qed
  then show ?thesis using False assms(1) by (auto simp: group_step_def)
qed

lemma group_fold:
  assumes "list_all (au_ok h) aus" and "cur = [] \<or> au_ok h cur"
    and "foldl (group_step h) (aus, cur) nals = (aus', cur')"
  shows "list_all (au_ok h) aus' \<and> (cur' = [] \<or> au_ok h cur') \<and> concat aus' @ cur' = concat aus @ cur @ concat [nals]"
  using assms
proof (induction nals arbitrary: aus cur)
  case Nil
  then show ?case by simp
next
  case (Cons n nals)
  obtain a c where st: "group_step h (aus, cur) n = (a, c)" by (cases "group_step h (aus, cur) n")
  from group_step_ok [OF Cons.prems(1,2), of n] st have
    "list_all (au_ok h) a" "au_ok h c" "concat a @ c = concat aus @ cur @ [n]" by simp_all
  moreover from this Cons.IH [of a c] Cons.prems(3) st have
    "list_all (au_ok h) aus' \<and> (cur' = [] \<or> au_ok h cur') \<and> concat aus' @ cur' = concat a @ c @ concat [nals]"
    by simp
  ultimately show ?case by simp
qed

lemma units_kept:
  "concat (GroupIntoAccessUnits h nals) = nals \<and> list_all (au_ok h) (GroupIntoAccessUnits h nals)"
proof (cases "nals = []")
  case True
  then show ?thesis by (simp add: GroupIntoAccessUnits_def)
next
  case False
  obtain aus cur where f: "foldl (group_step h) ([], []) nals = (aus, cur)"
    by (cases "foldl (group_step h) ([], []) nals")
  have "list_all (au_ok h) aus \<and> (cur = [] \<or> au_ok h cur) \<and> concat aus @ cur = nals"
    using group_fold [OF _ _ f] by simp
  then show ?thesis using f by (auto simp: GroupIntoAccessUnits_def)
qed

text \<open>Where one access unit ends and the next begins, the code's condition for a new one holds.\<close>

definition au_cut :: "bool \<Rightarrow> byte list list \<Rightarrow> byte list list \<Rightarrow> bool" where
  "au_cut h a b \<longleftrightarrow> b \<noteq> [] \<and> starts_new_AU h a (hd b)"

lemma group_fold_cuts:
  assumes "successively (au_cut h) (if cur = [] then aus else aus @ [cur])"
    and "cur = [] \<longrightarrow> aus = []"
    and "foldl (group_step h) (aus, cur) nals = (aus', cur')"
  shows "successively (au_cut h) (if cur' = [] then aus' else aus' @ [cur'])"
  using assms
proof (induction nals arbitrary: aus cur)
  case Nil
  then have "aus' = aus" "cur' = cur" by simp_all
  with Nil(1) show ?case by (simp only:)
next
  case (Cons n nals)
  show ?case
  proof (cases "starts_new_AU h cur n \<and> cur \<noteq> []")
    case True
    then have "successively (au_cut h) ((aus @ [cur]) @ [[n]])"
      using Cons.prems(1) by (auto simp: successively_append_iff au_cut_def)
    with True Cons.prems(3) show ?thesis
      by (intro Cons.IH [of "[n]" "aus @ [cur]"]) (simp_all add: group_step_def)
  next
    case False
    have "successively (au_cut h) (aus @ [cur @ [n]])"
      using Cons.prems(1,2) by (cases cur) (auto simp: successively_append_iff au_cut_def)
    with False Cons.prems(3) show ?thesis
      by (intro Cons.IH [of "cur @ [n]" aus]) (auto simp: group_step_def)
  qed
qed

lemma units_cut:
  "successively (au_cut h) (GroupIntoAccessUnits h nals)"
proof (cases "nals = []")
  case True
  then show ?thesis by (simp add: GroupIntoAccessUnits_def)
next
  case False
  obtain aus cur where f: "foldl (group_step h) ([], []) nals = (aus, cur)"
    by (cases "foldl (group_step h) ([], []) nals")
  from group_fold_cuts [OF _ _ f] False f show ?thesis by (auto simp: GroupIntoAccessUnits_def)
qed

text \<open>
  The frames of a stream, as src/openspec/changes/archive/2026-02-08-server-send-by-actual-fps/design.md
  groups them: units that are no slices, a delimiter only in front, then the slices, the
  first of which says that it is the first of its picture (\<open>first_mb_in_slice\<close> is 0, the code word of one
  bit, or \<open>first_slice_segment_in_pic_flag\<close>). The flag is the first bit behind the header of the
  unit, of one byte in H.264 and two in H.265.
\<close>

definition first_slice :: "bool \<Rightarrow> byte list \<Rightarrow> bool" where
  "first_slice isH265 nal \<longleftrightarrow>
    (let k = (if nal ! 2 = 0 then 4 else 3) + (if isH265 then 2 else 1) in k < length nal \<and> bit (nal ! k) 7)"

definition leading_units :: "bool \<Rightarrow> byte list list \<Rightarrow> byte list list" where
  "leading_units isH265 = takeWhile (\<lambda>n. \<not> is_vcl isH265 n)"

definition slices :: "bool \<Rightarrow> byte list list \<Rightarrow> byte list list" where
  "slices isH265 = dropWhile (\<lambda>n. \<not> is_vcl isH265 n)"

definition documented_frame :: "bool \<Rightarrow> byte list list \<Rightarrow> bool" where
  "documented_frame isH265 p \<longleftrightarrow> list_all (\<lambda>n. \<not> is_aud isH265 n) (tl (leading_units isH265 p))
     \<and> slices isH265 p \<noteq> [] \<and> first_slice isH265 (hd (slices isH265 p))
     \<and> list_all (\<lambda>n. is_vcl isH265 n \<and> \<not> first_slice isH265 n) (tl (slices isH265 p))"

text \<open>What the code can tell apart: one slice, and in front of it a delimiter or nothing.\<close>

definition one_slice :: "bool \<Rightarrow> byte list list \<Rightarrow> bool" where
  "one_slice isH265 p \<longleftrightarrow> length (slices isH265 p) = 1"

definition marked :: "bool \<Rightarrow> byte list list \<Rightarrow> bool" where
  "marked isH265 p \<longleftrightarrow> is_aud isH265 (hd p) \<or> is_vcl isH265 (hd p)"

lemma frame_parts: "p = leading_units h p @ slices h p"
  by (simp add: leading_units_def slices_def)

lemma leading_no_slice: "list_all (\<lambda>n. \<not> is_vcl h n) (leading_units h p)"
  by (auto simp: leading_units_def list_all_iff dest: set_takeWhileD)

lemma slices_head: "slices h p \<noteq> [] \<Longrightarrow> is_vcl h (hd (slices h p))"
  using hd_dropWhile [of "\<lambda>n. \<not> is_vcl h n" p] unfolding slices_def by blast

lemma frame_slices:
  assumes "documented_frame h p"
  shows "filter (is_vcl h) p = slices h p" "p \<noteq> []" "\<exists>v. is_vcl h v \<and> v \<in> set p"
proof -
  have s: "slices h p \<noteq> []" "list_all (is_vcl h) (tl (slices h p))"
    using assms by (auto simp: documented_frame_def list_all_iff)
  then have v: "is_vcl h (hd (slices h p))" using slices_head by blast
  then have "list_all (is_vcl h) (slices h p)" using s by (cases "slices h p") auto
  moreover have "filter (is_vcl h) (leading_units h p) = []"
    using leading_no_slice [of h p] by (simp add: filter_empty_conv list_all_iff)
  ultimately show "filter (is_vcl h) p = slices h p"
    using arg_cong [OF frame_parts [of p h], of "filter (is_vcl h)"] by (simp add: list_all_iff filter_id_conv)
  show "p \<noteq> []" using s(1) by (auto simp: slices_def)
  have "hd (slices h p) \<in> set p" using s(1) by (metis hd_in_set set_dropWhileD slices_def)
  with v show "\<exists>v. is_vcl h v \<and> v \<in> set p" by blast
qed

lemma group_leading:
  "list_all (\<lambda>n. \<not> is_vcl h n \<and> \<not> is_aud h n) ns \<Longrightarrow> foldl (group_step h) (aus, cur) ns = (aus, cur @ ns)"
  by (induction ns arbitrary: cur) (auto simp: group_step_def starts_new_AU_def)

lemma group_slice:
  assumes v: "is_vcl h v"
  shows "group_step h (aus, cur) v = (if list_ex (is_vcl h) cur then (aus @ [cur], [v]) else (aus, cur @ [v]))"
proof -
  have "\<not> is_aud h v" using aud_not_vcl v by blast
  with v show ?thesis by (cases "cur = []") (simp_all add: group_step_def starts_new_AU_def)
qed

text \<open>One frame of one slice, behind an access unit that has its slice or at the start.\<close>

lemma group_frame:
  assumes "documented_frame h p" "one_slice h p"
    and "cur = [] \<or> list_ex (is_vcl h) cur \<and> marked h p"
  shows "foldl (group_step h) (aus, cur) p = (if cur = [] then aus else aus @ [cur], p)"
proof -
  obtain v where s: "slices h p = [v]" using assms(2) by (auto simp: one_slice_def length_Suc_conv)
  have v: "is_vcl h v" using slices_head [of h p] s by simp
  let ?pre = "leading_units h p"
  have p: "p = ?pre @ [v]" using frame_parts [of p h] s by simp
  have pre: "list_all (\<lambda>n. \<not> is_vcl h n) ?pre" "list_all (\<lambda>n. \<not> is_aud h n) (tl ?pre)"
    using leading_no_slice assms(1) by (auto simp: documented_frame_def)
  show ?thesis
  proof (cases ?pre)
    case Nil
    then show ?thesis using p v assms(3) by (auto simp: group_slice)
  next
    case (Cons a ns)
    then have ns: "list_all (\<lambda>n. \<not> is_vcl h n \<and> \<not> is_aud h n) ns" and a: "\<not> is_vcl h a" and h: "hd p = a"
      using pre p by (auto simp: list_all_iff)
    have "group_step h (aus, cur) a = (if cur = [] then aus else aus @ [cur], [a])"
      using assms(3) a h by (auto simp: group_step_def starts_new_AU_def marked_def)
    moreover have "\<not> list_ex (is_vcl h) (a # ns)" using ns a by (auto simp: list_all_iff list_ex_iff)
    moreover have "p = (a # ns) @ [v]" using p Cons by simp
    ultimately show ?thesis using group_leading [OF ns] v by (auto simp: group_slice)
  qed
qed

lemma group_frames:
  assumes "list_all (documented_frame h) ps" "list_all (one_slice h) ps" "list_all (marked h) ps"
    and "list_ex (is_vcl h) cur"
  shows "(case foldl (group_step h) (aus, cur) (concat ps) of (aus', cur') \<Rightarrow> aus' @ [cur'] = aus @ [cur] @ ps \<and> cur' \<noteq> [])"
  using assms
proof (induction ps arbitrary: aus cur)
  case (Cons p ps)
  have p: "documented_frame h p" "one_slice h p" "marked h p" using Cons.prems(1-3) by simp_all
  have "list_ex (is_vcl h) p" using frame_slices(3) [OF p(1)] by (auto simp: list_ex_iff)
  moreover have "foldl (group_step h) (aus, cur) p = (aus @ [cur], p)"
    using group_frame [OF p(1,2), of cur aus] p(3) Cons.prems(4) by (auto simp: list_ex_iff)
  ultimately show ?case using Cons.IH [of p "aus @ [cur]"] Cons.prems(1-3) by simp
qed auto

lemma group_documented:
  assumes "list_all (documented_frame h) ps" "list_all (one_slice h) ps" "list_all (marked h) (tl ps)"
  shows "GroupIntoAccessUnits h (concat ps) = ps"
proof (cases ps)
  case (Cons p rest)
  have p: "documented_frame h p" "one_slice h p" using assms Cons by simp_all
  have v: "list_ex (is_vcl h) p" using frame_slices(3) [OF p(1)] by (auto simp: list_ex_iff)
  have "foldl (group_step h) ([], []) (concat ps) = foldl (group_step h) ([], p) (concat rest)"
    using group_frame [OF p, of "[]" "[]"] Cons by simp
  then show ?thesis
    using group_frames [OF _ _ _ v, of rest "[]"] assms Cons frame_slices(2) [OF p(1)]
    by (auto simp: GroupIntoAccessUnits_def split: prod.splits)
qed (simp add: GroupIntoAccessUnits_def)

lemma grouped_one_slice:
  assumes "list_all (documented_frame h) ps" "GroupIntoAccessUnits h nals = ps"
  shows "list_all (one_slice h) ps \<and> list_all (marked h) (tl ps)"
proof
  have "one_slice h p" if "p \<in> set ps" for p
  proof -
    have "documented_frame h p" "au_ok h p" using that assms units_kept [of h nals] by (auto simp: list_all_iff)
    then have "length (slices h p) \<le> 1" "slices h p \<noteq> []"
      using frame_slices(1) by (auto simp: au_ok_def documented_frame_def)
    then show ?thesis by (cases "slices h p") (auto simp: one_slice_def)
  qed
  then show "list_all (one_slice h) ps" by (simp add: list_all_iff)
  have "list_all (marked h) (tl aus)" if "successively (au_cut h) aus" for aus
    using that by (induction aus rule: induct_list012)
      (auto simp: au_cut_def starts_new_AU_def marked_def split: if_splits)
  with units_cut [of h nals] assms(2) show "list_all (marked h) (tl ps)" by blast
qed

text \<open>C18: access units are the frames of the stream exactly when the code can tell: for any stream of
  frames grouped as design.md says, of H.264 or H.265, \<open>GroupIntoAccessUnits\<close> gives back these frames if
  and only if every frame has a single slice and every frame but the first begins with a delimiter
  or with its slice. Otherwise too every unit is kept, in order, and no access unit is empty.\<close>

theorem GroupIntoAccessUnits_frames:
  assumes "list_all (documented_frame h) frames"
  shows "concat (GroupIntoAccessUnits h (concat frames)) = concat frames \<and> [] \<notin> set (GroupIntoAccessUnits h (concat frames))
    \<and> (GroupIntoAccessUnits h (concat frames) = frames
       \<longleftrightarrow> list_all (one_slice h) frames \<and> list_all (marked h) (tl frames))"
proof -
  have "[] \<notin> set (GroupIntoAccessUnits h (concat frames))"
    using units_kept [of h "concat frames"] by (auto simp: list_all_iff au_ok_def)
  then show ?thesis
    using units_kept [of h "concat frames"] group_documented [OF assms] grouped_one_slice [OF assms] by blast
qed

text \<open>The two cases in which it is not as documented: a frame of two slices becomes two access units, and
  parameter sets between two frames go with the one before.\<close>

lemma two_slices_split:
  "GroupIntoAccessUnits False [[0, 0, 0, 1, 0x65, 0x88], [0, 0, 0, 1, 0x65, 0x48]]
    = [[[0, 0, 0, 1, 0x65, 0x88]], [[0, 0, 0, 1, 0x65, 0x48]]]
   \<and> documented_frame False [[0, 0, 0, 1, 0x65, 0x88], [0, 0, 0, 1, 0x65, 0x48]]"
  by code_simp

lemma parameter_sets_with_previous:
  "GroupIntoAccessUnits False [[0, 0, 0, 1, 0x41, 0x88], [0, 0, 0, 1, 0x67, 1], [0, 0, 0, 1, 0x68, 2], [0, 0, 0, 1, 0x65, 0x88]]
    = [[[0, 0, 0, 1, 0x41, 0x88], [0, 0, 0, 1, 0x67, 1], [0, 0, 0, 1, 0x68, 2]], [[0, 0, 0, 1, 0x65, 0x88]]]
   \<and> documented_frame False [[0, 0, 0, 1, 0x67, 1], [0, 0, 0, 1, 0x68, 2], [0, 0, 0, 1, 0x65, 0x88]]"
  by code_simp

section \<open>Witnesses\<close>

theorem GroupIntoAccessUnits_frames_witness:
  "GroupIntoAccessUnits False ([[0, 0, 0, 1, 0x67, 1], [0, 0, 0, 1, 0x68, 2], [0, 0, 0, 1, 0x65, 0x88]]
       @ [[0, 0, 1, 0x41, 0x9A]] @ [[0, 0, 0, 1, 9, 0xF0], [0, 0, 0, 1, 6, 5], [0, 0, 1, 0x41, 0x9B]])
    = [[[0, 0, 0, 1, 0x67, 1], [0, 0, 0, 1, 0x68, 2], [0, 0, 0, 1, 0x65, 0x88]],
       [[0, 0, 1, 0x41, 0x9A]], [[0, 0, 0, 1, 9, 0xF0], [0, 0, 0, 1, 6, 5], [0, 0, 1, 0x41, 0x9B]]]"
proof -
  let ?frames = "[[[0, 0, 0, 1, 0x67, 1], [0, 0, 0, 1, 0x68, 2], [0, 0, 0, 1, 0x65, 0x88]],
    [[0, 0, 1, 0x41, 0x9A]], [[0, 0, 0, 1, 9, 0xF0], [0, 0, 0, 1, 6, 5], [0, 0, 1, 0x41, 0x9B]]]"
  have "list_all (documented_frame False) ?frames" by code_simp
  moreover have "list_all (one_slice False) ?frames \<and> list_all (marked False) (tl ?frames)" by code_simp
  ultimately show ?thesis using GroupIntoAccessUnits_frames [of False ?frames] by simp
qed

definition sample_units :: "annexb_unit list" where
  "sample_units = [(True, [0x67, 1]), (False, [0x68, 2]), (False, [0x65, 0, 3])]"

lemma sample_units_escaped: "\<forall>(four, p) \<in> set sample_units. escaped p"
  by (simp add: sample_units_def escaped_def)

theorem ParseNalUnits_stream_witness:
  "ParseNalUnits (concat (map unit_bytes sample_units)) = map unit_bytes sample_units"
  using ParseNalUnits_stream [of "[0x67, 1]" "[(False, [0x68, 2]), (False, [0x65, 0, 3])]"]
    sample_units_escaped unfolding sample_units_def by blast

theorem ParseNalUnits_partition_witness:
  "concat (ParseNalUnits [9, 0, 0, 1, 0x65, 7]) = drop 1 [9, 0, 0, 1, 0x65, 7]"
proof -
  have "code_at [9, 0, 0, 1, 0x65, 7] 1" "\<not> code_at [9, 0, 0, 1, 0x65, 7] 0"
    by (simp_all add: code_at_def)
  have p: "ParseNalUnits [9, 0, 0, 1, 0x65, 7] = [[0, 0, 1, 0x65, 7]]" by code_simp
  obtain n where n: "concat (ParseNalUnits [9, 0, 0, 1, 0x65, 7]) = drop n [9, 0, 0, 1, 0x65, 7]"
    "\<forall>k<n. \<not> code_at [9, 0, 0, 1, 0x65, 7] k"
    using ParseNalUnits_partition [of "[9, 0, 0, 1, 0x65, 7]"] by blast
  then have "n \<le> 1" using \<open>code_at [9, 0, 0, 1, 0x65, 7] 1\<close> by (meson not_le)
  with n(1) p show ?thesis by (cases n) simp_all
qed

end
