(* ===== verification/Text.thy ===== *)
theory Text
  imports Prelude
begin

text \<open>
  The text handling of the server: the opening handshake of src/server/websocket.cpp and the JSON
  field extraction of src/server/main.cpp. A \<open>std::string\<close> is its list of bytes; \<open>str\<close> writes
  a literal. SHA-1 and Base64 are mbedTLS functions, the parameters \<open>sha1\<close> and \<open>base64\<close>.
\<close>

definition str :: "string \<Rightarrow> byte list" where
  "str s = map of_char s"

section \<open>Searching\<close>

text \<open>The first position at which a list occurs in another; \<open>std::string::find\<close> from a position,
  \<open>None\<close> for \<open>npos\<close>.\<close>

primrec find_sub :: "'a list \<Rightarrow> 'a list \<Rightarrow> nat option" where
  "find_sub needle [] = (if needle = [] then Some 0 else None)"
| "find_sub needle (x # xs) =
    (if take (length needle) (x # xs) = needle then Some 0 else map_option Suc (find_sub needle xs))"

definition str_find :: "byte list \<Rightarrow> byte list \<Rightarrow> nat \<Rightarrow> nat option" where
  "str_find hay needle pos =
    (if pos \<le> length hay then map_option (\<lambda>i. pos + i) (find_sub needle (drop pos hay)) else None)"

text \<open>\<open>substr(pos, n)\<close> with \<open>pos\<close> inside the string.\<close>

definition substr :: "byte list \<Rightarrow> nat \<Rightarrow> nat \<Rightarrow> byte list" where
  "substr s pos n = take n (drop pos s)"

section \<open>The opening handshake\<close>

definition WS_GUID :: "byte list" where
  "WS_GUID = str ''258EAFA5-E914-47DA-95CA-C5AB0DC85B11''"

definition IsHttpRequest :: "byte list \<Rightarrow> bool" where
  "IsHttpRequest dat = (if length dat < 4 then False else take 4 dat = str ''GET '')"

definition ComputeAcceptKey ::
  "(byte list \<Rightarrow> byte list) \<Rightarrow> (byte list \<Rightarrow> byte list) \<Rightarrow> byte list \<Rightarrow> byte list" where
  "ComputeAcceptKey sha1 base64 key = base64 (sha1 (key @ WS_GUID))"

definition space :: byte where "space = 0x20"

text \<open>The loops that skip spaces before the key and drop them after it.\<close>

definition skip_spaces :: "byte list \<Rightarrow> nat \<Rightarrow> nat" where
  "skip_spaces s pos = pos + length (takeWhile (\<lambda>c. c = space) (drop pos s))"

definition trim_end :: "byte list \<Rightarrow> byte list" where
  "trim_end s = rev (dropWhile (\<lambda>c. c = space) (rev s))"

definition CRLF :: "byte list" where "CRLF = [13, 10]"

definition HandleHandshake ::
  "(byte list \<Rightarrow> byte list) \<Rightarrow> (byte list \<Rightarrow> byte list) \<Rightarrow> byte list \<Rightarrow> byte list option" where
  "HandleHandshake sha1 base64 request =
    do {
      let keyHeader = str ''Sec-WebSocket-Key:'';
      keyPos \<leftarrow> str_find request keyHeader 0;
      let keyPos = skip_spaces request (keyPos + length keyHeader);
      keyEnd \<leftarrow> str_find request CRLF keyPos;
      let wsKey = trim_end (substr request keyPos (keyEnd - keyPos));
      Some (str ''HTTP/1.1 101 Switching Protocols'' @ CRLF
        @ str ''Upgrade: websocket'' @ CRLF
        @ str ''Connection: Upgrade'' @ CRLF
        @ str ''Sec-WebSocket-Accept: '' @ ComputeAcceptKey sha1 base64 wsKey @ CRLF
        @ CRLF)
    }"

section \<open>JSON fields\<close>

definition quote :: byte where "quote = 0x22"
definition colon :: byte where "colon = 0x3A"

definition ExtractJsonString :: "byte list \<Rightarrow> byte list \<Rightarrow> byte list" where
  "ExtractJsonString json key =
    (let searchKey = [quote] @ key @ [quote] in
     case do {
       pos \<leftarrow> str_find json searchKey 0;
       pos \<leftarrow> str_find json [colon] (pos + length searchKey);
       pos \<leftarrow> str_find json [quote] (pos + 1);
       e \<leftarrow> str_find json [quote] (pos + 1);
       Some (substr json (pos + 1) (e - pos - 1))
     } of None \<Rightarrow> [] | Some v \<Rightarrow> v)"

definition is_json_space :: "byte \<Rightarrow> bool" where
  "is_json_space c \<longleftrightarrow> c = 0x20 \<or> c = 0x09 \<or> c = 0x0A \<or> c = 0x0D"

definition ExtractJsonBool :: "byte list \<Rightarrow> byte list \<Rightarrow> bool \<Rightarrow> bool" where
  "ExtractJsonBool json key defaultVal =
    (let searchKey = [quote] @ key @ [quote] in
     case do {
       pos \<leftarrow> str_find json searchKey 0;
       pos \<leftarrow> str_find json [colon] (pos + length searchKey);
       let pos = pos + 1;
       let pos = pos + length (takeWhile is_json_space (drop pos json));
       if pos + 4 \<le> length json \<and> substr json pos 4 = str ''true'' then Some True
       else if pos + 5 \<le> length json \<and> substr json pos 5 = str ''false'' then Some False
       else None
     } of None \<Rightarrow> defaultVal | Some b \<Rightarrow> b)"

section \<open>Facts on searching\<close>

text \<open>\<open>needle\<close> occurs first right behind \<open>pre\<close>.\<close>

definition first_at :: "'a list \<Rightarrow> 'a list \<Rightarrow> 'a list \<Rightarrow> bool" where
  "first_at pre needle post \<longleftrightarrow> find_sub needle (pre @ needle @ post) = Some (length pre)"

lemma str_find_first:
  assumes "first_at mid needle post" and "pos = length pre"
  shows "str_find (pre @ mid @ needle @ post) needle pos = Some (pos + length mid)"
  using assms by (simp add: str_find_def first_at_def)

lemma find_sub_single: "c \<notin> set mid \<Longrightarrow> first_at mid [c] post"
  unfolding first_at_def by (induction mid) auto

lemma takeWhile_all_append:
  "(\<forall>x\<in>set xs. P x) \<Longrightarrow> ys \<noteq> [] \<Longrightarrow> \<not> P (hd ys) \<Longrightarrow> takeWhile P (xs @ ys) = xs"
  by (cases ys) (simp_all add: takeWhile_append)

lemma drop_front: "drop (length xs) (xs @ ys) = ys"
  by simp

lemma find_CRLF:
  "13 \<notin> set mid \<Longrightarrow> first_at mid CRLF post"
  unfolding first_at_def CRLF_def by (induction mid) auto

section \<open>Properties\<close>

text \<open>C29: a client whose request carries a \<open>Sec-WebSocket-Key\<close> header, with any spaces around the key,
  is answered with status 101 and the accept key computed from exactly that key, wherever the
  header stands.\<close>

theorem HandleHandshake_accepts:
  assumes "first_at pre (str ''Sec-WebSocket-Key:'') (spaces @ key @ spaces' @ CRLF @ post)"
    and "set spaces \<subseteq> {space}" and "set spaces' \<subseteq> {space}"
    and "key \<noteq> []" and "hd key \<noteq> space" and "last key \<noteq> space" and "13 \<notin> set key"
  shows "HandleHandshake sha1 base64 (pre @ str ''Sec-WebSocket-Key:'' @ spaces @ key @ spaces' @ CRLF @ post)
    = Some (str ''HTTP/1.1 101 Switching Protocols'' @ CRLF @ str ''Upgrade: websocket'' @ CRLF
        @ str ''Connection: Upgrade'' @ CRLF @ str ''Sec-WebSocket-Accept: ''
        @ base64 (sha1 (key @ WS_GUID)) @ CRLF @ CRLF)"
proof -
  let ?H = "str ''Sec-WebSocket-Key:''"
  let ?r = "pre @ ?H @ spaces @ key @ spaces' @ CRLF @ post"
  have find1: "str_find ?r ?H 0 = Some (length pre)"
    using assms(1) by (simp add: str_find_def first_at_def)
  have "takeWhile (\<lambda>c. c = space) (spaces @ key @ spaces' @ CRLF @ post) = spaces"
    by (rule takeWhile_all_append) (use assms(2,4,5) in auto)
  then have skip: "skip_spaces ?r (length pre + length ?H) = length (pre @ ?H @ spaces)"
    by (simp add: skip_spaces_def)
  have "13 \<notin> set (key @ spaces')" using assms(3,7) by (auto simp: space_def)
  from str_find_first [OF find_CRLF [OF this] refl, of "pre @ ?H @ spaces" post]
  have find2: "str_find ?r CRLF (length (pre @ ?H @ spaces))
      = Some (length (pre @ ?H @ spaces) + length (key @ spaces'))" by simp
  have sub: "substr ?r (length (pre @ ?H @ spaces)) (length (key @ spaces')) = key @ spaces'"
    by (simp add: substr_def)
  have "trim_end (key @ spaces') = key"
  proof -
    have "dropWhile (\<lambda>c. c = space) (rev spaces' @ rev key) = rev key"
      using assms(3,4,6) by (subst dropWhile_append2) (auto simp: dropWhile_eq_self_iff hd_rev)
    then show ?thesis by (simp add: trim_end_def)
  qed
  then show ?thesis
    unfolding HandleHandshake_def Let_def using find1 skip find2 sub
    by (simp add: ComputeAcceptKey_def del: append_assoc length_append)
qed

lemma find_json_key:
  assumes "first_at pre ([quote] @ key @ [quote]) (mid @ [colon] @ rest)" and "colon \<notin> set mid"
    and j: "j = pre @ ([quote] @ key @ [quote]) @ mid @ [colon] @ rest"
  shows "str_find j ([quote] @ key @ [quote]) 0 = Some (length pre)"
    and "str_find j [colon] (length pre + length ([quote] @ key @ [quote]))
      = Some (length (pre @ ([quote] @ key @ [quote]) @ mid))"
proof -
  show "str_find j ([quote] @ key @ [quote]) 0 = Some (length pre)"
    unfolding j using assms(1) by (simp only: str_find_def first_at_def drop_0) simp
  show "str_find j [colon] (length pre + length ([quote] @ key @ [quote]))
      = Some (length (pre @ ([quote] @ key @ [quote]) @ mid))"
    unfolding j
    using str_find_first [OF find_sub_single [OF assms(2)] refl, of "pre @ ([quote] @ key @ [quote])" rest] by simp
qed

text \<open>The string field of a negotiation message is extracted whole, wherever its key first stands
  and with any white space around the colon.\<close>

theorem ExtractJsonString_field:
  assumes "first_at pre ([quote] @ key @ [quote]) (mid @ [colon] @ ws @ [quote] @ v @ [quote] @ post)"
    and "colon \<notin> set mid" and "set ws \<subseteq> Collect is_json_space" and "quote \<notin> set v"
  shows "ExtractJsonString (pre @ ([quote] @ key @ [quote]) @ mid @ [colon] @ ws @ [quote] @ v @ [quote] @ post) key = v"
proof -
  let ?K = "[quote] @ key @ [quote]"
  let ?j = "pre @ ?K @ mid @ [colon] @ ws @ [quote] @ v @ [quote] @ post"
  let ?p = "length (pre @ ?K @ mid)"
  have nq: "quote \<notin> set ws" using assms(3) by (auto simp: is_json_space_def quote_def)
  note find12 = find_json_key [OF assms(1,2) refl]
  have find3: "str_find ?j [quote] (?p + 1) = Some (?p + 1 + length ws)"
    using str_find_first [OF find_sub_single [OF nq] refl, of "pre @ ?K @ mid @ [colon]" "v @ [quote] @ post"]
    by simp
  have find4: "str_find ?j [quote] (?p + 1 + length ws + 1) = Some (?p + 1 + length ws + 1 + length v)"
    using str_find_first [OF find_sub_single [OF assms(4)] refl, of "pre @ ?K @ mid @ [colon] @ ws @ [quote]" post]
    by (simp add: add.assoc)
  have len: "?p + 1 + length ws + 1 + length v - (?p + 1 + length ws) - 1 = length v" by simp
  have front: "?j = (pre @ ?K @ mid @ [colon] @ ws @ [quote]) @ v @ [quote] @ post"
    "?p + 1 + length ws + 1 = length (pre @ ?K @ mid @ [colon] @ ws @ [quote])" by simp_all
  have "substr ?j (?p + 1 + length ws + 1) (length v) = v"
    unfolding substr_def front drop_front by simp
  then show ?thesis
    unfolding ExtractJsonString_def Let_def find12 bind.simps find3 find4 option.case len .
qed

text \<open>The boolean field of a negotiation message is read past JSON white space, and the default is
  not used.\<close>

theorem ExtractJsonBool_field:
  assumes "first_at pre ([quote] @ key @ [quote]) (mid @ [colon] @ ws @ str (if b then ''true'' else ''false'') @ post)"
    and "colon \<notin> set mid" and "set ws \<subseteq> Collect is_json_space"
  shows "ExtractJsonBool (pre @ ([quote] @ key @ [quote]) @ mid @ [colon] @ ws
      @ str (if b then ''true'' else ''false'') @ post) key d = b"
proof -
  let ?K = "[quote] @ key @ [quote]"
  let ?val = "str (if b then ''true'' else ''false'')"
  let ?j = "pre @ ?K @ mid @ [colon] @ ws @ ?val @ post"
  let ?p = "length (pre @ ?K @ mid) + 1"
  note find12 = find_json_key [OF assms(1,2) refl]
  have ne: "?val \<noteq> []" "\<not> is_json_space (hd ?val)" by (auto simp: str_def is_json_space_def)
  have front: "?j = (pre @ ?K @ mid @ [colon]) @ ws @ ?val @ post" "?p = length (pre @ ?K @ mid @ [colon])"
    by simp_all
  have dr: "drop ?p ?j = ws @ ?val @ post" unfolding front by (rule drop_front)
  have tw: "takeWhile is_json_space (ws @ ?val @ post) = ws"
    by (rule takeWhile_all_append) (use assms(3) ne in auto)
  have "drop (?p + length ws) ?j = drop (length ws) (drop ?p ?j)"
    by (simp only: drop_drop add.commute)
  then have "drop (?p + length ws) ?j = ?val @ post" by (simp only: dr drop_front)
  then have sub: "substr ?j (?p + length ws) n = take n (?val @ post)" for n by (simp add: substr_def)
  have l: "?p + length ws + (if b then 4 else 5) \<le> length ?j" by (simp add: str_def)
  have t: "take 4 (?val @ post) = str ''true'' \<longleftrightarrow> b" "\<not> b \<Longrightarrow> take 5 (?val @ post) = str ''false''"
    by (auto simp: str_def)
  show ?thesis
    unfolding ExtractJsonBool_def Let_def find12 bind.simps dr tw sub
    using l t by (cases b) simp_all
qed

section \<open>Witnesses\<close>

theorem HandleHandshake_accepts_witness:
  "HandleHandshake (\<lambda>m. m) (\<lambda>m. m)
     (str ''GET / '' @ CRLF @ str ''Sec-WebSocket-Key:'' @ str '' '' @ str ''dGhl'' @ [] @ CRLF @ CRLF)
   = Some (str ''HTTP/1.1 101 Switching Protocols'' @ CRLF @ str ''Upgrade: websocket'' @ CRLF
        @ str ''Connection: Upgrade'' @ CRLF @ str ''Sec-WebSocket-Accept: ''
        @ (\<lambda>m. m) ((\<lambda>m. m) (str ''dGhl'' @ WS_GUID)) @ CRLF @ CRLF)"
proof -
  have "first_at (str ''GET / '' @ CRLF) (str ''Sec-WebSocket-Key:'') (str '' '' @ str ''dGhl'' @ [] @ CRLF @ CRLF)"
    by code_simp
  from HandleHandshake_accepts [OF this, of "\<lambda>m. m" "\<lambda>m. m"] show ?thesis
    by (simp add: str_def space_def)
qed

theorem ExtractJsonString_field_witness:
  "ExtractJsonString ([0x7B] @ ([quote] @ str ''type'' @ [quote]) @ [] @ [colon] @ [0x20] @ [quote]
     @ str ''media-answer'' @ [quote] @ [0x7D]) (str ''type'') = str ''media-answer''"
proof -
  have "first_at [0x7B] ([quote] @ str ''type'' @ [quote])
    ([] @ [colon] @ [0x20] @ [quote] @ str ''media-answer'' @ [quote] @ [0x7D])" by code_simp
  from ExtractJsonString_field [OF this] show ?thesis
    by (simp add: str_def quote_def is_json_space_def)
qed

theorem ExtractJsonBool_field_witness:
  "ExtractJsonBool ([0x7B] @ ([quote] @ str ''accepted'' @ [quote]) @ [] @ [colon] @ [0x20]
     @ str (if True then ''true'' else ''false'') @ [0x7D]) (str ''accepted'') False = True"
proof -
  have "first_at [0x7B] ([quote] @ str ''accepted'' @ [quote])
    ([] @ [colon] @ [0x20] @ str (if True then ''true'' else ''false'') @ [0x7D])" by code_simp
  from ExtractJsonBool_field [OF this, of False] show ?thesis
    by (simp add: is_json_space_def)
qed

end
