(* ===== verification/MediaSource.thy ===== *)
theory MediaSource
  imports SpsParser NalParser FrameEncoder Text
begin

text \<open>
  The media the server plays: a raw H.264 or H.265 file (\<open>NalParser::LoadFile\<close> of
  src/server/nal_parser.cpp) or an MP4 file (src/server/mp4_demuxer.cpp), and how
  src/server/main.cpp tells the type of a frame. The demuxer is FFmpeg: what it yields (streams,
  packets, the output of its bitstream filter) is an argument. A \<open>double\<close> is a rational number.
\<close>

section \<open>Raw files\<close>

record nal_source =
  ns_isH265 :: bool
  ns_nalUnits :: "byte list list"
  ns_accessUnits :: "byte list list list"
  ns_frameRate :: rat

text \<open>The frame rate of the first parameter set.\<close>

fun sps_frame_rate :: "bool \<Rightarrow> byte list list \<Rightarrow> rat option" where
  "sps_frame_rate isH265 [] = Some DEFAULT_FPS"
| "sps_frame_rate isH265 (nal # nals) =
    (if GetNalType isH265 nal = (if isH265 then 33 else 7) then
       if isH265 then ParseH265Fps nal else ParseH264Fps nal
     else sps_frame_rate isH265 nals)"

text \<open>\<open>file\<close> is the contents, \<open>None\<close> when the file cannot be opened or read; the inner \<open>None\<close> of the
  result is \<open>return false\<close>, the outer one undefined behaviour.\<close>

definition NalLoadFile :: "byte list option \<Rightarrow> bool \<Rightarrow> nal_source option option" where
  "NalLoadFile file isH265 =
    (case file of None \<Rightarrow> Some None
     | Some buffer \<Rightarrow> do {
         let nalUnits = ParseNalUnits buffer;
         fps \<leftarrow> sps_frame_rate isH265 nalUnits;
         Some (Some \<lparr>ns_isH265 = isH265, ns_nalUnits = nalUnits,
                     ns_accessUnits = GroupIntoAccessUnits isH265 nalUnits, ns_frameRate = fps\<rparr>)
       })"

section \<open>MP4 files\<close>

datatype MediaType = MEDIA_VIDEO | MEDIA_AUDIO

record MediaPacket =
  p_type :: MediaType
  p_data :: "byte list"
  ptsMs :: int

record AudioInfo =
  a_codecName :: "byte list"
  a_sampleRate :: int
  a_channels :: int
  a_present :: bool

record VideoInfo =
  v_codecName :: "byte list"
  v_frameRate :: rat
  v_isH265 :: bool
  v_present :: bool

record mp4_demuxer =
  videoInfo :: VideoInfo
  audioInfo :: AudioInfo
  packets :: "MediaPacket list"

definition Mp4Demuxer :: mp4_demuxer where
  "Mp4Demuxer = \<lparr>videoInfo = \<lparr>v_codecName = [], v_frameRate = 0, v_isH265 = False, v_present = False\<rparr>,
     audioInfo = \<lparr>a_codecName = [], a_sampleRate = 0, a_channels = 0, a_present = False\<rparr>, packets = []\<rparr>"

text \<open>What FFmpeg reports of the streams and packets of a file.\<close>

datatype av_codec_type = AV_VIDEO | AV_AUDIO | AV_OTHER_TYPE
datatype av_codec_id = AV_H264 | AV_HEVC | AV_AAC | AV_PCM_ALAW | AV_PCM_MULAW | AV_ADPCM_G726 | AV_OTHER_ID

record av_stream =
  codec_type :: av_codec_type
  codec_id :: av_codec_id
  avg_frame_rate :: "int \<times> int"
  r_frame_rate :: "int \<times> int"
  sample_rate :: int
  nb_channels :: int
  time_base :: "int \<times> int"

type_synonym av_packet = "byte list \<times> int option"

text \<open>A frame read from the file, whether the filter takes it and what the filter then yields.\<close>

record av_frame =
  stream_index :: nat
  av_data :: av_packet
  bsf_sent :: bool
  bsf_out :: "av_packet list"

record av_file =
  opened :: bool
  stream_info :: bool
  streams :: "av_stream list"
  bsf_ready :: bool
  packet_allocated :: bool
  frames :: "av_frame list"

text \<open>The first video and the first audio stream.\<close>

fun pick_streams :: "nat \<Rightarrow> av_stream list \<Rightarrow> nat option \<times> nat option \<Rightarrow> nat option \<times> nat option" where
  "pick_streams i [] (v, a) = (v, a)"
| "pick_streams i (s # ss) (v, a) =
    (if codec_type s = AV_VIDEO \<and> v = None then pick_streams (i + 1) ss (Some i, a)
     else if codec_type s = AV_AUDIO \<and> a = None then pick_streams (i + 1) ss (v, Some i)
     else pick_streams (i + 1) ss (v, a))"

definition av_q2d :: "int \<times> int \<Rightarrow> rat" where
  "av_q2d q = of_int (fst q) / of_int (snd q)"

definition video_info :: "av_stream \<Rightarrow> VideoInfo" where
  "video_info s =
     \<lparr>v_codecName = (if codec_id s = AV_HEVC then str ''h265'' else str ''h264''),
       v_frameRate = (if snd (avg_frame_rate s) > 0 then av_q2d (avg_frame_rate s)
                      else if snd (r_frame_rate s) > 0 then av_q2d (r_frame_rate s) else 25),
       v_isH265 = (codec_id s = AV_HEVC), v_present = True\<rparr>"

definition audio_codec_name :: "av_codec_id \<Rightarrow> byte list option" where
  "audio_codec_name c = (case c of AV_AAC \<Rightarrow> Some (str ''aac'') | AV_PCM_ALAW \<Rightarrow> Some (str ''pcm_alaw'')
     | AV_PCM_MULAW \<Rightarrow> Some (str ''pcm_mulaw'') | AV_ADPCM_G726 \<Rightarrow> Some (str ''g726'') | _ \<Rightarrow> None)"

definition audio_info :: "av_stream option \<Rightarrow> AudioInfo \<Rightarrow> AudioInfo" where
  "audio_info stream old =
    (case stream of None \<Rightarrow> old
     | Some s \<Rightarrow> (case audio_codec_name (codec_id s) of None \<Rightarrow> old
        | Some name \<Rightarrow> \<lparr>a_codecName = name, a_sampleRate = sample_rate s, a_channels = nb_channels s,
                        a_present = True\<rparr>))"

text \<open>\<open>rescale\<close> is \<open>av_rescale_q\<close> to milliseconds.\<close>

definition media_packet :: "(int \<Rightarrow> int \<times> int \<Rightarrow> int) \<Rightarrow> MediaType \<Rightarrow> int \<times> int \<Rightarrow> av_packet \<Rightarrow> MediaPacket" where
  "media_packet rescale ty tb p =
     \<lparr>p_type = ty, p_data = fst p, ptsMs = (case snd p of None \<Rightarrow> 0 | Some pts \<Rightarrow> rescale pts tb)\<rparr>"

definition packets_of_frame ::
  "(int \<Rightarrow> int \<times> int \<Rightarrow> int) \<Rightarrow> av_stream list \<Rightarrow> nat \<Rightarrow> nat option \<Rightarrow> bool \<Rightarrow> av_frame \<Rightarrow> MediaPacket list" where
  "packets_of_frame rescale ss videoStreamIndex audioStreamIndex audio_present f =
    (if stream_index f \<noteq> videoStreamIndex \<and> Some (stream_index f) \<noteq> audioStreamIndex then []
     else if Some (stream_index f) = audioStreamIndex \<and> \<not> audio_present then []
     else
       let tb = time_base (ss ! stream_index f) in
       if stream_index f = videoStreamIndex then
         if \<not> bsf_sent f then [] else map (media_packet rescale MEDIA_VIDEO tb) (bsf_out f)
       else [media_packet rescale MEDIA_AUDIO tb (av_data f)])"

text \<open>\<open>std::sort\<close> may order packets of the same time either way; the model keeps their order.\<close>

definition Mp4LoadFile ::
  "(int \<Rightarrow> int \<times> int \<Rightarrow> int) \<Rightarrow> av_file \<Rightarrow> mp4_demuxer \<Rightarrow> bool \<times> mp4_demuxer" where
  "Mp4LoadFile rescale file d =
    (if \<not> opened file then (False, d)
     else if \<not> stream_info file then (False, d)
     else (case pick_streams 0 (streams file) (None, None) of
       (None, _) \<Rightarrow> (False, d)
     | (Some vi, ai) \<Rightarrow>
         let d1 = d\<lparr>videoInfo := video_info (streams file ! vi)\<rparr> in
         if \<not> bsf_ready file then (False, d1)
         else
           let d2 = d1\<lparr>audioInfo := audio_info (map_option ((!) (streams file)) ai) (audioInfo d1)\<rparr> in
           if \<not> packet_allocated file then (False, d2)
           else
             let ps = packets d2 @ concat (map (packets_of_frame rescale (streams file) vi ai
                        (a_present (audioInfo d2))) (frames file))
             in (True, d2\<lparr>packets := sort_key ptsMs ps\<rparr>)))"

definition GetPacket :: "MediaPacket list \<Rightarrow> nat \<Rightarrow> MediaPacket option" where
  "GetPacket ps index = (if index \<ge> length ps then None else Some (ps ! index))"

definition Mp4GetFrameRate :: "mp4_demuxer \<Rightarrow> rat" where
  "Mp4GetFrameRate d =
    (if v_present (videoInfo d) \<and> v_frameRate (videoInfo d) > 0 then v_frameRate (videoInfo d) else 25)"

section \<open>Types of frames\<close>

definition AudioCodecNameToEnum :: "byte list \<Rightarrow> AudioCodec" where
  "AudioCodecNameToEnum name =
    (if name = str ''pcm_alaw'' then G711A
     else if name = str ''pcm_mulaw'' then G711U
     else if name = str ''g726'' then G726
     else if name = str ''aac'' then AAC
     else AAC)"

text \<open>The type a NAL unit gives to its access unit, if it gives one.\<close>

definition nal_frame_type :: "bool \<Rightarrow> byte list \<Rightarrow> VideoFrameType option" where
  "nal_frame_type isH265 nal =
    (let offset = sps_offset nal in
     if offset = 0 \<or> offset \<ge> length nal then None
     else if isH265 then
       let nalType = drop_bit 1 (nal ! offset) AND 0x3F in
       if nalType = 32 then Some VPS
       else if nalType = 33 \<or> nalType = 34 then Some SPS_PPS
       else if nalType = 19 \<or> nalType = 20 then Some IDR
       else if 16 \<le> nalType \<and> nalType \<le> 23 then Some I_FRAME
       else if 0 \<le> nalType \<and> nalType \<le> 15 then Some P_FRAME
       else None
     else
       let nalType = nal ! offset AND 0x1F in
       if nalType = 7 \<or> nalType = 8 then Some SPS_PPS
       else if nalType = 5 then Some IDR
       else if nalType = 1 then Some P_FRAME
       else None)"

fun DetectFrameType :: "bool \<Rightarrow> byte list list \<Rightarrow> VideoFrameType" where
  "DetectFrameType isH265 [] = P_FRAME"
| "DetectFrameType isH265 (nal # nals) =
    (case nal_frame_type isH265 nal of None \<Rightarrow> DetectFrameType isH265 nals | Some t \<Rightarrow> t)"

definition DetectFrameTypeFromPacket :: "bool \<Rightarrow> byte list \<Rightarrow> VideoFrameType" where
  "DetectFrameTypeFromPacket isH265 dat =
    (if length dat < 5 then P_FRAME
     else
       let offset = (if dat ! 0 = 0 \<and> dat ! 1 = 0 then
                       if dat ! 2 = 0 \<and> dat ! 3 = 1 then 4 else if dat ! 2 = 1 then 3 else 0
                     else 0);
           offset = (if offset = 0 \<and> length dat \<ge> 5 then 4 else offset)
       in if offset \<ge> length dat then P_FRAME
          else if isH265 then
            let nalType = drop_bit 1 (dat ! offset) AND 0x3F in
            if nalType = 32 then VPS
            else if nalType = 33 \<or> nalType = 34 then SPS_PPS
            else if nalType = 19 \<or> nalType = 20 then IDR
            else if 16 \<le> nalType \<and> nalType \<le> 23 then I_FRAME
            else P_FRAME
          else
            let nalType = dat ! offset AND 0x1F in
            if nalType = 7 \<or> nalType = 8 then SPS_PPS
            else if nalType = 5 then IDR
            else P_FRAME)"

end
