(* ===== verification/Decimals.thy ===== *)
theory Decimals
  imports Text
begin

text \<open>
  The parts of the C library that the server uses on numbers and dates: decimal digits of \<open>printf\<close>,
  \<open>atoi\<close>, and \<open>gmtime\<close> with the format \<open>%Y%m%d%H%M%S\<close> of \<open>strftime\<close>.
\<close>

section \<open>Decimal numbers\<close>

fun digits :: "nat \<Rightarrow> byte list" where
  "digits n = (if n < 10 then [of_nat (48 + n)] else digits (n div 10) @ [of_nat (48 + n mod 10)])"

declare digits.simps [simp del]

definition is_digit :: "byte \<Rightarrow> bool" where
  "is_digit c \<longleftrightarrow> 48 \<le> c \<and> c \<le> 57"

fun read_digits :: "nat \<Rightarrow> byte list \<Rightarrow> nat" where
  "read_digits acc [] = acc"
| "read_digits acc (c # cs) = (if is_digit c then read_digits (acc * 10 + unat (c - 48)) cs else acc)"

text \<open>\<open>atoi\<close>: a number that is no \<open>int\<close> is undefined behaviour.\<close>

definition atoi :: "byte list \<Rightarrow> int option" where
  "atoi s =
    (let s1 = dropWhile (\<lambda>c. c = 32 \<or> 9 \<le> c \<and> c \<le> 13) s;
         negative = (s1 \<noteq> [] \<and> hd s1 = 45);
         s2 = (if s1 \<noteq> [] \<and> (hd s1 = 45 \<or> hd s1 = 43) then tl s1 else s1);
         v = (if negative then - int (read_digits 0 s2) else int (read_digits 0 s2))
     in if - (2 ^ 31) \<le> v \<and> v < 2 ^ 31 then Some v else None)"

lemma unat_digit: "k < 10 \<Longrightarrow> unat (of_nat (48 + k) :: byte) = 48 + k"
  by (rule unat_of_nat_word) simp

lemma digit_char:
  assumes "k < 10"
  shows "is_digit (of_nat (48 + k))" "unat (of_nat (48 + k) - 48 :: byte) = k"
proof -
  have u: "unat (of_nat (48 + k) :: byte) = 48 + k" by (rule unat_digit [OF assms])
  show "is_digit (of_nat (48 + k))" using u assms by (simp add: is_digit_def word_le_nat_alt)
  have "(48 :: byte) \<le> of_nat (48 + k)" using u by (simp add: word_le_nat_alt)
  then have "unat (of_nat (48 + k) - 48 :: byte) = unat (of_nat (48 + k) :: byte) - unat (48 :: byte)" by (rule unat_sub)
  then show "unat (of_nat (48 + k) - 48 :: byte) = k" using u by simp
qed

lemma read_digits_append: "list_all is_digit a \<Longrightarrow> read_digits acc (a @ b) = read_digits (read_digits acc a) b"
  by (induction a arbitrary: acc) simp_all

lemma digits_are_digits: "list_all is_digit (digits n)"
proof (induction n rule: digits.induct)
  case (1 n)
  show ?case
  proof (cases "n < 10")
    case True
    then show ?thesis using digit_char(1) [OF True] by (subst digits.simps) simp
  next
    case False
    then show ?thesis using 1 digit_char(1) [of "n mod 10"] by (subst digits.simps) simp
  qed
qed

lemma read_digits_digits: "read_digits 0 (digits n) = n"
proof (induction n rule: digits.induct)
  case (1 n)
  show ?case
  proof (cases "n < 10")
    case True
    then show ?thesis using digit_char [OF True] by (subst digits.simps) simp
  next
    case False
    then have "digits n = digits (n div 10) @ [of_nat (48 + n mod 10)]" by (simp add: digits.simps [of n])
    then show ?thesis using 1 False digit_char [of "n mod 10"]
      by (simp add: read_digits_append digits_are_digits del: of_nat_add)
  qed
qed

lemma digits_not_empty [simp]: "digits n \<noteq> []"
  by (subst digits.simps) simp

lemma digits_first: "is_digit (hd (digits n))"
  using digits_are_digits [of n] digits_not_empty [of n] by (cases "digits n") auto

lemma atoi_digits:
  assumes "n < 2 ^ 31"
  shows "atoi (digits n) = Some (int n)"
proof -
  obtain c cs where c: "digits n = c # cs" "is_digit c"
    using digits_first [of n] digits_not_empty [of n] by (cases "digits n") auto
  then have "48 \<le> unat c" by (simp add: is_digit_def word_le_nat_alt)
  then have ne: "c \<noteq> 32" "c \<noteq> 45" "c \<noteq> 43" "\<not> c \<le> 13" by (auto simp: word_le_nat_alt)
  have "int n < 2 ^ 31" using assms by simp
  with c ne read_digits_digits [of n] show ?thesis by (simp add: atoi_def)
qed

section \<open>Dates\<close>

definition is_leap :: "nat \<Rightarrow> bool" where
  "is_leap y \<longleftrightarrow> (4 dvd y \<and> \<not> 100 dvd y) \<or> 400 dvd y"

definition year_days :: "nat \<Rightarrow> nat" where
  "year_days y = (if is_leap y then 366 else 365)"

text \<open>The year, from year \<open>y\<close> on, and the day in it.\<close>

function find_year :: "nat \<Rightarrow> nat \<Rightarrow> nat \<times> nat" where
  "find_year y d = (if d < year_days y then (y, d) else find_year (y + 1) (d - year_days y))"
  by auto
termination by (relation "measure snd") (auto simp: year_days_def)

declare find_year.simps [simp del]

fun find_month :: "nat list \<Rightarrow> nat \<Rightarrow> nat \<Rightarrow> nat \<times> nat" where
  "find_month [] m d = (m, d)"
| "find_month (n # ns) m d = (if d < n then (m, d) else find_month ns (m + 1) (d - n))"

definition month_lengths :: "nat \<Rightarrow> nat list" where
  "month_lengths y = [31, if is_leap y then 29 else 28, 31, 30, 31, 30, 31, 31, 30, 31, 30, 31]"

definition two_digits :: "nat \<Rightarrow> byte list" where
  "two_digits n = [of_nat (48 + n div 10 mod 10), of_nat (48 + n mod 10)]"

text \<open>\<open>strftime(buf, 16, "%Y%m%d%H%M%S", gmtime(&t))\<close>; the buffer is unspecified when it is too small.\<close>

definition utc_stamp :: "nat \<Rightarrow> byte list option" where
  "utc_stamp t =
    (let (y, yd) = find_year 1970 (t div 86400);
         (m, d) = find_month (month_lengths y) 1 yd;
         s = digits y @ two_digits m @ two_digits (d + 1) @ two_digits (t div 3600 mod 24)
             @ two_digits (t div 60 mod 60) @ two_digits (t mod 60)
     in if length s + 1 \<le> 16 then Some s else None)"

text \<open>What a stamp says: the seconds since 1970.\<close>

definition days_between :: "nat \<Rightarrow> nat \<Rightarrow> nat" where
  "days_between y y' = sum_list (map year_days [y..<y'])"

definition stamp_field :: "nat \<Rightarrow> nat \<Rightarrow> byte list \<Rightarrow> nat" where
  "stamp_field pos n s = read_digits 0 (take n (drop pos s))"

definition stamp_seconds :: "byte list \<Rightarrow> nat" where
  "stamp_seconds s =
    (let y = stamp_field 0 4 s
     in (days_between 1970 y + sum_list (take (stamp_field 4 2 s - 1) (month_lengths y)) + (stamp_field 6 2 s - 1)) * 86400
        + stamp_field 8 2 s * 3600 + stamp_field 10 2 s * 60 + stamp_field 12 2 s)"

lemma find_year_spec:
  "find_year y d = (y', d') \<Longrightarrow> y \<le> y' \<and> d = days_between y y' + d' \<and> d' < year_days y'"
proof (induction y d rule: find_year.induct)
  case (1 y d)
  show ?case
  proof (cases "d < year_days y")
    case True
    with 1 show ?thesis by (simp add: find_year.simps [of y d] days_between_def)
  next
    case False
    with 1 have IH: "y + 1 \<le> y'" "d - year_days y = days_between (y + 1) y' + d'" "d' < year_days y'"
      by (simp_all add: find_year.simps [of y d])
    then have "days_between y y' = year_days y + days_between (y + 1) y'"
      by (simp add: days_between_def upt_conv_Cons)
    with IH False show ?thesis by simp
  qed
qed

lemma find_month_spec:
  "find_month ns m d = (m', d') \<Longrightarrow> d < sum_list ns \<Longrightarrow>
    m \<le> m' \<and> m' < m + length ns \<and> d = sum_list (take (m' - m) ns) + d' \<and> d' < ns ! (m' - m)"
proof (induction ns arbitrary: m d)
  case (Cons n ns)
  show ?case
  proof (cases "d < n")
    case False
    then have "find_month ns (m + 1) (d - n) = (m', d')" "d - n < sum_list ns" using Cons.prems by simp_all
    from Cons.IH [OF this] have IH: "m + 1 \<le> m'" "m' < m + 1 + length ns"
      "d - n = sum_list (take (m' - (m + 1)) ns) + d'" "d' < ns ! (m' - (m + 1))" by simp_all
    then have "m' - m = Suc (m' - (m + 1))" by simp
    with IH False show ?thesis by simp
  qed (use Cons.prems in simp)
qed simp

lemma month_lengths_sum: "sum_list (month_lengths y) = year_days y" "length (month_lengths y) = 12"
  by (simp_all add: month_lengths_def year_days_def)

lemma month_length_le: "i < 12 \<Longrightarrow> month_lengths y ! i \<le> 31"
  by (auto simp: month_lengths_def less_Suc_eq numeral_eq_Suc)

lemma read_two_digits: "n < 100 \<Longrightarrow> read_digits 0 (two_digits n) = n"
  using digit_char [of "n div 10 mod 10"] digit_char [of "n mod 10"]
  by (simp add: two_digits_def del: of_nat_add)

lemma length_two_digits [simp]: "length (two_digits n) = 2"
  by (simp add: two_digits_def)

lemma length_digits_le: "length (digits n) \<le> Suc k \<longleftrightarrow> n < 10 ^ Suc k"
proof (induction k arbitrary: n)
  case 0
  have "length (digits n) \<noteq> 1" if "\<not> n < 10"
    using that by (subst digits.simps) (simp add: digits_not_empty)
  then show ?case using digits.simps [of n] digits_not_empty [of n]
    by (cases "n < 10") (auto simp: le_Suc_eq)
next
  case (Suc k)
  show ?case
  proof (cases "n < 10")
    case True
    moreover have "(10 :: nat) \<le> 10 ^ Suc (Suc k)" by simp
    ultimately have "n < 10 ^ Suc (Suc k)" by linarith
    with True show ?thesis by (simp add: digits.simps [of n])
  next
    case False
    then have "length (digits n) \<le> Suc (Suc k) \<longleftrightarrow> n div 10 < 10 ^ Suc k"
      using Suc [of "n div 10"] by (simp add: digits.simps [of n])
    then show ?thesis by (simp add: div_less_iff_less_mult mult.commute)
  qed
qed

lemma length_digits_year:
  assumes "1000 \<le> y" "y < 10000"
  shows "length (digits y) = 4"
  using assms length_digits_le [of y 3] length_digits_le [of y 2] by simp

lemma find_year_bound:
  assumes "find_year y d = (y', d')"
  shows "365 * (y' - y) \<le> d"
proof -
  have "sum_list (map year_days ys) \<ge> 365 * length ys" for ys
    by (induction ys) (simp_all add: year_days_def)
  from this [of "[y..<y']"] find_year_spec [OF assms] show ?thesis by (simp add: days_between_def)
qed

lemma time_of_day:
  "t div 86400 * 86400 + t div 3600 mod 24 * 3600 + t div 60 mod 60 * 60 + t mod 60 = (t :: nat)"
proof -
  have "t div 60 div 60 = t div 3600" "t div 3600 div 24 = t div 86400" by (simp_all add: div_mult2_eq [symmetric])
  then have "t div 60 = t div 3600 * 60 + t div 60 mod 60" "t div 3600 = t div 86400 * 24 + t div 3600 mod 24"
    by (metis div_mult_mod_eq)+
  moreover have "t = t div 60 * 60 + t mod 60" by simp
  ultimately show ?thesis by linarith
qed

text \<open>Until the year 9891 the stamp fits, and says the time.\<close>

lemma utc_stamp_seconds:
  assumes "t < 250000000000"
  shows "\<exists>s. utc_stamp t = Some s \<and> length s = 14 \<and> stamp_seconds s = t"
proof -
  obtain y yd where y: "find_year 1970 (t div 86400) = (y, yd)" by fastforce
  obtain m d where m: "find_month (month_lengths y) 1 yd = (m, d)" by fastforce
  note ys = find_year_spec [OF y]
  have "yd < sum_list (month_lengths y)" using ys by (simp add: month_lengths_sum)
  note ms = find_month_spec [OF m this]
  have "365 * (y - 1970) \<le> t div 86400" "t div 86400 < 2893519" using find_year_bound [OF y] assms by simp_all
  then have year: "1000 \<le> y" "y < 10000" using ys by linarith+
  have "m < 13" using ms by (simp add: month_lengths_sum)
  moreover have "d < 31"
  proof -
    have "m - 1 < 12" using \<open>m < 13\<close> by simp
    then have "month_lengths y ! (m - 1) \<le> 31" by (rule month_length_le)
    with ms show ?thesis by linarith
  qed
  ultimately have md: "m < 100" "d + 1 < 100" by simp_all
  let ?s = "digits y @ two_digits m @ two_digits (d + 1) @ two_digits (t div 3600 mod 24)
             @ two_digits (t div 60 mod 60) @ two_digits (t mod 60)"
  have len: "length (digits y) = 4" by (rule length_digits_year [OF year])
  have "utc_stamp t = Some ?s" using y m len by (simp add: utc_stamp_def)
  moreover have "stamp_field 0 4 ?s = y" "stamp_field 4 2 ?s = m" "stamp_field 6 2 ?s = d + 1"
    "stamp_field 8 2 ?s = t div 3600 mod 24" "stamp_field 10 2 ?s = t div 60 mod 60" "stamp_field 12 2 ?s = t mod 60"
    using len md by (simp_all add: stamp_field_def read_digits_digits read_two_digits)
  then have "stamp_seconds ?s = (days_between 1970 y + sum_list (take (m - 1) (month_lengths y)) + d) * 86400
      + t div 3600 mod 24 * 3600 + t div 60 mod 60 * 60 + t mod 60"
    by (simp add: stamp_seconds_def)
  moreover have "days_between 1970 y + sum_list (take (m - 1) (month_lengths y)) + d = t div 86400"
    using ys ms by simp
  ultimately show ?thesis using time_of_day [of t] len by simp
qed

end
