(* ===== verification/VideoServer.thy ===== *)
theory VideoServer
  imports TlsServer Connections MediaSource WebSocket Decimals
begin

text \<open>
  The server itself: the class \<open>VideoServer\<close> of src/server/main.cpp, its callbacks on the TLS
  layer and its timer. What the outside tells it while one event is handled is a \<open>surroundings\<close>
  record: the clocks, the results of \<open>mbedtls_ssl_write\<close>, the iteration order of the map of
  connections and the two mbedTLS functions of the handshake. A handler yields \<open>None\<close> when it
  uses a connection that is gone, lets an exception escape or never returns. Console output is
  left out.
\<close>

section \<open>The state\<close>

record video_server = tls_server +
  connManager :: conn_manager
  h265 :: bool
  mp4Mode :: bool
  frameId :: u16
  frameIntervalMs :: rat
  nalParser :: nal_source
  mp4Demuxer :: mp4_demuxer

text \<open>\<open>ssl_writes\<close> may depend on all that was sent before and on the message.\<close>

record surroundings =
  steady_now :: int
  system_now :: u64
  ssl_writes :: "(int \<times> byte list) list \<Rightarrow> int \<Rightarrow> byte list \<Rightarrow> send_result list"
  conn_order :: "int set \<Rightarrow> int list"
  sha1_of :: "byte list \<Rightarrow> byte list"
  base64_of :: "byte list \<Rightarrow> byte list"

definition get_conn :: "int \<Rightarrow> 's video_server_scheme \<Rightarrow> Connection option" where
  "get_conn fd st = GetConnection (connManager st) fd"

definition set_conn :: "int \<Rightarrow> Connection \<Rightarrow> 's video_server_scheme \<Rightarrow> 's video_server_scheme" where
  "set_conn fd conn st =
     st\<lparr>connManager := (connManager st)\<lparr>conns := (conns (connManager st))(fd \<mapsto> conn)\<rparr>\<rparr>"

section \<open>Callbacks\<close>

definition OnConnect :: "surroundings \<Rightarrow> int \<Rightarrow> byte list \<Rightarrow> video_server \<Rightarrow> video_server option" where
  "OnConnect env fd ip st = do {
     (_, m) \<leftarrow> AddConnection fd ip (steady_now env) (connManager st);
     Some (st\<lparr>connManager := m\<rparr>)
   }"

definition OnDisconnect :: "int \<Rightarrow> video_server \<Rightarrow> video_server" where
  "OnDisconnect fd st = st\<lparr>connManager := RemoveConnection fd (connManager st)\<rparr>"

definition CloseConnection :: "int \<Rightarrow> video_server \<Rightarrow> video_server" where
  "CloseConnection fd st = TlsCloseConnection OnDisconnect fd st"

definition SendData :: "surroundings \<Rightarrow> int \<Rightarrow> byte list \<Rightarrow> video_server \<Rightarrow> (int \<times> video_server) option" where
  "SendData env fd dat st = TlsSendData (ssl_writes env (ssl_sent st) fd dat) fd dat st"

section \<open>The media offer\<close>

text \<open>\<open>printf\<close>'s \<open>%d\<close> and \<open>%.2f\<close>, the latter on a rational, rounded to the nearest.\<close>

definition printf_d :: "int \<Rightarrow> byte list" where
  "printf_d i = (if i < 0 then str ''-'' @ digits (nat (- i)) else digits (nat i))"

definition printf_2f :: "rat \<Rightarrow> byte list" where
  "printf_2f x =
    (let h = round (\<bar>x\<bar> * 100);
         sgn = (if x < 0 then str ''-'' else [])
     in sgn @ digits (nat (h div 100)) @ str ''.'' @ [of_int (48 + h mod 100 div 10), of_int (48 + h mod 10)])"

definition BuildMediaOffer :: "'s video_server_scheme \<Rightarrow> byte list" where
  "BuildMediaOffer st =
    (let videoCodecStr = (if h265 st then str ''h265'' else str ''h264'');
         fps = 1000 / frameIntervalMs st;
         audio = audioInfo (mp4Demuxer st)
     in take 511
       (str ''{\"type\":\"media-offer\",\"payload\":{\"version\":1,\"streams\":[''
        @ str ''{\"type\":\"video\",\"codec\":\"'' @ videoCodecStr @ str ''\",\"framerate\":'' @ printf_2f fps @ str ''}''
        @ (if mp4Mode st \<and> a_present audio then
             str '',{\"type\":\"audio\",\"codec\":\"'' @ a_codecName audio @ str ''\",\"sampleRate\":''
             @ printf_d (a_sampleRate audio) @ str '',\"channels\":'' @ printf_d (a_channels audio) @ str ''}''
           else [])
        @ str '']}}''))"

definition SendMediaOffer :: "surroundings \<Rightarrow> int \<Rightarrow> video_server \<Rightarrow> video_server option" where
  "SendMediaOffer env fd st = do {
     (_, st1) \<leftarrow> SendData env fd (EncodeFrame (WsOpcode_code TEXT) (BuildMediaOffer st)) st;
     conn \<leftarrow> get_conn fd st1;
     Some (set_conn fd (conn\<lparr>c_state := NEGOTIATING, negotiateOfferTime := steady_now env\<rparr>) st1)
   }"

section \<open>Received data\<close>

text \<open>\<open>VideoServer::HandleHandshake\<close>; \<open>HandleHandshake\<close> is \<open>WebSocket::HandleHandshake\<close>.\<close>

definition ServerHandshake :: "surroundings \<Rightarrow> int \<Rightarrow> video_server \<Rightarrow> video_server option" where
  "ServerHandshake env fd st = do {
     conn \<leftarrow> get_conn fd st;
     let request = recvBuffer conn;
     if str_find request (CRLF @ CRLF) 0 = None then Some st
     else if \<not> IsHttpRequest request then Some (CloseConnection fd st)
     else (case HandleHandshake (sha1_of env) (base64_of env) request of
         None \<Rightarrow> Some (CloseConnection fd st)
       | Some response \<Rightarrow> do {
           (_, st1) \<leftarrow> SendData env fd response st;
           conn1 \<leftarrow> get_conn fd st1;
           SendMediaOffer env fd (set_conn fd (conn1\<lparr>recvBuffer := [], c_state := CONNECTED\<rparr>) st1)
         })
   }"

definition HandleNegotiation :: "surroundings \<Rightarrow> int \<Rightarrow> byte list \<Rightarrow> video_server \<Rightarrow> video_server option" where
  "HandleNegotiation env fd msg st =
    (if ExtractJsonString msg (str ''type'') \<noteq> str ''media-answer'' then Some st
     else do {
       conn \<leftarrow> get_conn fd st;
       if ExtractJsonBool msg (str ''accepted'') False then
         Some (set_conn fd (conn\<lparr>c_state := STREAMING\<rparr>) st)
       else do {
         (_, st1) \<leftarrow> SendData env fd (CreateCloseFrame 1000 (str ''Negotiation rejected''))
                       (set_conn fd (conn\<lparr>c_state := CLOSING\<rparr>) st);
         Some (CloseConnection fd st1)
       }
     })"

text \<open>The reaction to one frame, and whether the receive loop goes on.\<close>

definition HandleFrame :: "surroundings \<Rightarrow> int \<Rightarrow> WsFrame \<Rightarrow> video_server \<Rightarrow> (bool \<times> video_server) option" where
  "HandleFrame env fd frame st = do {
     conn \<leftarrow> get_conn fd st;
     if ws_opcode frame = WsOpcode_code TEXT then
       if c_state conn = NEGOTIATING
       then do { st1 \<leftarrow> HandleNegotiation env fd (ws_payload frame) st; Some (True, st1) }
       else Some (True, st)
     else if ws_opcode frame = WsOpcode_code BINARY then Some (True, st)
     else if ws_opcode frame = WsOpcode_code PING then do {
       (_, st1) \<leftarrow> SendData env fd (CreatePongFrame (ws_payload frame)) st;
       Some (True, st1)
     }
     else if ws_opcode frame = WsOpcode_code CLOSE then
       Some (False, CloseConnection fd (set_conn fd (conn\<lparr>c_state := CLOSING\<rparr>) st))
     else Some (True, st)
   }"

partial_function (option) HandleWebSocketFrame ::
  "surroundings \<Rightarrow> int \<Rightarrow> video_server \<Rightarrow> video_server option" where
  "HandleWebSocketFrame env fd st =
    Option.bind (get_conn fd st) (\<lambda>conn.
      if recvBuffer conn = [] then Some st
      else case ws_next blank_frame (recvBuffer conn) of
          Wait \<Rightarrow> Some st
        | Crash \<Rightarrow> None
        | Item frame consumed \<Rightarrow>
            Option.bind (HandleFrame env fd frame
                (set_conn fd (conn\<lparr>recvBuffer := drop consumed (recvBuffer conn)\<rparr>) st))
              (\<lambda>(go, st1). if go then HandleWebSocketFrame env fd st1 else Some st1))"

definition HandleData :: "surroundings \<Rightarrow> int \<Rightarrow> byte list \<Rightarrow> video_server \<Rightarrow> video_server option" where
  "HandleData env fd dat st =
    (case get_conn fd st of None \<Rightarrow> Some st
     | Some conn \<Rightarrow>
       let st1 = set_conn fd (conn\<lparr>recvBuffer := recvBuffer conn @ dat\<rparr>) st in
       if c_state conn = HANDSHAKING_WS then ServerHandshake env fd st1
       else if c_state conn = NEGOTIATING \<or> c_state conn = STREAMING then HandleWebSocketFrame env fd st1
       else Some st1)"

section \<open>Sending media\<close>

text \<open>The loop that sends the frames of one payload; \<open>key\<close> is the connection's key in the map.\<close>

fun send_frames :: "surroundings \<Rightarrow> int \<Rightarrow> byte list list \<Rightarrow> video_server \<Rightarrow> video_server option" where
  "send_frames env key [] st = Some st"
| "send_frames env key (f # fs) st = do {
     conn \<leftarrow> get_conn key st;
     (sent, st1) \<leftarrow> SendData env (c_fd conn) (EncodeFrame (WsOpcode_code BINARY) f) st;
     conn1 \<leftarrow> get_conn key st1;
     send_frames env key fs
       (if sent > 0 then
          set_conn key (conn1\<lparr>messagesSent := messagesSent conn1 + 1,
                              bytesSent := bytesSent conn1 + of_nat (length f)\<rparr>) st1
        else st1)
   }"

definition next_frame_id :: "video_server \<Rightarrow> video_server" where
  "next_frame_id st = st\<lparr>frameId := frameId st + 1\<rparr>"

text \<open>The frames of an MP4 packet.\<close>

definition packet_frames :: "surroundings \<Rightarrow> MediaPacket \<Rightarrow> 's video_server_scheme \<Rightarrow> byte list list" where
  "packet_frames env pkt st =
    (if p_type pkt = MEDIA_VIDEO then
       EncodeVideoFrame (p_data pkt) (if h265 st then H265 else H264)
         (DetectFrameTypeFromPacket (h265 st) (p_data pkt)) (of_int (ptsMs pkt)) (system_now env) (frameId st)
     else
       let audio = audioInfo (mp4Demuxer st) in
       EncodeAudioFrame (p_data pkt) (AudioCodecNameToEnum (a_codecName audio))
         (SampleRateToCode (a_sampleRate audio)) (of_int (a_channels audio)) (of_int (ptsMs pkt))
         (system_now env) (frameId st))"

definition SendPacket :: "surroundings \<Rightarrow> int \<Rightarrow> MediaPacket \<Rightarrow> video_server \<Rightarrow> video_server option" where
  "SendPacket env key pkt st = do {
     st1 \<leftarrow> send_frames env key (packet_frames env pkt st) st;
     Some (next_frame_id st1)
   }"

text \<open>
  The time of packet number \<open>n\<close> of the endless playback, counted from its start; the sum is
  computed in \<open>uint64_t\<close>, \<open>loopCount\<close> being a \<open>size_t\<close>, and converted to \<open>double\<close>.
\<close>

definition effective_pts :: "MediaPacket list \<Rightarrow> nat \<Rightarrow> rat" where
  "effective_pts ps n =
    (let firstPts = ptsMs (ps ! 0);
         d = ptsMs (ps ! (length ps - 1)) - firstPts;
         totalDurationMs = (if d \<le> 0 then 1 else d);
         loopCount = n div length ps
     in of_nat (unat (of_int (ptsMs (ps ! (n mod length ps)) - firstPts)
                      + of_nat loopCount * of_int totalDurationMs :: u64)))"

partial_function (option) mp4_send_loop :: "surroundings \<Rightarrow> int \<Rightarrow> video_server \<Rightarrow> video_server option" where
  "mp4_send_loop env key st =
    Option.bind (get_conn key st) (\<lambda>conn.
      let ps = packets (mp4Demuxer st) in
      case GetPacket ps (packetIndex conn mod length ps) of
        None \<Rightarrow> Some st
      | Some pkt \<Rightarrow>
          if effective_pts ps (packetIndex conn) > playbackTimeMs conn then Some st
          else Option.bind (SendPacket env key pkt st) (\<lambda>st1.
            Option.bind (get_conn key st1) (\<lambda>conn1.
              mp4_send_loop env key (set_conn key (conn1\<lparr>packetIndex := packetIndex conn1 + 1\<rparr>) st1))))"

definition OnTimerMp4 :: "surroundings \<Rightarrow> int \<Rightarrow> video_server \<Rightarrow> video_server option" where
  "OnTimerMp4 env key st =
    (if length (packets (mp4Demuxer st)) = 0 then Some st
     else do {
       st1 \<leftarrow> mp4_send_loop env key st;
       conn \<leftarrow> get_conn key st1;
       Some (set_conn key (conn\<lparr>playbackTimeMs := playbackTimeMs conn + 10\<rparr>) st1)
     })"

definition GetAccessUnit :: "byte list list list \<Rightarrow> nat \<Rightarrow> byte list list option" where
  "GetAccessUnit aus index = (if index \<ge> length aus then None else Some (aus ! index))"

definition access_unit_frames :: "surroundings \<Rightarrow> nat \<Rightarrow> byte list list \<Rightarrow> 's video_server_scheme \<Rightarrow> byte list list" where
  "access_unit_frames env n au st =
     EncodeVideoFrame (concat au) (if h265 st then H265 else H264) (DetectFrameType (h265 st) au)
       (of_int \<lfloor>of_nat n * frameIntervalMs st\<rfloor>) (system_now env) (frameId st)"

definition OnTimerRaw :: "surroundings \<Rightarrow> int \<Rightarrow> video_server \<Rightarrow> video_server option" where
  "OnTimerRaw env key st =
    (let aus = ns_accessUnits (nalParser st) in
     if length aus = 0 then Some st
     else do {
       conn \<leftarrow> get_conn key st;
       case GetAccessUnit aus (auIndex conn mod length aus) of
         None \<Rightarrow> Some st
       | Some au \<Rightarrow> do {
           st1 \<leftarrow> send_frames env key (access_unit_frames env (auIndex conn) au st) st;
           conn1 \<leftarrow> get_conn key st1;
           Some (next_frame_id (set_conn key (conn1\<lparr>auIndex := auIndex conn1 + 1\<rparr>) st1))
         }
     })"

section \<open>The timer\<close>

fun OnTimer_loop :: "surroundings \<Rightarrow> int list \<Rightarrow> int list \<Rightarrow> video_server \<Rightarrow> (int list \<times> video_server) option" where
  "OnTimer_loop env [] negotiationTimeouts st = Some (negotiationTimeouts, st)"
| "OnTimer_loop env (key # keys) negotiationTimeouts st = do {
     conn \<leftarrow> get_conn key st;
     if c_state conn = NEGOTIATING then
       if steady_now env - negotiateOfferTime conn > 5 * 10 ^ 9 then do {
         (_, st1) \<leftarrow> SendData env (c_fd conn) (CreateCloseFrame 1008 (str ''Negotiation timeout'')) st;
         conn1 \<leftarrow> get_conn key st1;
         OnTimer_loop env keys (negotiationTimeouts @ [c_fd conn1])
           (set_conn key (conn1\<lparr>c_state := CLOSING\<rparr>) st1)
       }
       else OnTimer_loop env keys negotiationTimeouts st
     else if c_state conn \<noteq> STREAMING then OnTimer_loop env keys negotiationTimeouts st
     else do {
       st1 \<leftarrow> (if mp4Mode st then OnTimerMp4 env key st else OnTimerRaw env key st);
       OnTimer_loop env keys negotiationTimeouts st1
     }
   }"

definition OnTimer :: "surroundings \<Rightarrow> video_server \<Rightarrow> video_server option" where
  "OnTimer env st = do {
     (negotiationTimeouts, st1) \<leftarrow> OnTimer_loop env (conn_order env (dom (conns (connManager st)))) [] st;
     Some (foldl (\<lambda>st fd. CloseConnection fd st) st1 negotiationTimeouts)
   }"

end
