(* ===== verification/ServerInv.thy ===== *)
theory ServerInv
  imports VideoServer
begin

text \<open>
  What holds of the server whatever happens: every operation of \<open>VideoServer\<close> keeps the managers'
  invariants, and a connection only ever moves forward. Both go through the layers below by
  an interpretation of their contract \<open>tls_user\<close>.
\<close>

section \<open>How the state may change\<close>

definition good_state :: "ConnState \<Rightarrow> bool" where
  "good_state s \<longleftrightarrow> s \<noteq> HANDSHAKING_TLS \<and> s \<noteq> CONNECTED"

definition conn_step :: "Connection \<Rightarrow> Connection \<Rightarrow> bool" where
  "conn_step c c' \<longleftrightarrow> c_fd c' = c_fd c \<and> c_id c' = c_id c \<and> c_state c \<le> c_state c'
     \<and> (c_state c' = c_state c \<or> good_state (c_state c'))
     \<and> auIndex c \<le> auIndex c' \<and> packetIndex c \<le> packetIndex c' \<and> playbackTimeMs c \<le> playbackTimeMs c'"

lemma conn_step_refl [simp]: "conn_step c c"
  by (simp add: conn_step_def)

lemma conn_step_trans: "conn_step a b \<Longrightarrow> conn_step b c \<Longrightarrow> conn_step a c"
  by (auto simp: conn_step_def)

definition same_media :: "'s video_server_scheme \<Rightarrow> 't video_server_scheme \<Rightarrow> bool" where
  "same_media st st' \<longleftrightarrow> h265 st' = h265 st \<and> mp4Mode st' = mp4Mode st
     \<and> frameIntervalMs st' = frameIntervalMs st \<and> nalParser st' = nalParser st
     \<and> mp4Demuxer st' = mp4Demuxer st"

text \<open>Every connection was there before and moved forward, or it is new.\<close>

definition evolves :: "video_server \<Rightarrow> video_server \<Rightarrow> bool" where
  "evolves st st' \<longleftrightarrow> same_media st st'
     \<and> totalConnections (connManager st) \<le> totalConnections (connManager st')
     \<and> (\<forall>fd c'. get_conn fd st' = Some c' \<longrightarrow>
          (\<exists>c. get_conn fd st = Some c \<and> conn_step c c')
          \<or> totalConnections (connManager st) < c_id c' \<and> good_state (c_state c'))"

lemma evolves_refl [simp]: "evolves st st"
  by (auto simp: evolves_def same_media_def)

lemma evolves_trans:
  assumes "evolves a b" and "evolves b c"
  shows "evolves a c"
proof -
  have "(\<exists>x. get_conn fd a = Some x \<and> conn_step x z)
      \<or> totalConnections (connManager a) < c_id z \<and> good_state (c_state z)"
    if z: "get_conn fd c = Some z" for fd z
  proof -
    from z assms(2) consider y where "get_conn fd b = Some y" "conn_step y z"
      | "totalConnections (connManager b) < c_id z" "good_state (c_state z)"
      by (auto simp: evolves_def)
    then show ?thesis
    proof cases
      case 1
      from 1(1) assms(1) consider x where "get_conn fd a = Some x" "conn_step x y"
        | "totalConnections (connManager a) < c_id y" "good_state (c_state y)"
        by (auto simp: evolves_def)
      then show ?thesis
      proof cases
        case 1
        with \<open>conn_step y z\<close> show ?thesis by (blast intro: conn_step_trans)
      next
        case 2
        with \<open>conn_step y z\<close> show ?thesis by (auto simp: conn_step_def)
      qed
    next
      case 2
      with assms(1) show ?thesis by (auto simp: evolves_def)
    qed
  qed
  with assms show ?thesis by (auto simp: evolves_def same_media_def)
qed

text \<open>A step of the server: it evolves, and the invariants of the two tables survive.\<close>

definition step_ok :: "video_server \<Rightarrow> video_server \<Rightarrow> bool" where
  "step_ok st st' \<longleftrightarrow> evolves st st'
     \<and> (manager_inv (connManager st) \<longrightarrow> manager_inv (connManager st')) \<and> (tls_ok st \<longrightarrow> tls_ok st')"

named_theorems steps

lemma step_refl [simp, steps]: "step_ok st st"
  by (simp add: step_ok_def)

lemma step_trans: "step_ok a b \<Longrightarrow> step_ok b c \<Longrightarrow> step_ok a c"
  using evolves_trans by (auto simp: step_ok_def)

section \<open>The basic operations\<close>

lemma get_set_conn [simp]: "get_conn fd (set_conn fd c st) = Some c"
  by (simp add: get_conn_def set_conn_def GetConnection_def)

lemma get_set_conn_other [simp]: "fd' \<noteq> fd \<Longrightarrow> get_conn fd' (set_conn fd c st) = get_conn fd' st"
  by (simp add: get_conn_def set_conn_def GetConnection_def)

lemma set_set_conn [simp]: "set_conn fd c' (set_conn fd c st) = set_conn fd c' st"
  by (simp add: set_conn_def)

lemma set_conn_fields [simp]:
  "tlsConnections (set_conn fd c st) = tlsConnections st" "ssl_sent (set_conn fd c st) = ssl_sent st"
  "h265 (set_conn fd c st) = h265 st" "mp4Mode (set_conn fd c st) = mp4Mode st"
  "frameIntervalMs (set_conn fd c st) = frameIntervalMs st" "nalParser (set_conn fd c st) = nalParser st"
  "mp4Demuxer (set_conn fd c st) = mp4Demuxer st" "frameId (set_conn fd c st) = frameId st"
  "totalConnections (connManager (set_conn fd c st)) = totalConnections (connManager st)"
  by (simp_all add: set_conn_def)

lemma step_set_conn [steps]:
  assumes "get_conn fd st = Some c" and "conn_step c c'"
  shows "step_ok st (set_conn fd c' st)"
proof -
  have "evolves st (set_conn fd c' st)"
    unfolding evolves_def same_media_def
  proof (intro conjI allI impI)
    fix fd' d
    assume "get_conn fd' (set_conn fd c' st) = Some d"
    with assms show "(\<exists>c. get_conn fd' st = Some c \<and> conn_step c d)
      \<or> totalConnections (connManager st) < c_id d \<and> good_state (c_state d)"
      by (cases "fd' = fd") auto
  qed simp_all
  moreover have "manager_inv (connManager (set_conn fd c' st))" if "manager_inv (connManager st)"
    using manager_inv_update [OF that, of fd c c'] assms
    by (simp add: set_conn_def get_conn_def GetConnection_def conn_step_def)
  ultimately show ?thesis by (simp add: step_ok_def tls_ok_def)
qed

lemma SendData_state:
  assumes "SendData env fd dat st = Some (n, st')"
  obtains l where "st' = st\<lparr>ssl_sent := ssl_sent st @ l\<rparr>"
  using assms by (auto simp: SendData_def TlsSendData_def split: option.splits if_splits Option.bind_splits
      intro: that [of "[]"])

lemma get_conn_sent [simp]: "get_conn fd (st\<lparr>ssl_sent := l\<rparr>) = get_conn fd st"
  by (simp add: get_conn_def)

lemma get_conn_frameId [simp]: "get_conn fd (st\<lparr>frameId := l\<rparr>) = get_conn fd st"
  by (simp add: get_conn_def)

lemma CloseConnection_eq:
  "CloseConnection fd st = st\<lparr>tlsConnections := (tlsConnections st)(fd := None),
     clientIps := (clientIps st)(fd := None), sys_log := sys_log st @ [EpollDel fd, CloseFd fd]\<rparr>"
  by (simp add: CloseConnection_def TlsCloseConnection_eq)

lemma get_conn_closed [simp]: "get_conn fd (CloseConnection fd' st) = get_conn fd st"
  by (simp add: CloseConnection_eq get_conn_def)

text \<open>Operations that touch neither the connections nor the media.\<close>

lemma step_lower:
  assumes "connManager st' = connManager st" "same_media st st'" "tls_ok st \<Longrightarrow> tls_ok st'"
  shows "step_ok st st'"
proof -
  have "get_conn fd st' = get_conn fd st" for fd using assms(1) by (simp add: get_conn_def)
  with assms show ?thesis by (auto simp: step_ok_def evolves_def)
qed

lemma step_SendData [steps]:
  assumes "SendData env fd dat st = Some (n, st')"
  shows "step_ok st st'"
  using assms by (rule SendData_state) (auto intro!: step_lower simp: same_media_def tls_ok_def)

lemma get_conn_SendData [simp]: "SendData env fd dat st = Some (n, st') \<Longrightarrow> get_conn fd' st' = get_conn fd' st"
  by (erule SendData_state) simp

lemma step_CloseConnection [steps]: "step_ok st (CloseConnection fd st)"
  by (rule step_lower) (auto simp: CloseConnection_eq same_media_def tls_ok_def)

lemma step_next_frame_id [steps]: "step_ok st (next_frame_id st)"
  by (rule step_lower) (auto simp: next_frame_id_def same_media_def tls_ok_def)

lemma get_conn_next_frame_id [simp]: "get_conn fd (next_frame_id st) = get_conn fd st"
  by (simp add: next_frame_id_def)

lemma step_OnDisconnect [steps]: "step_ok st (OnDisconnect fd st)"
proof -
  have "get_conn fd' (OnDisconnect fd st) = (if fd' = fd then None else get_conn fd' st)" for fd'
    by (auto simp: get_conn_def OnDisconnect_def RemoveConnection_def GetConnection_def split: option.splits)
  moreover have "totalConnections (RemoveConnection fd m) = totalConnections m" for m
    by (simp add: RemoveConnection_def split: option.splits)
  ultimately show ?thesis
    by (auto simp: step_ok_def evolves_def same_media_def OnDisconnect_def manager_inv_remove tls_ok_def
        split: if_splits)
qed

lemma step_OnConnect [steps]:
  assumes "OnConnect env fd ip st = Some st'"
  shows "step_ok st st'"
proof -
  obtain i m where add: "AddConnection fd ip (steady_now env) (connManager st) = Some (i, m)"
    and st': "st' = st\<lparr>connManager := m\<rparr>"
    using assms by (auto simp: OnConnect_def split: Option.bind_splits)
  note m = AddConnection_Some [OF add]
  have "get_conn fd' st' = (if fd' = fd then Some (new_connection fd (totalConnections (connManager st) + 1) ip
      (steady_now env)) else get_conn fd' st)" for fd'
    by (simp add: st' m get_conn_def GetConnection_def)
  moreover have "totalConnections (connManager st') = totalConnections (connManager st) + 1"
    by (simp add: st' m)
  moreover have "same_media st st'" "tls_ok st' = tls_ok st"
    by (simp_all add: st' same_media_def tls_ok_def)
  moreover have "manager_inv (connManager st) \<Longrightarrow> manager_inv (connManager st')"
    using manager_inv_add [OF _ add] by (simp add: st')
  ultimately show ?thesis
    by (auto simp: step_ok_def evolves_def new_connection_def good_state_def split: if_splits)
qed


section \<open>The handlers\<close>

text \<open>A handler that sends, then updates the connection.\<close>

lemma step_send_set:
  assumes "SendData env fd' dat st = Some (n, st1)" and "get_conn fd st = Some c" and "conn_step c c'"
  shows "step_ok st (set_conn fd c' st1)"
  using step_trans [OF step_SendData [OF assms(1)] step_set_conn [of fd st1 c c']] assms by simp

lemma step_SendMediaOffer [steps]:
  assumes "get_conn fd st = Some c" and "c_state c \<le> NEGOTIATING"
    and "SendMediaOffer env fd (set_conn fd (c\<lparr>recvBuffer := b, c_state := s\<rparr>) st) = Some st'"
  shows "step_ok st st'"
proof -
  let ?c1 = "c\<lparr>recvBuffer := b, c_state := s\<rparr>"
  let ?st0 = "set_conn fd ?c1 st"
  from assms(3) obtain n st1 where sent: "SendData env fd (EncodeFrame (WsOpcode_code TEXT) (BuildMediaOffer ?st0)) ?st0
      = Some (n, st1)"
    and st': "st' = set_conn fd (?c1\<lparr>c_state := NEGOTIATING, negotiateOfferTime := steady_now env\<rparr>) st1"
    by (auto simp: SendMediaOffer_def split: Option.bind_splits)
  from sent obtain l where l: "st1 = ?st0\<lparr>ssl_sent := l\<rparr>" by (rule SendData_state) auto
  have "st' = set_conn fd (?c1\<lparr>c_state := NEGOTIATING, negotiateOfferTime := steady_now env\<rparr>) (st\<lparr>ssl_sent := l\<rparr>)"
    by (simp add: st' l set_conn_def)
  moreover have "step_ok (st\<lparr>ssl_sent := l\<rparr>)
      (set_conn fd (?c1\<lparr>c_state := NEGOTIATING, negotiateOfferTime := steady_now env\<rparr>) (st\<lparr>ssl_sent := l\<rparr>))"
    by (rule step_set_conn [of _ _ c]) (use assms(1,2) in \<open>simp_all add: conn_step_def good_state_def\<close>)
  moreover have "step_ok st (st\<lparr>ssl_sent := l\<rparr>)"
    by (rule step_lower) (simp_all add: same_media_def tls_ok_def)
  ultimately show ?thesis using step_trans by simp
qed

lemma step_ServerHandshake [steps]:
  assumes "get_conn fd st = Some c" and "c_state c = HANDSHAKING_WS" and "ServerHandshake env fd st = Some st'"
  shows "step_ok st st'"
proof -
  from assms(1,3) consider "st' = st" | "st' = CloseConnection fd st"
    | response n st1 where "SendData env fd response st = Some (n, st1)"
        "SendMediaOffer env fd (set_conn fd (c\<lparr>recvBuffer := [], c_state := CONNECTED\<rparr>) st1) = Some st'"
    by (auto simp: ServerHandshake_def Let_def split: if_splits option.splits Option.bind_splits)
  then show ?thesis
  proof cases
    case 3
    have "get_conn fd st1 = Some c" using 3(1) assms(1) by simp
    from step_SendMediaOffer [OF this _ 3(2)] have "step_ok st1 st'" using assms(2) by simp
    then show ?thesis by (rule step_trans [OF step_SendData [OF 3(1)]])
  qed (auto intro: steps)
qed

lemma step_HandleNegotiation [steps]:
  assumes "get_conn fd st = Some c" and "c_state c = NEGOTIATING" and "HandleNegotiation env fd msg st = Some st'"
  shows "step_ok st st'"
proof -
  from assms(1,3) consider "st' = st" | "st' = set_conn fd (c\<lparr>c_state := STREAMING\<rparr>) st"
    | dat n st1 where "SendData env fd dat (set_conn fd (c\<lparr>c_state := CLOSING\<rparr>) st) = Some (n, st1)"
        "st' = CloseConnection fd st1"
    by (auto simp: HandleNegotiation_def split: if_splits Option.bind_splits)
  then show ?thesis
  proof cases
    case 2
    show ?thesis unfolding 2
      by (rule step_set_conn [OF assms(1)]) (simp add: conn_step_def good_state_def assms(2))
  next
    case 3
    have "step_ok st (set_conn fd (c\<lparr>c_state := CLOSING\<rparr>) st)"
      by (rule step_set_conn [OF assms(1)]) (simp add: conn_step_def good_state_def)
    from step_trans [OF this step_trans [OF step_SendData [OF 3(1)] step_CloseConnection]]
    show ?thesis by (simp add: 3(2))
  qed simp
qed

lemma step_HandleFrame [steps]:
  assumes "HandleFrame env fd frame st = Some (go, st')"
  shows "step_ok st st'"
proof -
  from assms obtain c where c: "get_conn fd st = Some c"
    by (auto simp: HandleFrame_def split: Option.bind_splits)
  from assms c consider "st' = st"
    | "c_state c = NEGOTIATING" "HandleNegotiation env fd (ws_payload frame) st = Some st'"
    | dat n where "SendData env fd dat st = Some (n, st')"
    | "st' = CloseConnection fd (set_conn fd (c\<lparr>c_state := CLOSING\<rparr>) st)"
    by (auto simp: HandleFrame_def split: if_splits Option.bind_splits)
  then show ?thesis
  proof cases
    case 2
    from step_HandleNegotiation [OF c this] show ?thesis .
  next
    case 4
    have "step_ok st (set_conn fd (c\<lparr>c_state := CLOSING\<rparr>) st)"
      by (rule step_set_conn [OF c]) (simp add: conn_step_def good_state_def)
    from step_trans [OF this step_CloseConnection] show ?thesis by (simp add: 4)
  qed (auto intro: steps)
qed

lemma step_HandleWebSocketFrame [steps]:
  assumes "HandleWebSocketFrame env fd st = Some st'"
  shows "step_ok st st'"
  using assms
proof (induction rule: HandleWebSocketFrame.raw_induct [rotated, consumes 1, case_names 1])
  case (1 f env fd st st')
  from 1(2) obtain c where c: "get_conn fd st = Some c" by (auto split: Option.bind_splits)
  show ?case
  proof (cases "recvBuffer c = []")
    case True
    with 1(2) c show ?thesis by simp
  next
    case False
    show ?thesis
    proof (cases "ws_next blank_frame (recvBuffer c)")
      case (Item frame k)
      let ?st0 = "set_conn fd (c\<lparr>recvBuffer := drop k (recvBuffer c)\<rparr>) st"
      from 1(2) c False Item obtain go st1 where handled: "HandleFrame env fd frame ?st0 = Some (go, st1)"
        and rest: "(if go then f env fd st1 else Some st1) = Some st'"
        by (auto split: Option.bind_splits)
      have "step_ok st ?st0" by (rule step_set_conn [OF c]) (simp add: conn_step_def)
      then have "step_ok st st1" by (rule step_trans [OF _ step_HandleFrame [OF handled]])
      moreover have "step_ok st1 st'" using rest 1(1) by (cases go) simp_all
      ultimately show ?thesis by (rule step_trans)
    qed (use 1(2) c False in simp_all)
  qed
qed

lemma step_HandleData [steps]:
  assumes "HandleData env fd dat st = Some st'"
  shows "step_ok st st'"
proof (cases "get_conn fd st")
  case None
  with assms show ?thesis by (simp add: HandleData_def)
next
  case (Some c)
  let ?c1 = "c\<lparr>recvBuffer := recvBuffer c @ dat\<rparr>"
  have 1: "step_ok st (set_conn fd ?c1 st)" by (rule step_set_conn [OF Some]) (simp add: conn_step_def)
  have "step_ok (set_conn fd ?c1 st) st'"
    using assms Some step_ServerHandshake [of fd "set_conn fd ?c1 st" ?c1 env st']
    by (auto simp: HandleData_def Let_def split: if_splits intro: steps)
  with 1 show ?thesis by (rule step_trans)
qed

section \<open>The timer\<close>

lemma step_send_frames [steps]: "send_frames env key fs st = Some st' \<Longrightarrow> step_ok st st'"
proof (induction fs arbitrary: st)
  case (Cons f fs)
  from Cons.prems obtain c n st1 where c: "get_conn key st = Some c"
    and s: "SendData env (c_fd c) (EncodeFrame (WsOpcode_code BINARY) f) st = Some (n, st1)"
    by (auto split: Option.bind_splits)
  let ?c1 = "c\<lparr>messagesSent := messagesSent c + 1, bytesSent := bytesSent c + of_nat (length f)\<rparr>"
  let ?st2 = "if n > 0 then set_conn key ?c1 st1 else st1"
  have "send_frames env key fs ?st2 = Some st'"
    using Cons.prems c s get_conn_SendData [OF s, of key] by simp
  moreover have "step_ok st ?st2"
    using step_send_set [OF s c, of ?c1] step_SendData [OF s] by (simp add: conn_step_def)
  ultimately show ?case by (blast intro: step_trans Cons.IH)
qed simp

lemma step_SendPacket [steps]: "SendPacket env key pkt st = Some st' \<Longrightarrow> step_ok st st'"
  by (auto simp: SendPacket_def split: Option.bind_splits intro: step_trans steps)

lemma step_mp4_send_loop [steps]:
  assumes "mp4_send_loop env key st = Some st'"
  shows "step_ok st st'"
  using assms
proof (induction rule: mp4_send_loop.raw_induct [rotated, consumes 1, case_names 1])
  case (1 f env key st st')
  from 1(2) obtain c where c: "get_conn key st = Some c" by (auto split: Option.bind_splits)
  from 1(2) c consider "st' = st"
    | pkt st1 c1 where "SendPacket env key pkt st = Some st1" "get_conn key st1 = Some c1"
        "f env key (set_conn key (c1\<lparr>packetIndex := packetIndex c1 + 1\<rparr>) st1) = Some st'"
    by (auto simp: Let_def split: if_splits option.splits Option.bind_splits)
  then show ?case
  proof cases
    case 2
    have "step_ok st1 (set_conn key (c1\<lparr>packetIndex := packetIndex c1 + 1\<rparr>) st1)"
      by (rule step_set_conn [OF 2(2)]) (simp add: conn_step_def)
    from step_trans [OF step_SendPacket [OF 2(1)] step_trans [OF this 1(1) [OF 2(3)]]] show ?thesis .
  qed simp
qed

lemma step_OnTimerMp4 [steps]:
  assumes "OnTimerMp4 env key st = Some st'"
  shows "step_ok st st'"
proof (cases "st' = st")
  case False
  with assms obtain st1 c where st1: "mp4_send_loop env key st = Some st1" and c: "get_conn key st1 = Some c"
    and st': "st' = set_conn key (c\<lparr>playbackTimeMs := playbackTimeMs c + 10\<rparr>) st1"
    by (auto simp: OnTimerMp4_def split: if_splits Option.bind_splits)
  have "step_ok st1 st'" unfolding st' by (rule step_set_conn [OF c]) (simp add: conn_step_def)
  then show ?thesis by (rule step_trans [OF step_mp4_send_loop [OF st1]])
qed simp

lemma step_OnTimerRaw [steps]:
  assumes "OnTimerRaw env key st = Some st'"
  shows "step_ok st st'"
proof (cases "st' = st")
  case False
  with assms obtain fs st1 c where st1: "send_frames env key fs st = Some st1" and c: "get_conn key st1 = Some c"
    and st': "st' = next_frame_id (set_conn key (c\<lparr>auIndex := auIndex c + 1\<rparr>) st1)"
    by (auto simp: OnTimerRaw_def Let_def split: if_splits option.splits Option.bind_splits)
  have "step_ok st1 (set_conn key (c\<lparr>auIndex := auIndex c + 1\<rparr>) st1)"
    by (rule step_set_conn [OF c]) (simp add: conn_step_def)
  from step_trans [OF step_send_frames [OF st1] step_trans [OF this step_next_frame_id]]
  show ?thesis by (simp add: st')
qed simp

lemma step_OnTimer_loop [steps]: "OnTimer_loop env keys ts st = Some (ts', st') \<Longrightarrow> step_ok st st'"
proof (induction keys arbitrary: ts st)
  case (Cons key keys)
  from Cons.prems obtain c where c: "get_conn key st = Some c" by (auto split: Option.bind_splits)
  from Cons.prems c consider (same) ts1 where "OnTimer_loop env keys ts1 st = Some (ts', st')"
    | (timeout) dat ts1 n st1 where "SendData env (c_fd c) dat st = Some (n, st1)"
        "OnTimer_loop env keys ts1 (set_conn key (c\<lparr>c_state := CLOSING\<rparr>) st1) = Some (ts', st')"
    | (mp4) st1 where "OnTimerMp4 env key st = Some st1" "OnTimer_loop env keys ts st1 = Some (ts', st')"
    | (raw) st1 where "OnTimerRaw env key st = Some st1" "OnTimer_loop env keys ts st1 = Some (ts', st')"
    by (auto split: if_splits Option.bind_splits)
  then show ?case
  proof cases
    case timeout
    have "step_ok st (set_conn key (c\<lparr>c_state := CLOSING\<rparr>) st1)"
      by (rule step_send_set [OF timeout(1) c]) (simp add: conn_step_def good_state_def)
    with timeout(2) Cons.IH show ?thesis by (blast intro: step_trans)
  qed (use Cons.IH in \<open>blast intro: step_trans steps\<close>)+
qed simp

lemma step_close_all [steps]: "step_ok st (foldl (\<lambda>st fd. CloseConnection fd st) st fds)"
  by (induction fds arbitrary: st) (auto intro: step_trans steps)

lemma step_OnTimer [steps]: "OnTimer env st = Some st' \<Longrightarrow> step_ok st st'"
  by (auto simp: OnTimer_def split: Option.bind_splits intro: step_trans steps)


section \<open>Progress\<close>

text \<open>No connection blocks the sending for ever.\<close>

definition never_stuck :: "surroundings \<Rightarrow> bool" where
  "never_stuck env \<longleftrightarrow> (\<forall>sent fd dat. ends_sending (length dat) (ssl_writes env sent fd dat))"

lemma SendData_returns:
  assumes "never_stuck env"
  obtains n st' where "SendData env fd dat st = Some (n, st')"
proof -
  have "send_loop dat (ssl_writes env (ssl_sent st) fd dat) 0 [] \<noteq> None"
    using assms by (simp only: send_loop_ends never_stuck_def) simp
  then obtain n taken where "send_loop dat (ssl_writes env (ssl_sent st) fd dat) 0 [] = Some (n, taken)" by auto
  then have "\<exists>n st'. SendData env fd dat st = Some (n, st')"
    by (cases "tlsConnections st fd") (simp_all add: SendData_def TlsSendData_def)
  then show thesis using that by blast
qed

end
