(* ===== verification/ServerSamples.thy ===== *)
theory ServerSamples
  imports ServerInv
begin

text \<open>
  A server with one connection, descriptor 7, on which the properties of the server are tried: a
  raw file of one access unit or an MP4 file of two packets.
\<close>

definition sample_env :: surroundings where
  "sample_env = \<lparr>steady_now = 6000000001, system_now = 99,
     ssl_writes = (\<lambda>_ _ dat. [SendAgain, Sent (length dat)]), conn_order = (\<lambda>_. [7]),
     sha1_of = (\<lambda>bs. take 20 bs), base64_of = (\<lambda>bs. bs)\<rparr>"

definition sample_conn :: "ConnState \<Rightarrow> byte list \<Rightarrow> Connection" where
  "sample_conn s buf = (new_connection 7 1 [] 0)\<lparr>c_state := s, recvBuffer := buf\<rparr>"

definition sample_packets :: "MediaPacket list" where
  "sample_packets = [\<lparr>p_type = MEDIA_VIDEO, p_data = [0, 0, 0, 1, 0x65], ptsMs = 0\<rparr>,
     \<lparr>p_type = MEDIA_AUDIO, p_data = [1, 2], ptsMs = 20\<rparr>]"

definition sample_server :: "bool \<Rightarrow> Connection \<Rightarrow> video_server" where
  "sample_server mp4 c = \<lparr>serverFd = 3, epollFd = 4, timerFd = 5, isRunning = True,
     clientIps = [7 \<mapsto> []], sys_log = [],
     tlsConnections = [7 \<mapsto> \<lparr>handshakeComplete = True, tls_fd = 7, recvBuf = [], recvBufOffset = 0\<rparr>],
     ssl_sent = [], connManager = \<lparr>conns = [7 \<mapsto> c], totalConnections = 1\<rparr>, h265 = False,
     mp4Mode = mp4, frameId = 5, frameIntervalMs = 40,
     nalParser = \<lparr>ns_isH265 = False, ns_nalUnits = [[0, 0, 0, 1, 0x65, 0x88]],
       ns_accessUnits = [[[0, 0, 0, 1, 0x65, 0x88]]], ns_frameRate = 25\<rparr>,
     mp4Demuxer = Mp4Demuxer\<lparr>packets := sample_packets\<rparr>\<rparr>"

lemma sample_get [simp]: "get_conn 7 (sample_server mp4 c) = Some c"
  "fd \<noteq> 7 \<Longrightarrow> get_conn fd (sample_server mp4 c) = None"
  by (simp_all add: sample_server_def get_conn_def GetConnection_def)

lemma sample_conn_fields [simp]: "c_fd (sample_conn s b) = 7" "c_id (sample_conn s b) = 1"
  "c_state (sample_conn s b) = s" "recvBuffer (sample_conn s b) = b" "auIndex (sample_conn s b) = 0"
  "packetIndex (sample_conn s b) = 0" "playbackTimeMs (sample_conn s b) = 0"
  "negotiateOfferTime (sample_conn s b) = 0"
  by (simp_all add: sample_conn_def new_connection_def)

lemma sample_fields [simp]: "dom (conns (connManager (sample_server mp4 c))) = {7}"
  "tlsConnections (sample_server mp4 c) = [7 \<mapsto> \<lparr>handshakeComplete = True, tls_fd = 7, recvBuf = [], recvBufOffset = 0\<rparr>]"
  "ssl_sent (sample_server mp4 c) = []" "mp4Mode (sample_server mp4 c) = mp4"
  "packets (mp4Demuxer (sample_server mp4 c)) = sample_packets" "frameId (sample_server mp4 c) = 5"
  "nalParser (sample_server mp4 c) = \<lparr>ns_isH265 = False, ns_nalUnits = [[0, 0, 0, 1, 0x65, 0x88]],
       ns_accessUnits = [[[0, 0, 0, 1, 0x65, 0x88]]], ns_frameRate = 25\<rparr>"
  "h265 (sample_server mp4 c) = False" "frameIntervalMs (sample_server mp4 c) = 40"
  by (auto simp: sample_server_def)

lemma sample_manager: "manager_inv (connManager (sample_server mp4 (sample_conn s b)))"
  by (auto simp: sample_server_def manager_inv_def split: if_splits)

lemma sample_tls: "tls_ok (sample_server mp4 c)"
  by (simp add: tls_ok_def tls_conn_ok_def)

lemma sample_never_stuck: "never_stuck sample_env"
proof -
  have "ends_sending n [SendAgain, Sent n]" for n by (cases n) simp_all
  then show ?thesis by (simp add: never_stuck_def sample_env_def)
qed

end
