(* ===== verification/ServerMedia.thy ===== *)
theory ServerMedia
  imports ServerSamples FrameDelivery
begin

text \<open>
  What the timer of src/server/main.cpp sends: the next access unit of a raw file, or every packet
  of an MP4 file that is due, and how this arrives in the browser.
\<close>

section \<open>Sending over a connection that takes its data\<close>

text \<open>\<open>mbedtls_ssl_write\<close> takes the whole message, in some number of calls and repetitions.\<close>

definition complete_writes :: "nat \<Rightarrow> send_result list \<Rightarrow> bool" where
  "complete_writes n rs \<longleftrightarrow> takes_at_most n rs \<and> ends_sending n rs \<and> SendFailed \<notin> set rs"

definition link_up :: "surroundings \<Rightarrow> int \<Rightarrow> video_server \<Rightarrow> bool" where
  "link_up env fd st \<longleftrightarrow> (\<exists>c. tlsConnections st fd = Some c \<and> handshakeComplete c)
     \<and> (\<forall>sent dat. complete_writes (length dat) (ssl_writes env sent fd dat))"

lemma send_loop_complete:
  assumes "length dat < 2 ^ 31"
  shows "complete_writes (length dat - t) rs \<Longrightarrow> t \<le> length dat
    \<Longrightarrow> send_loop dat rs t (take t dat) = Some (int (length dat), dat)"
proof (induction rs arbitrary: t)
  case Nil
  then show ?case using assms
    by (cases "length dat - t")
      (simp_all add: complete_writes_def send_loop.simps signed_of_nat signed_take_bit_int_eq_self)
next
  case (Cons r rs)
  show ?case
  proof (cases "t < length dat")
    case False
    with Cons.prems assms show ?thesis
      by (simp add: send_loop.simps signed_of_nat signed_take_bit_int_eq_self)
  next
    case True
    then obtain m where m: "length dat - t = Suc m" by (cases "length dat - t") auto
    show ?thesis
    proof (cases r)
      case (Sent k)
      have "complete_writes (length dat - (t + k)) rs" "t + k \<le> length dat"
        using Cons.prems Sent m by (auto simp: complete_writes_def diff_diff_add [symmetric])
      from Cons.IH [OF this] show ?thesis
        using True Sent by (simp add: send_loop.simps [of dat "_ # _"] take_add)
    next
      case SendAgain
      have "complete_writes (length dat - t) rs" using Cons.prems(1) SendAgain m by (simp add: complete_writes_def)
      from Cons.IH [OF this Cons.prems(2)] show ?thesis
        using True SendAgain by (simp add: send_loop.simps [of dat "_ # _"])
    qed (use Cons.prems in \<open>simp add: complete_writes_def\<close>)
  qed
qed

lemma SendData_up:
  assumes "link_up env fd st" and "length dat < 2 ^ 31"
  shows "SendData env fd dat st = Some (int (length dat), st\<lparr>ssl_sent := ssl_sent st @ [(fd, dat)]\<rparr>)"
  using assms send_loop_complete [OF assms(2), of 0]
  by (auto simp: link_up_def SendData_def TlsSendData_def)

lemma link_up_same [simp]:
  "link_up env fd (st\<lparr>ssl_sent := l\<rparr>) = link_up env fd st"
  "link_up env fd (set_conn fd' c st) = link_up env fd st"
  "link_up env fd (next_frame_id st) = link_up env fd st"
  by (simp_all add: link_up_def set_conn_def next_frame_id_def)

lemma set_conn_same [simp]: "get_conn fd st = Some c \<Longrightarrow> set_conn fd c st = st"
  by (simp add: get_conn_def set_conn_def GetConnection_def fun_upd_idem)

lemma set_conn_sent:
  "set_conn fd c (st\<lparr>ssl_sent := l\<rparr>) = (set_conn fd c st)\<lparr>ssl_sent := l\<rparr>"
  by (simp add: set_conn_def)

definition ws_message :: "int \<Rightarrow> byte list \<Rightarrow> int \<times> byte list" where
  "ws_message fd f = (fd, EncodeFrame (WsOpcode_code BINARY) f)"

definition count_sent :: "byte list list \<Rightarrow> Connection \<Rightarrow> Connection" where
  "count_sent fs c = c\<lparr>messagesSent := messagesSent c + of_nat (length fs),
     bytesSent := bytesSent c + of_nat (length (concat fs))\<rparr>"

lemma EncodeFrame_length: "length (EncodeFrame opcode p) \<le> 10 + length p" "0 < length (EncodeFrame opcode p)"
  by (simp_all add: EncodeFrame_def Let_def upt_rec)

lemma send_frames_up:
  assumes "get_conn key st = Some c" and "link_up env (c_fd c) st" and "list_all (\<lambda>f. length f < 2 ^ 30) fs"
  shows "send_frames env key fs st = Some ((set_conn key (count_sent fs c) st)
    \<lparr>ssl_sent := ssl_sent st @ map (ws_message (c_fd c)) fs\<rparr>)"
  using assms
proof (induction fs arbitrary: st c)
  case Nil
  then show ?case by (simp add: count_sent_def)
next
  case (Cons f fs)
  let ?m = "EncodeFrame (WsOpcode_code BINARY) f"
  let ?c1 = "c\<lparr>messagesSent := messagesSent c + 1, bytesSent := bytesSent c + of_nat (length f)\<rparr>"
  have len: "length ?m < 2 ^ 31" "0 < length ?m"
    using Cons.prems(3) EncodeFrame_length [of "WsOpcode_code BINARY" f] by simp_all
  let ?st1 = "st\<lparr>ssl_sent := ssl_sent st @ [(c_fd c, ?m)]\<rparr>"
  have "send_frames env key (f # fs) st = send_frames env key fs (set_conn key ?c1 ?st1)"
    using Cons.prems(1) SendData_up [OF Cons.prems(2) len(1)] len(2) by simp
  also have "\<dots> = Some ((set_conn key (count_sent fs ?c1) (set_conn key ?c1 ?st1))
      \<lparr>ssl_sent := ssl_sent (set_conn key ?c1 ?st1) @ map (ws_message (c_fd ?c1)) fs\<rparr>)"
    using Cons.prems by (intro Cons.IH) simp_all
  also have "count_sent fs ?c1 = count_sent (f # fs) c"
    by (simp add: count_sent_def)
  finally show ?case by (simp add: ws_message_def set_conn_sent)
qed


section \<open>Raw files\<close>

lemma media_frame_length:
  assumes "length te = 4"
  shows "list_all (\<lambda>f. length f < 2 ^ 30) (encode_media mt te payload ts t fid)"
  unfolding list_all_iff
proof
  fix f
  assume "f \<in> set (encode_media mt te payload ts t fid)"
  from encode_media_frame_bound [OF assms this] show "length f < 2 ^ 30"
    by (simp add: FIXED_HEADER_SIZE_def FRAGMENT_THRESHOLD_def)
qed

lemma video_frame_length: "list_all (\<lambda>f. length f < 2 ^ 30) (EncodeVideoFrame payload codec ft ts t fid)"
  by (simp only: EncodeVideoFrame_eq media_frame_length ext_lengths)

lemma audio_frame_length: "list_all (\<lambda>f. length f < 2 ^ 30) (EncodeAudioFrame payload acodec rate ch ts t fid)"
  by (simp only: EncodeAudioFrame_eq media_frame_length ext_lengths)

lemma raw_tick:
  assumes c: "get_conn key st = Some c" and up: "link_up env (c_fd c) st"
    and au: "ns_accessUnits (nalParser st) \<noteq> []"
      "au = ns_accessUnits (nalParser st) ! (auIndex c mod length (ns_accessUnits (nalParser st)))"
    and fs: "fs = access_unit_frames env (auIndex c) au st"
  shows "OnTimerRaw env key st = Some (next_frame_id (set_conn key ((count_sent fs c)\<lparr>auIndex := auIndex c + 1\<rparr>) st)
    \<lparr>ssl_sent := ssl_sent st @ map (ws_message (c_fd c)) fs\<rparr>)"
proof -
  have "GetAccessUnit (ns_accessUnits (nalParser st)) (auIndex c mod length (ns_accessUnits (nalParser st))) = Some au"
    using au by (simp add: GetAccessUnit_def not_le)
  moreover have "send_frames env key fs st = Some ((set_conn key (count_sent fs c) st)
      \<lparr>ssl_sent := ssl_sent st @ map (ws_message (c_fd c)) fs\<rparr>)"
    by (rule send_frames_up [OF c up]) (unfold fs access_unit_frames_def, rule video_frame_length)
  ultimately show ?thesis
    using au(1) c fs by (simp add: OnTimerRaw_def set_conn_def next_frame_id_def get_conn_def GetConnection_def count_sent_def)
qed

text \<open>Whatever its size up to 4 MiB, a video payload is delivered by its last frame.\<close>

lemma video_delivered:
  assumes len: "payload \<noteq> []" "length payload \<le> MAX_FRAGMENTS * FRAGMENT_THRESHOLD"
    and p: "parser_inv p" "frame_absent p fid" and mok: "\<forall>site n. mok site n"
    and fs: "fs = EncodeVideoFrame payload codec ft ts t fid"
  shows "\<exists>p'. parse_seq mok p (Some res) fs
      = Some (replicate (length fs - 1) FRAME_FRAGMENT_PENDING @ [FRAME_COMPLETE], p',
          Some \<lparr>pf_meta = video_meta codec ft ts t, pf_payload = Some payload,
            pf_payload_size = of_nat (length payload)\<rparr>)
    \<and> parser_inv p'"
proof (cases "length payload \<le> FRAGMENT_THRESHOLD")
  case True
  have m: "mok SitePayload (length payload)" using mok by simp
  have "length fs = 1" using True by (simp add: fs EncodeVideoFrame_def Let_def)
  then show ?thesis
    using video.whole_frame_of [where mok = mok, OF True m meta_of_video [symmetric]] p(1) len(1)
    by (simp add: fs EncodeVideoFrame_eq)
next
  case False
  then have "FRAGMENT_THRESHOLD < length payload" by simp
  from video.shuffled_fragments [OF this len(2) p mok _ meta_of_video [symmetric]]
  show ?thesis by (simp add: fs EncodeVideoFrame_eq)
qed

section \<open>MP4 files\<close>

text \<open>The same time as \<open>effective_pts\<close>, in unbounded arithmetic.\<close>

definition duration :: "MediaPacket list \<Rightarrow> int" where
  "duration ps = (let d = ptsMs (ps ! (length ps - 1)) - ptsMs (ps ! 0) in if d \<le> 0 then 1 else d)"

definition ideal_pts :: "MediaPacket list \<Rightarrow> nat \<Rightarrow> int" where
  "ideal_pts ps n = ptsMs (ps ! (n mod length ps)) - ptsMs (ps ! 0) + int (n div length ps) * duration ps"

lemma effective_pts_ideal:
  assumes "0 \<le> ideal_pts ps n" "ideal_pts ps n < 2 ^ 64"
  shows "effective_pts ps n = of_int (ideal_pts ps n)"
proof -
  have "(of_int (ptsMs (ps ! (n mod length ps)) - ptsMs (ps ! 0))
      + of_nat (n div length ps) * of_int (duration ps) :: u64) = of_int (ideal_pts ps n)"
    by (simp add: ideal_pts_def)
  moreover have "unat (of_int (ideal_pts ps n) :: u64) = nat (ideal_pts ps n)"
    using assms by (simp add: unat_eq_nat_uint uint_word_of_int take_bit_eq_mod)
  moreover have "effective_pts ps n = of_nat (unat (of_int (ptsMs (ps ! (n mod length ps)) - ptsMs (ps ! 0))
      + of_nat (n div length ps) * of_int (duration ps) :: u64))"
    by (simp only: effective_pts_def Let_def duration_def)
  ultimately show ?thesis using assms(1) by (simp only: of_nat_nat)
qed

lemma duration_pos: "0 < duration ps"
  by (simp add: duration_def Let_def)

lemma ideal_pts_step:
  assumes sorted: "sorted (map ptsMs ps)" and ne: "ps \<noteq> []"
  shows "ideal_pts ps n \<le> ideal_pts ps (Suc n)" "ideal_pts ps (Suc n) \<le> ideal_pts ps n + duration ps"
proof -
  let ?L = "length ps"
  have nth: "ptsMs (ps ! i) \<le> ptsMs (ps ! j)" if "i \<le> j" "j < ?L" for i j
    using sorted_nth_mono [OF sorted, of i j] that by simp
  have L: "0 < ?L" using ne by simp
  have lt: "n mod ?L < ?L" using L by simp
  have d: "ptsMs (ps ! (?L - 1)) - ptsMs (ps ! 0) \<le> duration ps"
    "duration ps \<le> max 1 (ptsMs (ps ! (?L - 1)) - ptsMs (ps ! 0))"
    by (simp_all add: duration_def Let_def)
  have "ideal_pts ps n \<le> ideal_pts ps (Suc n) \<and> ideal_pts ps (Suc n) \<le> ideal_pts ps n + duration ps"
  proof (cases "Suc (n mod ?L) = ?L")
    case True
    then have "Suc n mod ?L = 0" "Suc n div ?L = Suc (n div ?L)" by (simp_all add: mod_Suc div_Suc)
    moreover have "n mod ?L = ?L - 1" using True by simp
    ultimately have s: "ideal_pts ps (Suc n) = ideal_pts ps n + duration ps
        - (ptsMs (ps ! (?L - 1)) - ptsMs (ps ! 0))"
      by (simp add: ideal_pts_def algebra_simps)
    have "0 \<le> ptsMs (ps ! (?L - 1)) - ptsMs (ps ! 0)" using nth [of 0 "?L - 1"] L by simp
    with s d show ?thesis by linarith
  next
    case False
    then have m: "Suc n mod ?L = Suc (n mod ?L)" "Suc n div ?L = n div ?L" by (simp_all add: mod_Suc div_Suc)
    then have lt': "Suc (n mod ?L) < ?L" using False lt by simp
    have s: "ideal_pts ps (Suc n) = ideal_pts ps n + (ptsMs (ps ! Suc (n mod ?L)) - ptsMs (ps ! (n mod ?L)))"
      by (simp add: ideal_pts_def m)
    have "ptsMs (ps ! (n mod ?L)) \<le> ptsMs (ps ! Suc (n mod ?L))"
      "ptsMs (ps ! Suc (n mod ?L)) \<le> ptsMs (ps ! (?L - 1))" "ptsMs (ps ! 0) \<le> ptsMs (ps ! (n mod ?L))"
      using lt lt' by (auto intro!: nth)
    with s d show ?thesis by linarith
  qed
  then show "ideal_pts ps n \<le> ideal_pts ps (Suc n)" "ideal_pts ps (Suc n) \<le> ideal_pts ps n + duration ps"
    by simp_all
qed

lemma ideal_pts_mono:
  assumes "sorted (map ptsMs ps)" "ps \<noteq> []" "m \<le> n"
  shows "ideal_pts ps m \<le> ideal_pts ps n"
  using lift_Suc_mono_le [of "ideal_pts ps", OF ideal_pts_step(1) [OF assms(1,2)] assms(3)] .

lemma ideal_pts_nonneg:
  assumes "sorted (map ptsMs ps)" "ps \<noteq> []"
  shows "0 \<le> ideal_pts ps n"
  using ideal_pts_mono [OF assms, of 0 n] by (simp add: ideal_pts_def)

text \<open>The number of the first packet that is not due at a time.\<close>

definition due_end :: "MediaPacket list \<Rightarrow> rat \<Rightarrow> nat \<Rightarrow> nat" where
  "due_end ps t i = (LEAST k. i \<le> k \<and> t < of_int (ideal_pts ps k))"

lemma due_end_exists:
  fixes t :: rat
  assumes "sorted (map ptsMs ps)" "ps \<noteq> []"
  shows "\<exists>k. i \<le> k \<and> t < of_int (ideal_pts ps k)"
proof -
  obtain m :: nat where m: "t < of_nat m" using reals_Archimedean2 [of t] by blast
  let ?k = "(m + i) * length ps"
  have "1 \<le> duration ps" using duration_pos [of ps] by simp
  then have "int (m + i) * 1 \<le> int (m + i) * duration ps" by (rule mult_left_mono) simp
  also have "\<dots> = ideal_pts ps ?k" using assms(2) by (simp add: ideal_pts_def)
  finally have "(of_int (int (m + i)) :: rat) \<le> of_int (ideal_pts ps ?k)" by simp
  then have "t < of_int (ideal_pts ps ?k)" using m by simp
  moreover have "i \<le> ?k" using assms(2) by (cases ps) simp_all
  ultimately show ?thesis by blast
qed

lemma due_end_spec:
  assumes "sorted (map ptsMs ps)" "ps \<noteq> []"
  shows "i \<le> due_end ps t i" "t < of_int (ideal_pts ps (due_end ps t i))"
    "i \<le> n \<Longrightarrow> n < due_end ps t i \<Longrightarrow> of_int (ideal_pts ps n) \<le> t"
  using LeastI_ex [OF due_end_exists [OF assms, of i t]] not_less_Least [of n "\<lambda>k. i \<le> k \<and> t < of_int (ideal_pts ps k)"]
  by (auto simp: due_end_def not_less)


lemma GetPacket_cyclic:
  assumes "ps \<noteq> []"
  shows "GetPacket ps (n mod length ps) = Some (ps ! (n mod length ps))"
proof -
  have "n mod length ps < length ps" using assms by (intro mod_less_divisor) simp
  then show ?thesis by (simp add: GetPacket_def)
qed

lemma mp4_loop_stop:
  assumes "get_conn key st = Some c" "ps = packets (mp4Demuxer st)" "ps \<noteq> []"
    and "playbackTimeMs c < effective_pts ps (packetIndex c)"
  shows "mp4_send_loop env key st = Some st"
  using assms GetPacket_cyclic [OF assms(3)]
  by (simp add: mp4_send_loop.simps [of env key st] Let_def)

lemma mp4_loop_go:
  assumes "get_conn key st = Some c" "ps = packets (mp4Demuxer st)" "ps \<noteq> []"
    and "effective_pts ps (packetIndex c) \<le> playbackTimeMs c"
    and "SendPacket env key (ps ! (packetIndex c mod length ps)) st = Some st1" "get_conn key st1 = Some c1"
  shows "mp4_send_loop env key st
    = mp4_send_loop env key (set_conn key (c1\<lparr>packetIndex := packetIndex c1 + 1\<rparr>) st1)"
  using assms GetPacket_cyclic [OF assms(3)]
  by (simp add: mp4_send_loop.simps [of env key st] Let_def)

lemma packet_frames_length: "list_all (\<lambda>f. length f < 2 ^ 30) (packet_frames env pkt st)"
  unfolding packet_frames_def Let_def by (simp only: video_frame_length audio_frame_length split: if_split) simp

lemma SendPacket_up:
  assumes "get_conn key st = Some c" and "link_up env (c_fd c) st"
  shows "SendPacket env key pkt st = Some (next_frame_id (set_conn key (count_sent (packet_frames env pkt st) c) st)
    \<lparr>ssl_sent := ssl_sent st @ map (ws_message (c_fd c)) (packet_frames env pkt st)\<rparr>)"
  using send_frames_up [OF assms packet_frames_length [of env pkt st]]
  by (simp add: SendPacket_def next_frame_id_def)

text \<open>The frames of the packets number \<open>i\<close> to \<open>k - 1\<close>; every packet takes the next frame id.\<close>

definition due_frames :: "surroundings \<Rightarrow> video_server \<Rightarrow> nat \<Rightarrow> nat \<Rightarrow> byte list list" where
  "due_frames env st i k = concat (map (\<lambda>n.
     packet_frames env (packets (mp4Demuxer st) ! (n mod length (packets (mp4Demuxer st))))
       (st\<lparr>frameId := frameId st + of_nat (n - i)\<rparr>)) [i..<k])"

lemma packet_frames_cong:
  "same_media st st' \<Longrightarrow> frameId st' = frameId st \<Longrightarrow> packet_frames env pkt st' = packet_frames env pkt st"
  by (simp add: packet_frames_def same_media_def)

lemma due_frames_step:
  assumes "i < k" and "same_media st st1" and "frameId st1 = frameId st + 1"
  shows "due_frames env st i k
    = packet_frames env (packets (mp4Demuxer st) ! (i mod length (packets (mp4Demuxer st)))) st
      @ due_frames env st1 (Suc i) k"
proof -
  have "packet_frames env pkt (st\<lparr>frameId := frameId st + of_nat (n - i)\<rparr>)
      = packet_frames env pkt (st1\<lparr>frameId := frameId st1 + of_nat (n - Suc i)\<rparr>)" if "Suc i \<le> n" for n pkt
  proof (rule packet_frames_cong)
    have "n - i = Suc (n - Suc i)" using that by simp
    then show "frameId (st\<lparr>frameId := frameId st + of_nat (n - i)\<rparr>)
        = frameId (st1\<lparr>frameId := frameId st1 + of_nat (n - Suc i)\<rparr>)" using assms(3) by (simp add: add.assoc)
  qed (use assms(2) in \<open>simp add: same_media_def\<close>)
  then have "map (\<lambda>n. packet_frames env (p n) (st\<lparr>frameId := frameId st + of_nat (n - i)\<rparr>)) [Suc i..<k]
      = map (\<lambda>n. packet_frames env (p n) (st1\<lparr>frameId := frameId st1 + of_nat (n - Suc i)\<rparr>)) [Suc i..<k]" for p
    by (intro map_cong refl) (simp only: set_upt atLeastLessThan_iff)
  moreover have "mp4Demuxer st1 = mp4Demuxer st" using assms(2) by (simp add: same_media_def)
  moreover have "st\<lparr>frameId := frameId st + of_nat (i - i)\<rparr> = st" by simp
  ultimately show ?thesis
    unfolding due_frames_def upt_conv_Cons [OF assms(1)] by (simp only: list.map concat.simps)
qed

text \<open>The loop returns, having sent exactly the packets that are due.\<close>

definition mp4_sent :: "surroundings \<Rightarrow> int \<Rightarrow> video_server \<Rightarrow> Connection \<Rightarrow> nat \<Rightarrow> video_server \<Rightarrow> bool" where
  "mp4_sent env key st c k st' \<longleftrightarrow>
    (\<exists>c'. get_conn key st' = Some c' \<and> packetIndex c' = k
       \<and> playbackTimeMs c' = playbackTimeMs c \<and> c_state c' = c_state c \<and> c_fd c' = c_fd c)
    \<and> ssl_sent st' = ssl_sent st @ map (ws_message (c_fd c)) (due_frames env st (packetIndex c) k)
    \<and> frameId st' = frameId st + of_nat (k - packetIndex c)"

lemma mp4_loop_sends_due:
  assumes ps: "ps = packets (mp4Demuxer st)" "sorted (map ptsMs ps)" "ps \<noteq> []"
    and c: "get_conn key st = Some c" and up: "link_up env (c_fd c) st"
    and small: "playbackTimeMs c < 2 ^ 62" "duration ps < 2 ^ 62" "ideal_pts ps (packetIndex c) < 2 ^ 63"
  shows "\<exists>st'. mp4_send_loop env key st = Some st'
    \<and> mp4_sent env key st c (due_end ps (playbackTimeMs c) (packetIndex c)) st'"
  using ps(1) c up small
proof (induction "due_end ps (playbackTimeMs c) (packetIndex c) - packetIndex c" arbitrary: st c)
  case 0
  note spec = due_end_spec [OF ps(2,3), where i = "packetIndex c" and t = "playbackTimeMs c"]
  from 0(1) spec(1) have end_now: "due_end ps (playbackTimeMs c) (packetIndex c) = packetIndex c" by simp
  have "effective_pts ps (packetIndex c) = of_int (ideal_pts ps (packetIndex c))"
    using 0(7) by (intro effective_pts_ideal ideal_pts_nonneg ps) simp
  then have "mp4_send_loop env key st = Some st"
    using spec(2) end_now by (intro mp4_loop_stop [OF 0(3,2) ps(3)]) simp
  with end_now 0(3) show ?case by (simp add: due_frames_def mp4_sent_def)
next
  case (Suc m)
  let ?i = "packetIndex c" and ?t = "playbackTimeMs c"
  note spec = due_end_spec [OF ps(2,3), where i = ?i and t = ?t]
  from Suc(2) have lt: "?i < due_end ps ?t ?i" by simp
  have due: "of_int (ideal_pts ps ?i) \<le> ?t" using spec(3) [OF le_refl lt] .
  have eff: "effective_pts ps ?i = of_int (ideal_pts ps ?i)"
    using Suc.prems(6) by (intro effective_pts_ideal ideal_pts_nonneg ps) simp
  let ?fs = "packet_frames env (ps ! (?i mod length ps)) st"
  let ?st1 = "next_frame_id (set_conn key (count_sent ?fs c) st)
    \<lparr>ssl_sent := ssl_sent st @ map (ws_message (c_fd c)) ?fs\<rparr>"
  let ?c2 = "(count_sent ?fs c)\<lparr>packetIndex := ?i + 1\<rparr>"
  let ?st2 = "set_conn key ?c2 ?st1"
  have st1: "SendPacket env key (ps ! (?i mod length ps)) st = Some ?st1"
    using SendPacket_up [OF Suc.prems(2,3)] .
  have "get_conn key ?st1 = Some (count_sent ?fs c)"
    by (simp add: next_frame_id_def)
  from mp4_loop_go [OF Suc.prems(2,1) ps(3) _ st1 this] eff due
  have loop: "mp4_send_loop env key st = mp4_send_loop env key ?st2" by (simp add: count_sent_def)
  have same: "same_media st ?st2" by (simp add: same_media_def next_frame_id_def)
  have fid: "frameId ?st2 = frameId st + 1" by (simp add: next_frame_id_def)
  have c2: "playbackTimeMs ?c2 = ?t" "packetIndex ?c2 = Suc ?i" "c_fd ?c2 = c_fd c" "c_state ?c2 = c_state c"
    by (simp_all add: count_sent_def)
  have e: "due_end ps ?t (Suc ?i) = due_end ps ?t ?i"
  proof -
    have "(?i \<le> k \<and> ?t < of_int (ideal_pts ps k)) = (Suc ?i \<le> k \<and> ?t < of_int (ideal_pts ps k))" for k
      using due by (cases "k = ?i") auto
    then show ?thesis by (simp add: due_end_def)
  qed
  have m: "m = due_end ps (playbackTimeMs ?c2) (packetIndex ?c2) - packetIndex ?c2"
    using Suc(2) e c2 by simp
  have "(of_int (ideal_pts ps ?i) :: rat) < of_int (2 ^ 62)" using due Suc.prems(4) by simp
  then have "ideal_pts ps ?i < 2 ^ 62" by (simp only: of_int_less_iff)
  then have small: "ideal_pts ps (packetIndex ?c2) < 2 ^ 63"
    using ideal_pts_step(2) [OF ps(2,3), of ?i] Suc.prems(5) c2(2) by simp
  have ps2: "ps = packets (mp4Demuxer ?st2)" using Suc.prems(1) by (simp add: next_frame_id_def)
  have up2: "link_up env (c_fd ?c2) ?st2" using Suc.prems(3) c2(3) by simp
  have t2: "playbackTimeMs ?c2 < 2 ^ 62" using Suc.prems(4) c2(1) by simp
  from Suc.hyps(1) [OF m ps2 get_set_conn up2 t2 Suc.prems(5) small]
  obtain st' where IH: "mp4_send_loop env key ?st2 = Some st'"
    "mp4_sent env key ?st2 ?c2 (due_end ps ?t ?i) st'" unfolding c2 e by blast
  have s: "ssl_sent ?st2 = ssl_sent st @ map (ws_message (c_fd c)) ?fs" by simp
  have d: "due_frames env st ?i (due_end ps ?t ?i) = ?fs @ due_frames env ?st2 (Suc ?i) (due_end ps ?t ?i)"
    using due_frames_step [OF lt same fid, of env] Suc.prems(1) by simp
  have n: "due_end ps ?t ?i - ?i = Suc (due_end ps ?t ?i - Suc ?i)" using lt by simp
  have "mp4_sent env key st c (due_end ps ?t ?i) st'"
    using IH(2) unfolding mp4_sent_def c2 fid d n s of_nat_Suc map_append append_assoc add.assoc .
  with IH(1) show ?case unfolding loop by blast
qed


text \<open>The sample server can send.\<close>

lemma sample_link_up: "link_up sample_env 7 (sample_server mp4 c)"
proof -
  have "ends_sending n [SendAgain, Sent n]" for n by (cases n) simp_all
  then show ?thesis by (simp add: link_up_def sample_env_def complete_writes_def)
qed

end
