(* ===== verification/ServerReceive.thy ===== *)
theory ServerReceive
  imports ServerMedia "HOL-Library.Sublist"
begin

text \<open>
  What a client's data does to its connection: the receive loop of src/server/main.cpp is shown to
  be an instance of the abstract loop of \<open>StreamParser\<close>, so that its reaction to a stream does
  not depend on how the stream is cut; then the opening handshake and the negotiation.
\<close>

section \<open>The receive buffer is only the loop's\<close>

definition with_buf :: "int \<Rightarrow> byte list \<Rightarrow> video_server \<Rightarrow> video_server" where
  "with_buf fd b st = (case get_conn fd st of None \<Rightarrow> st | Some c \<Rightarrow> set_conn fd (c\<lparr>recvBuffer := b\<rparr>) st)"

lemma with_buf_Some: "get_conn fd st = Some c \<Longrightarrow> with_buf fd b st = set_conn fd (c\<lparr>recvBuffer := b\<rparr>) st"
  by (simp add: with_buf_def)

lemma get_with_buf [simp]:
  "get_conn fd (with_buf fd b st) = map_option (\<lambda>c. c\<lparr>recvBuffer := b\<rparr>) (get_conn fd st)"
  by (simp add: with_buf_def split: option.splits)

lemma with_buf_twice [simp]: "with_buf fd b (with_buf fd b' st) = with_buf fd b st"
  by (cases "get_conn fd st") (simp_all add: with_buf_def)

lemma with_buf_lower [simp]: "tlsConnections (with_buf fd b st) = tlsConnections st"
  "ssl_sent (with_buf fd b st) = ssl_sent st"
  by (cases "get_conn fd st"; simp add: with_buf_def)+

lemma with_buf_state:
  "set_conn fd (c\<lparr>recvBuffer := b, c_state := s\<rparr>) (with_buf fd b' st) = with_buf fd b (set_conn fd (c\<lparr>c_state := s\<rparr>) st)"
proof -
  have e: "c\<lparr>recvBuffer := b, c_state := s\<rparr> = c\<lparr>c_state := s, recvBuffer := b\<rparr>" by (cases c) simp
  show ?thesis unfolding e by (cases "get_conn fd st") (simp_all add: with_buf_def)
qed

lemma with_buf_sent: "with_buf fd b (st\<lparr>ssl_sent := l\<rparr>) = (with_buf fd b st)\<lparr>ssl_sent := l\<rparr>"
  by (cases "get_conn fd st") (simp_all add: with_buf_def set_conn_def)

lemma with_buf_SendData:
  "SendData env fd' dat (with_buf fd b st) = map_option (apsnd (with_buf fd b)) (SendData env fd' dat st)"
  by (auto simp: SendData_def TlsSendData_def with_buf_sent split: option.splits Option.bind_splits)

lemma with_buf_close: "CloseConnection fd' (with_buf fd b st) = with_buf fd b (CloseConnection fd' st)"
proof -
  have "get_conn fd (CloseConnection fd' st) = get_conn fd st" by simp
  then show ?thesis
    by (cases "get_conn fd st") (simp_all add: with_buf_def CloseConnection_eq set_conn_def)
qed


lemma with_buf_HandleNegotiation:
  assumes "get_conn fd st = Some c"
  shows "HandleNegotiation env fd msg (with_buf fd b st) = map_option (with_buf fd b) (HandleNegotiation env fd msg st)"
proof -
  let ?st1 = "set_conn fd (c\<lparr>c_state := CLOSING\<rparr>) st"
  let ?dat = "CreateCloseFrame 1000 (str ''Negotiation rejected'')"
  show ?thesis
    using assms
    by (cases "SendData env fd ?dat ?st1")
      (auto simp: HandleNegotiation_def with_buf_state with_buf_SendData with_buf_close)
qed

lemma with_buf_HandleFrame:
  assumes "get_conn fd st = Some c"
  shows "HandleFrame env fd frame (with_buf fd b st)
    = map_option (apsnd (with_buf fd b)) (HandleFrame env fd frame st)"
proof -
  note neg = with_buf_HandleNegotiation [OF assms, of env "ws_payload frame" b]
  let ?n = "HandleNegotiation env fd (ws_payload frame) st"
  let ?p = "SendData env fd (CreatePongFrame (ws_payload frame)) st"
  show ?thesis
    using assms neg
    by (cases ?n; cases ?p)
      (auto simp: HandleFrame_def with_buf_state with_buf_SendData with_buf_close)
qed

section \<open>The loop is an instance of the abstract one\<close>

text \<open>The handler of the abstract loop: the reaction to a frame on the server's state.\<close>

definition react :: "surroundings \<Rightarrow> int \<Rightarrow> video_server \<Rightarrow> WsFrame \<Rightarrow> video_server \<times> bool" where
  "react env fd st frame = (case HandleFrame env fd frame st of
      None \<Rightarrow> (st, False) | Some (go, st') \<Rightarrow> (st', go))"

lemma HandleFrame_keeps:
  "get_conn fd st = Some c \<Longrightarrow> HandleFrame env fd frame st = Some (go, st') \<Longrightarrow> \<exists>c'. get_conn fd st' = Some c'"
  by (auto simp: HandleFrame_def HandleNegotiation_def split: if_splits Option.bind_splits)

definition loop_result :: "int \<Rightarrow> (video_server \<times> byte list \<times> drain_end) option \<Rightarrow> video_server option" where
  "loop_result fd r = (case r of None \<Rightarrow> None
     | Some (st, rest, e) \<Rightarrow> if e = Crashed then None else Some (with_buf fd rest st))"

lemma with_buf_same: "get_conn fd st = Some c \<Longrightarrow> recvBuffer c = b \<Longrightarrow> with_buf fd b st = st"
  by (auto simp: with_buf_def get_conn_def set_conn_def GetConnection_def fun_upd_idem)

text \<open>The reaction never waits for ever.\<close>

definition frames_return :: "surroundings \<Rightarrow> int \<Rightarrow> bool" where
  "frames_return env fd \<longleftrightarrow> (\<forall>frame st c. get_conn fd st = Some c \<longrightarrow> HandleFrame env fd frame st \<noteq> None)"

lemma loop_refines:
  assumes env: "frames_return env fd" and "get_conn fd st = Some c" and "length b < 2 ^ 63"
  shows "HandleWebSocketFrame env fd (with_buf fd b st)
    = loop_result fd (drain (ws_next blank_frame) (react env fd) st b)"
  using assms(2,3)
proof (induction "length b" arbitrary: st c b rule: less_induct)
  case less
  have get: "get_conn fd (with_buf fd b st) = Some (c\<lparr>recvBuffer := b\<rparr>)" using less.prems(1) by simp
  note unroll = HandleWebSocketFrame.simps [of env fd "with_buf fd b st"]
  show ?case
  proof (cases "b = []")
    case True
    then show ?thesis using less.prems(1)
      by (simp add: HandleWebSocketFrame.simps [of env fd "with_buf fd [] st"] loop_result_def)
  next
    case False
    show ?thesis
    proof (cases "ws_next blank_frame b")
      case Wait
      then show ?thesis using less.prems(1) False by (simp add: unroll loop_result_def drain.simps)
    next
      case Crash
      then show ?thesis using less.prems(1) False by (simp add: unroll loop_result_def drain.simps)
    next
      case (Item frame k)
      have k: "0 < k" "k \<le> length b" using ws.consumes [OF less.prems(2) Item] by simp_all
      obtain go st1 where h: "HandleFrame env fd frame st = Some (go, st1)"
        using env less.prems(1) by (fastforce simp: frames_return_def)
      have h0: "HandleFrame env fd frame (with_buf fd (drop k b) st) = Some (go, with_buf fd (drop k b) st1)"
        using with_buf_HandleFrame [OF less.prems(1), of env frame "drop k b"] h by simp
      obtain c1 where c1: "get_conn fd st1 = Some c1" using HandleFrame_keeps [OF less.prems(1) h] by blast
      have "set_conn fd (c\<lparr>recvBuffer := drop k b\<rparr>) (with_buf fd b st) = with_buf fd (drop k b) st"
        using less.prems(1) by (simp add: with_buf_Some)
      then have step: "HandleWebSocketFrame env fd (with_buf fd b st)
        = (if go then HandleWebSocketFrame env fd (with_buf fd (drop k b) st1) else Some (with_buf fd (drop k b) st1))"
        using less.prems(1) False Item h0 by (simp add: unroll)
      have dstep: "drain (ws_next blank_frame) (react env fd) st b
        = (if go then drain (ws_next blank_frame) (react env fd) st1 (drop k b) else Some (st1, drop k b, Stopped))"
        using False Item h by (simp add: drain.simps [of _ _ st] react_def)
      have "length (drop k b) < length b" "length (drop k b) < 2 ^ 63" using k less.prems(2) by simp_all
      from less.hyps [OF this(1) c1 this(2)] step dstep show ?thesis by (simp add: loop_result_def)
    qed
  qed
qed


lemma SendData_bind:
  assumes "never_stuck env" and "\<And>n st'. SendData env fd dat st = Some (n, st') \<Longrightarrow> f (n, st') \<noteq> None"
  shows "Option.bind (SendData env fd dat st) f \<noteq> None"
proof -
  obtain n st' where s: "SendData env fd dat st = Some (n, st')" by (rule SendData_returns [OF assms(1)])
  from assms(2) [OF s] show ?thesis by (simp add: s)
qed

lemma HandleNegotiation_returns:
  assumes "never_stuck env" and "get_conn fd st = Some c"
  shows "HandleNegotiation env fd msg st \<noteq> None"
  unfolding HandleNegotiation_def assms(2)
  by (auto simp del: not_None_eq intro!: SendData_bind [OF assms(1)])

lemma frames_return:
  assumes "never_stuck env"
  shows "frames_return env fd"
  unfolding frames_return_def
proof (intro allI impI)
  fix frame :: WsFrame and c and st :: video_server
  assume c: "get_conn fd st = Some c"
  obtain st' where "HandleNegotiation env fd (ws_payload frame) st = Some st'"
    using HandleNegotiation_returns [OF assms c] by blast
  then show "HandleFrame env fd frame st \<noteq> None"
    unfolding HandleFrame_def c
    by (auto simp del: not_None_eq intro!: SendData_bind [OF assms])
qed

section \<open>A stream in pieces\<close>

text \<open>In the state \<open>STREAMING\<close> a frame leaves the connection streaming or ends the loop and closes it.\<close>

lemma streaming_frame:
  assumes "get_conn fd st = Some c" "c_state c = STREAMING" "HandleFrame env fd frame st = Some (go, st')"
  shows "\<exists>c'. get_conn fd st' = Some c' \<and> c_state c' = (if go then STREAMING else CLOSING)"
  using assms by (auto simp: HandleFrame_def split: if_splits Option.bind_splits)

lemma drain_streaming:
  assumes env: "frames_return env fd" and "get_conn fd st = Some c" "c_state c = STREAMING" "length b < 2 ^ 63"
    and "drain (ws_next blank_frame) (react env fd) st b = Some (st', rest, e)"
  shows "\<exists>c'. get_conn fd st' = Some c' \<and> (e \<noteq> Crashed \<longrightarrow> c_state c' = (if e = Waiting then STREAMING else CLOSING))"
  using assms(2-5)
proof (induction "length b" arbitrary: st c b rule: less_induct)
  case less
  show ?case
  proof (cases "b = []")
    case True
    with less.prems show ?thesis by auto
  next
    case False
    show ?thesis
    proof (cases "ws_next blank_frame b")
      case (Item frame k)
      have k: "0 < k" "k \<le> length b" using ws.consumes [OF less.prems(3) Item] by simp_all
      obtain go st1 where h: "HandleFrame env fd frame st = Some (go, st1)"
        using env less.prems(1) by (fastforce simp: frames_return_def)
      obtain c1 where c1: "get_conn fd st1 = Some c1" "c_state c1 = (if go then STREAMING else CLOSING)"
        using streaming_frame [OF less.prems(1,2) h] by blast
      have d: "(if go then drain (ws_next blank_frame) (react env fd) st1 (drop k b) else Some (st1, drop k b, Stopped))
        = Some (st', rest, e)"
        using less.prems(4) False Item h by (simp add: drain.simps [of _ _ st] react_def)
      show ?thesis
      proof (cases go)
        case True
        have "length (drop k b) < length b" "length (drop k b) < 2 ^ 63" using k less.prems(3) by simp_all
        from less.hyps [OF this(1) c1(1) _ this(2)] c1(2) d True show ?thesis by simp
      qed (use c1 d in auto)
    qed (use less.prems False in \<open>auto simp: drain.simps\<close>)
  qed
qed

lemma HandleData_streaming:
  assumes "frames_return env fd" and c: "get_conn fd st = Some c" "c_state c = STREAMING"
    and "length (recvBuffer c @ dat) < 2 ^ 63"
  shows "HandleData env fd dat st
    = loop_result fd (drain (ws_next blank_frame) (react env fd) st (recvBuffer c @ dat))"
  using loop_refines [OF assms(1) c(1) assms(4)] c by (simp add: HandleData_def with_buf_Some)

lemma HandleData_closing:
  "get_conn fd st = Some c \<Longrightarrow> c_state c = CLOSING \<Longrightarrow> HandleData env fd dat st = Some (with_buf fd (recvBuffer c @ dat) st)"
  by (simp add: HandleData_def with_buf_Some)

lemma drain_react_buf:
  assumes env: "frames_return env fd" and "get_conn fd st = Some c" "length b < 2 ^ 63"
  shows "loop_result fd (drain (ws_next blank_frame) (react env fd) (with_buf fd b' st) b)
    = loop_result fd (drain (ws_next blank_frame) (react env fd) st b)"
proof -
  have "get_conn fd (with_buf fd b' st) = Some (c\<lparr>recvBuffer := b'\<rparr>)" using assms(2) by simp
  from loop_refines [OF env this assms(3)] loop_refines [OF env assms(2,3)] show ?thesis by simp
qed

lemma two_pieces:
  assumes env: "frames_return env fd" and c: "get_conn fd st = Some c" "c_state c \<in> {STREAMING, CLOSING}"
    and len: "length (recvBuffer c @ a @ b) < 2 ^ 63"
  shows "Option.bind (HandleData env fd a st) (HandleData env fd b) = HandleData env fd (a @ b) st"
proof (cases "c_state c = STREAMING")
  case False
  then have "c_state c = CLOSING" using c(2) by simp
  with c(1) show ?thesis by (simp add: HandleData_closing)
next
  case True
  let ?d = "drain (ws_next blank_frame) (react env fd)"
  let ?x = "recvBuffer c @ a"
  have len_a: "length ?x < 2 ^ 63" and len_ab: "length (?x @ b) < 2 ^ 63" using len by simp_all
  obtain st' k e where d: "?d st ?x = Some (st', drop k ?x, e)"
    and "e = Waiting \<longrightarrow> ws_next blank_frame (drop k ?x) = Wait" by (rule ws.drain_total [OF len_a])
  obtain c' where c': "get_conn fd st' = Some c'"
    "e \<noteq> Crashed \<longrightarrow> c_state c' = (if e = Waiting then STREAMING else CLOSING)"
    using drain_streaming [OF env c(1) True len_a d] by blast
  have one: "HandleData env fd a st = loop_result fd (?d st ?x)"
    by (rule HandleData_streaming [OF env c(1) True len_a])
  have two: "HandleData env fd (a @ b) st = loop_result fd (?d st (?x @ b))"
    using HandleData_streaming [OF env c(1) True, of "a @ b"] len by simp
  note exact = ws.drain_append_exact [OF len_ab d]
  let ?rest = "drop k ?x" and ?st1 = "with_buf fd (drop k ?x) st'"
  have get1: "get_conn fd ?st1 = Some (c'\<lparr>recvBuffer := ?rest\<rparr>)" using c'(1) by simp
  have len_rest: "length (?rest @ b) < 2 ^ 63" using len by simp
  show ?thesis
  proof (cases e)
    case Waiting
    have "HandleData env fd b ?st1 = loop_result fd (?d ?st1 (?rest @ b))"
      using HandleData_streaming [OF env get1, of b] len_rest c'(2) Waiting by simp
    also have "\<dots> = loop_result fd (?d st' (?rest @ b))" by (rule drain_react_buf [OF env c'(1) len_rest])
    also have "\<dots> = HandleData env fd (a @ b) st" using two exact Waiting by simp
    finally show ?thesis using one d Waiting by (simp add: loop_result_def)
  next
    case Stopped
    have "HandleData env fd b ?st1 = Some (with_buf fd (?rest @ b) st')"
      using HandleData_closing [OF get1, of env b] c'(2) Stopped by simp
    also have "\<dots> = HandleData env fd (a @ b) st" using two exact Stopped by (simp add: loop_result_def)
    finally show ?thesis using one d Stopped by (simp add: loop_result_def)
  next
    case Crashed
    then show ?thesis using one two exact d by (simp add: loop_result_def)
  qed
qed


section \<open>No stream without an accepted answer\<close>

definition accepting :: "WsFrame \<Rightarrow> bool" where
  "accepting frame \<longleftrightarrow> ws_opcode frame = WsOpcode_code TEXT
     \<and> ExtractJsonString (ws_payload frame) (str ''type'') = str ''media-answer''
     \<and> ExtractJsonBool (ws_payload frame) (str ''accepted'') False"

lemma HandleFrame_effect:
  assumes "get_conn fd st = Some c" and "HandleFrame env fd frame st = Some (go, st')" "get_conn fd st' = Some c'"
  shows "recvBuffer c' = recvBuffer c
    \<and> (c_state c' = STREAMING \<longrightarrow> c_state c = STREAMING \<or> c_state c = NEGOTIATING \<and> accepting frame)
    \<and> (c_state c' = NEGOTIATING \<longrightarrow> c_state c = NEGOTIATING)"
  using assms
  by (auto simp: HandleFrame_def HandleNegotiation_def accepting_def split: if_splits Option.bind_splits)

lemma loop_streams_only_if_accepted:
  assumes "HandleWebSocketFrame env fd st = Some st'" and "get_conn fd st = Some c" "c_state c \<noteq> STREAMING"
    and "get_conn fd st' = Some c'" "c_state c' = STREAMING"
  shows "c_state c = NEGOTIATING \<and> (\<exists>b frame n. suffix b (recvBuffer c) \<and> ws_next blank_frame b = Item frame n \<and> accepting frame)"
  using assms
proof (induction arbitrary: c rule: HandleWebSocketFrame.raw_induct [rotated, consumes 1, case_names 1])
  case (1 f env fd st st' c)
  show ?case
  proof (cases "recvBuffer c = []")
    case True
    with 1 show ?thesis by simp
  next
    case False
    show ?thesis
    proof (cases "ws_next blank_frame (recvBuffer c)")
      case (Item frame k)
      let ?st0 = "set_conn fd (c\<lparr>recvBuffer := drop k (recvBuffer c)\<rparr>) st"
      from 1(2,3) False Item obtain go st1 where handled: "HandleFrame env fd frame ?st0 = Some (go, st1)"
        and rest: "(if go then f env fd st1 else Some st1) = Some st'"
        by (auto split: Option.bind_splits)
      obtain c1 where c1: "get_conn fd st1 = Some c1" using HandleFrame_keeps [OF get_set_conn handled] by blast
      from HandleFrame_effect [OF get_set_conn handled c1]
      have e: "recvBuffer c1 = drop k (recvBuffer c)"
        "c_state c1 = STREAMING \<Longrightarrow> c_state c = NEGOTIATING \<and> accepting frame"
        "c_state c1 = NEGOTIATING \<Longrightarrow> c_state c = NEGOTIATING" using 1(4) by auto
      show ?thesis
      proof (cases "c_state c1 = STREAMING")
        case True
        with e(2) Item show ?thesis by auto
      next
        case no: False
        with rest c1 1(5,6) have "f env fd st1 = Some st'" by (cases go) auto
        from 1(1) [OF this c1 no 1(5,6)] obtain b frame' n where
          b: "c_state c1 = NEGOTIATING" "suffix b (recvBuffer c1)" "ws_next blank_frame b = Item frame' n" "accepting frame'"
          by blast
        have "suffix b (recvBuffer c)" using b(2) e(1) suffix_drop suffix_order.trans by metis
        with b e(3) show ?thesis by blast
      qed
    qed (use 1 False in simp_all)
  qed
qed


section \<open>Properties\<close>

lemma loop_item:
  assumes "get_conn fd st = Some c" and "recvBuffer c \<noteq> []"
    and "ws_next blank_frame (recvBuffer c) = Item frame k"
  shows "HandleWebSocketFrame env fd st = Option.bind (HandleFrame env fd frame
      (set_conn fd (c\<lparr>recvBuffer := drop k (recvBuffer c)\<rparr>) st))
    (\<lambda>(go, st1). if go then HandleWebSocketFrame env fd st1 else Some st1)"
  using assms by (subst HandleWebSocketFrame.simps) simp

text \<open>The pieces of a stream, handled one after the other.\<close>

fun receive_all :: "surroundings \<Rightarrow> int \<Rightarrow> byte list list \<Rightarrow> video_server \<Rightarrow> video_server option" where
  "receive_all env fd [] st = Some st"
| "receive_all env fd (p # ps) st = Option.bind (HandleData env fd p st) (receive_all env fd ps)"

lemma receive_all_snoc:
  "receive_all env fd (ps @ [p]) st = Option.bind (receive_all env fd ps st) (HandleData env fd p)"
  by (induction ps arbitrary: st) (auto split: Option.bind_splits)

text \<open>C13: on a streaming connection the server's reaction does not depend on how the client's bytes are
  cut into pieces: handling the pieces one by one ends in the same state of the whole server,
  with the same messages sent and the same bytes left over, as handling all of them at once;
  also when a close frame, a crash or half a frame is among them.\<close>

theorem pieces_as_one:
  assumes "never_stuck env" and "get_conn fd st = Some c" "c_state c = STREAMING"
    and "length (recvBuffer c @ concat pieces) < 2 ^ 63" and "pieces \<noteq> []"
  shows "receive_all env fd pieces st = HandleData env fd (concat pieces) st"
  using assms(5,4)
proof (induction pieces rule: rev_nonempty_induct)
  case (single p)
  then show ?case by (cases "HandleData env fd p st") simp_all
next
  case (snoc p ps)
  have "receive_all env fd ps st = HandleData env fd (concat ps) st" using snoc by simp
  moreover have "c_state c \<in> {STREAMING, CLOSING}" using assms(3) by simp
  ultimately show ?case
    using two_pieces [OF frames_return [OF assms(1)] assms(2), of "concat ps" p] snoc.prems
    by (simp add: receive_all_snoc)
qed

text \<open>C4: no stream without consent: data turns a connection to streaming only from the negotiation,
  and only when the bytes received hold a text frame with a media answer that accepts.\<close>

theorem streams_only_if_accepted:
  assumes "HandleData env fd dat st = Some st'" and "get_conn fd st = Some c" "c_state c \<noteq> STREAMING"
    and "get_conn fd st' = Some c'" "c_state c' = STREAMING"
  shows "c_state c = NEGOTIATING \<and> (\<exists>b frame n. suffix b (recvBuffer c @ dat)
      \<and> ws_next blank_frame b = Item frame n \<and> accepting frame)"
proof -
  let ?c1 = "c\<lparr>recvBuffer := recvBuffer c @ dat\<rparr>"
  let ?st1 = "set_conn fd ?c1 st"
  have "c_state c \<noteq> HANDSHAKING_WS"
  proof
    assume "c_state c = HANDSHAKING_WS"
    with assms(1,2) have "ServerHandshake env fd ?st1 = Some st'" by (simp add: HandleData_def Let_def)
    with assms(4,5) \<open>c_state c = HANDSHAKING_WS\<close> show False
      by (auto simp: ServerHandshake_def SendMediaOffer_def Let_def split: if_splits option.splits Option.bind_splits)
  qed
  then have "HandleWebSocketFrame env fd ?st1 = Some st' \<or> st' = ?st1"
    using assms(1,2) by (auto simp: HandleData_def Let_def split: if_splits)
  then show ?thesis
    using loop_streams_only_if_accepted [of env fd ?st1 st' ?c1 c'] assms(3-5) by auto
qed

text \<open>C22: the opening handshake: when the request is complete and its key is found, the server answers,
  offers its media in a text frame and waits for the answer, with an empty buffer and the time
  of the offer noted.\<close>

theorem handshake_offers_media:
  assumes "get_conn fd st = Some c" "c_state c = HANDSHAKING_WS" and "link_up env fd st"
    and "recvBuffer c @ dat = request" "IsHttpRequest request" "str_find request (CRLF @ CRLF) 0 \<noteq> None"
    and "HandleHandshake (sha1_of env) (base64_of env) request = Some response" "length response < 2 ^ 31"
  shows "\<exists>st'. HandleData env fd dat st = Some st'
    \<and> ssl_sent st' = ssl_sent st @ [(fd, response), (fd, EncodeFrame (WsOpcode_code TEXT) (BuildMediaOffer st))]
    \<and> get_conn fd st' = Some (c\<lparr>c_state := NEGOTIATING, recvBuffer := [], negotiateOfferTime := steady_now env\<rparr>)"
proof -
  let ?st0 = "set_conn fd (c\<lparr>recvBuffer := request\<rparr>) st"
  let ?st1 = "?st0\<lparr>ssl_sent := ssl_sent st @ [(fd, response)]\<rparr>"
  let ?c2 = "c\<lparr>recvBuffer := [], c_state := CONNECTED\<rparr>"
  let ?st2 = "set_conn fd ?c2 ?st1"
  let ?offer = "EncodeFrame (WsOpcode_code TEXT) (BuildMediaOffer st)"
  have up: "link_up env fd ?st0" "link_up env fd ?st2" using assms(3) by simp_all
  have s1: "SendData env fd response ?st0 = Some (int (length response), ?st1)"
    using SendData_up [OF up(1) assms(8)] by simp
  have offer: "BuildMediaOffer ?st2 = BuildMediaOffer st" by (simp add: BuildMediaOffer_def set_conn_def)
  have "length (BuildMediaOffer st) \<le> 511"
    by (simp only: BuildMediaOffer_def Let_def length_take min.cobounded2)
  then have "length ?offer < 2 ^ 31" using EncodeFrame_length(1) [of "WsOpcode_code TEXT" "BuildMediaOffer st"] by simp
  from SendData_up [OF up(2) this]
  have s2: "SendMediaOffer env fd ?st2 = Some (set_conn fd (?c2\<lparr>c_state := NEGOTIATING, negotiateOfferTime := steady_now env\<rparr>)
      (?st2\<lparr>ssl_sent := ssl_sent ?st2 @ [(fd, ?offer)]\<rparr>))"
    by (simp add: SendMediaOffer_def offer)
  have "ServerHandshake env fd ?st0 = SendMediaOffer env fd ?st2"
    using assms(5-7) s1 by (auto simp: ServerHandshake_def)
  moreover have "HandleData env fd dat st = ServerHandshake env fd ?st0"
    using assms(1,2,4) by (simp add: HandleData_def)
  moreover have "?c2\<lparr>c_state := NEGOTIATING, negotiateOfferTime := steady_now env\<rparr>
      = c\<lparr>c_state := NEGOTIATING, recvBuffer := [], negotiateOfferTime := steady_now env\<rparr>" by (cases c) simp
  ultimately show ?thesis using s2 by simp
qed

lemma answer_effect:
  assumes "get_conn fd st = Some c" "c_state c = NEGOTIATING" "recvBuffer c = []" and "link_up env fd st"
    and "ws_key_ok key" "length (ws_encode True (WsOpcode_code TEXT) key msg) < 2 ^ 63"
    and "ExtractJsonString msg (str ''type'') = str ''media-answer''"
  shows "HandleData env fd (ws_encode True (WsOpcode_code TEXT) key msg) st = Some
    (if ExtractJsonBool msg (str ''accepted'') False then set_conn fd (c\<lparr>c_state := STREAMING\<rparr>) st
     else CloseConnection fd ((set_conn fd (c\<lparr>c_state := CLOSING\<rparr>) st)
       \<lparr>ssl_sent := ssl_sent st @ [(fd, CreateCloseFrame 1000 (str ''Negotiation rejected''))]\<rparr>))"
proof -
  let ?f = "(True, WsOpcode_code TEXT, key, msg)"
  let ?dat = "ws_encode True (WsOpcode_code TEXT) key msg"
  have ok: "client_frame_ok ?f" "length (client_bytes ?f @ []) < 2 ^ 63" using assms(5,6) by simp_all
  note nxt = ws_next_client [OF ok]
  let ?st1 = "set_conn fd (c\<lparr>recvBuffer := ?dat\<rparr>) st"
  let ?frame = "handled_frame blank_frame ?f"
  have c0: "c\<lparr>recvBuffer := []\<rparr> = c" using assms(3) by (cases c) simp
  have st0: "set_conn fd (c\<lparr>recvBuffer := []\<rparr>) st = st" using assms(1) by (simp add: c0)
  have run: "HandleData env fd ?dat st = HandleWebSocketFrame env fd ?st1"
    using assms(1-3) by (simp add: HandleData_def)
  have step: "HandleWebSocketFrame env fd ?st1 = Option.bind (HandleFrame env fd ?frame st)
      (\<lambda>(go, st'). if go then HandleWebSocketFrame env fd st' else Some st')"
  proof -
    obtain c1 where c1: "c1 = c\<lparr>recvBuffer := ?dat\<rparr>" by simp
    have b: "recvBuffer c1 = ?dat" "c1\<lparr>recvBuffer := []\<rparr> = c" using c0 by (simp_all add: c1)
    have get: "get_conn fd (set_conn fd c1 st) = Some c1" by simp
    have item: "ws_next blank_frame (recvBuffer c1) = Item ?frame (length ?dat)"
      using nxt(1) [of blank_frame] by (simp only: b client_bytes.simps append_Nil2)
    have ne: "recvBuffer c1 \<noteq> []" using nxt(2) by (simp only: b client_bytes.simps) simp
    have "set_conn fd (c1\<lparr>recvBuffer := drop (length ?dat) (recvBuffer c1)\<rparr>) (set_conn fd c1 st) = st"
      using assms(1) by (simp only: b drop_all order_refl set_set_conn set_conn_same)
    with loop_item [OF get ne item, of env] show ?thesis by (simp only: c1)
  qed
  have idle: "HandleWebSocketFrame env fd s = Some s" if "get_conn fd s = Some d" "recvBuffer d = []" for s d
    using that by (simp add: HandleWebSocketFrame.simps [of env fd s])
  let ?m = "CreateCloseFrame 1000 (str ''Negotiation rejected'')"
  have "length ?m = 24" by code_simp
  then have "length ?m < 2 ^ 31" by simp
  from SendData_up [OF _ this, of env fd "set_conn fd (c\<lparr>c_state := CLOSING\<rparr>) st"] assms(4)
  have s: "SendData env fd ?m (set_conn fd (c\<lparr>c_state := CLOSING\<rparr>) st) = Some (int (length ?m),
      (set_conn fd (c\<lparr>c_state := CLOSING\<rparr>) st)\<lparr>ssl_sent := ssl_sent st @ [(fd, ?m)]\<rparr>)" by simp
  show ?thesis
  proof (cases "ExtractJsonBool msg (str ''accepted'') False")
    case True
    then have "HandleFrame env fd ?frame st = Some (True, set_conn fd (c\<lparr>c_state := STREAMING\<rparr>) st)"
      using assms(1,2,7) by (simp add: HandleFrame_def HandleNegotiation_def)
    then show ?thesis
      using run step True idle [of "set_conn fd (c\<lparr>c_state := STREAMING\<rparr>) st"] assms(3) by simp
  next
    case False
    let ?stop = "CloseConnection fd ((set_conn fd (c\<lparr>c_state := CLOSING\<rparr>) st)\<lparr>ssl_sent := ssl_sent st @ [(fd, ?m)]\<rparr>)"
    have "HandleFrame env fd ?frame st = Some (True, ?stop)"
      using assms(1,2,7) False s by (simp add: HandleFrame_def HandleNegotiation_def)
    then show ?thesis using run step False idle [of ?stop] assms(3) by simp
  qed
qed

text \<open>C23: the answer decides: a media answer that accepts makes the connection stream, any other one
  closes it after a close frame with code 1000; nothing else is sent.\<close>

theorem answer_decides:
  assumes "get_conn fd st = Some c" "c_state c = NEGOTIATING" "recvBuffer c = []" and "link_up env fd st"
    and "ws_key_ok key" "length (ws_encode True (WsOpcode_code TEXT) key msg) < 2 ^ 63"
    and "ExtractJsonString msg (str ''type'') = str ''media-answer''"
  shows "HandleData env fd (ws_encode True (WsOpcode_code TEXT) key msg) st = Some
    (if ExtractJsonBool msg (str ''accepted'') False then set_conn fd (c\<lparr>c_state := STREAMING\<rparr>) st
     else CloseConnection fd ((set_conn fd (c\<lparr>c_state := CLOSING\<rparr>) st)
       \<lparr>ssl_sent := ssl_sent st @ [(fd, CreateCloseFrame 1000 (str ''Negotiation rejected''))]\<rparr>))"
  using assms by (rule answer_effect)

section \<open>Witnesses\<close>

theorem pieces_as_one_witness:
  "receive_all sample_env 7 [[0x89], [0x80, 1, 2], [3, 4, 0x88]] (sample_server False (sample_conn STREAMING []))
    = HandleData sample_env 7 [0x89, 0x80, 1, 2, 3, 4, 0x88] (sample_server False (sample_conn STREAMING []))"
  using pieces_as_one [OF sample_never_stuck sample_get(1), where c = "sample_conn STREAMING []"
      and pieces = "[[0x89], [0x80, 1, 2], [3, 4, 0x88]]"]
  by simp

definition sample_answer :: "byte list" where
  "sample_answer = str ''{\"type\":\"media-answer\",\"payload\":{\"accepted\":true}}''"

lemma sample_answer_accepts:
  "ExtractJsonString sample_answer (str ''type'') = str ''media-answer''"
  "ExtractJsonBool sample_answer (str ''accepted'') False"
  "length (ws_encode True (WsOpcode_code TEXT) (Some [1, 2, 3, 4]) sample_answer) < 200"
  by code_simp+

lemma sample_consent:
  "HandleData sample_env 7 (ws_encode True (WsOpcode_code TEXT) (Some [1, 2, 3, 4]) sample_answer)
      (sample_server False (sample_conn NEGOTIATING []))
    = Some (set_conn 7 ((sample_conn NEGOTIATING [])\<lparr>c_state := STREAMING\<rparr>) (sample_server False (sample_conn NEGOTIATING [])))"
  using answer_effect [OF sample_get(1) [of False "sample_conn NEGOTIATING []"] _ _ sample_link_up,
      where key = "Some [1, 2, 3, 4]" and msg = sample_answer]
    sample_answer_accepts by (simp add: ws_key_ok_def)

theorem streams_only_if_accepted_witness:
  "\<exists>b frame n. suffix b ([] @ ws_encode True (WsOpcode_code TEXT) (Some [1, 2, 3, 4]) sample_answer)
      \<and> ws_next blank_frame b = Item frame n \<and> accepting frame"
  using streams_only_if_accepted [OF sample_consent sample_get(1) _ get_set_conn] by simp

theorem answer_decides_witness:
  "\<exists>st'. HandleData sample_env 7 (ws_encode True (WsOpcode_code TEXT) (Some [1, 2, 3, 4]) sample_answer)
      (sample_server False (sample_conn NEGOTIATING [])) = Some st'
    \<and> get_conn 7 st' = Some ((sample_conn NEGOTIATING [])\<lparr>c_state := STREAMING\<rparr>)"
  using answer_decides [OF sample_get(1) [of False "sample_conn NEGOTIATING []"] _ _ sample_link_up,
      where key = "Some [1, 2, 3, 4]" and msg = sample_answer]
    sample_answer_accepts by (simp add: ws_key_ok_def)

definition sample_request :: "byte list" where
  "sample_request = str ''GET / HTTP/1.1'' @ CRLF @ str ''Sec-WebSocket-Key: abc '' @ CRLF @ CRLF"

definition sample_response :: "byte list" where
  "sample_response = the (HandleHandshake (\<lambda>bs. take 20 bs) (\<lambda>bs. bs) sample_request)"

theorem handshake_offers_media_witness:
  "\<exists>st'. HandleData sample_env 7 (drop 9 sample_request)
      (sample_server False (sample_conn HANDSHAKING_WS (take 9 sample_request))) = Some st'
    \<and> map fst (ssl_sent st') = [7, 7] \<and> map_option c_state (get_conn 7 st') = Some NEGOTIATING"
proof -
  let ?st = "sample_server False (sample_conn HANDSHAKING_WS (take 9 sample_request))"
  have r: "IsHttpRequest sample_request" "str_find sample_request (CRLF @ CRLF) 0 \<noteq> None"
    "HandleHandshake (\<lambda>bs. take 20 bs) (\<lambda>bs. bs) sample_request = Some sample_response"
    "length sample_response < 200"
    by code_simp+
  have e: "sha1_of sample_env = (\<lambda>bs. take 20 bs)" "base64_of sample_env = (\<lambda>bs. bs)"
    by (simp_all add: sample_env_def)
  have c: "recvBuffer (sample_conn HANDSHAKING_WS (take 9 sample_request)) @ drop 9 sample_request = sample_request"
    by simp
  have h: "HandleHandshake (sha1_of sample_env) (base64_of sample_env) sample_request = Some sample_response"
    unfolding e by (rule r(3))
  have l: "length sample_response < 2 ^ 31" using r(4) by simp
  from handshake_offers_media [OF sample_get(1) _ sample_link_up c r(1,2) h l, of False]
  show ?thesis by auto
qed

end
