(* ===== verification/ServerTimer.thy ===== *)
theory ServerTimer
  imports ServerMedia
begin

text \<open>
  The timer callback of src/server/main.cpp over all connections: to whom it sends, whom it closes,
  and that a tick in raw mode reaches the browser.
\<close>

section \<open>Sending leaves the states of connections alone\<close>

definition conn_view :: "Connection \<Rightarrow> int \<times> int \<times> ConnState \<times> int" where
  "conn_view c = (c_fd c, c_id c, c_state c, negotiateOfferTime c)"

text \<open>Only messages to \<open>fd\<close> are sent, only the connection \<open>key\<close> is changed; descriptors, states and
  TLS connections stay as they are.\<close>

definition media_step :: "int \<Rightarrow> int \<Rightarrow> video_server \<Rightarrow> video_server \<Rightarrow> bool" where
  "media_step key fd st st' \<longleftrightarrow>
     (\<forall>k. map_option conn_view (get_conn k st') = map_option conn_view (get_conn k st))
     \<and> (\<forall>k. k \<noteq> key \<longrightarrow> get_conn k st' = get_conn k st)
     \<and> same_media st st' \<and> tlsConnections st' = tlsConnections st
     \<and> (\<exists>l. ssl_sent st' = ssl_sent st @ l \<and> fst ` set l \<subseteq> {fd})"

lemma media_step_refl [simp]: "media_step key fd st st"
  by (auto simp: media_step_def same_media_def)

lemma media_step_trans:
  assumes "media_step key fd a b" and "media_step key fd b c"
  shows "media_step key fd a c"
proof -
  obtain l l' where "ssl_sent b = ssl_sent a @ l" "fst ` set l \<subseteq> {fd}"
    "ssl_sent c = ssl_sent b @ l'" "fst ` set l' \<subseteq> {fd}"
    using assms by (auto simp: media_step_def)
  then have "ssl_sent c = ssl_sent a @ (l @ l') \<and> fst ` set (l @ l') \<subseteq> {fd}" by (simp add: image_Un)
  then have "\<exists>l. ssl_sent c = ssl_sent a @ l \<and> fst ` set l \<subseteq> {fd}" by (rule exI)
  with assms show ?thesis by (simp only: media_step_def same_media_def) simp
qed

lemma media_step_view:
  assumes "media_step key fd st st'" and "get_conn k st = Some c"
  obtains c' where "get_conn k st' = Some c'" "conn_view c' = conn_view c"
proof -
  have "map_option conn_view (get_conn k st') = Some (conn_view c)"
    using assms by (simp add: media_step_def)
  then show thesis using that by auto
qed

lemma media_step_set:
  assumes "get_conn key st = Some c" and "conn_view c' = conn_view c"
  shows "media_step key fd st (set_conn key c' st)"
proof -
  have "map_option conn_view (get_conn k (set_conn key c' st)) = map_option conn_view (get_conn k st)" for k
    using assms by (cases "k = key") simp_all
  then show ?thesis by (simp add: media_step_def same_media_def)
qed

lemma media_step_send:
  assumes "SendData env fd dat st = Some (n, st')"
  shows "media_step key fd st st'"
proof -
  have "\<exists>l. st' = st\<lparr>ssl_sent := ssl_sent st @ l\<rparr> \<and> fst ` set l \<subseteq> {fd}"
    using assms by (auto simp: SendData_def TlsSendData_def split: option.splits if_splits Option.bind_splits
        intro: exI [of _ "[]"])
  then show ?thesis by (auto simp: media_step_def same_media_def)
qed

lemma media_step_next [simp]: "media_step key fd st (next_frame_id st)"
  by (auto simp: media_step_def next_frame_id_def same_media_def)

lemma media_step_send_frames:
  assumes "get_conn key st = Some c" and "send_frames env key fs st = Some st'"
  shows "media_step key (c_fd c) st st'"
  using assms
proof (induction fs arbitrary: st c)
  case (Cons f fs)
  from Cons.prems obtain n st1 where
    s: "SendData env (c_fd c) (EncodeFrame (WsOpcode_code BINARY) f) st = Some (n, st1)"
    by (auto split: Option.bind_splits)
  let ?c1 = "c\<lparr>messagesSent := messagesSent c + 1, bytesSent := bytesSent c + of_nat (length f)\<rparr>"
  let ?c2 = "if n > 0 then ?c1 else c"
  let ?st2 = "if n > 0 then set_conn key ?c1 st1 else st1"
  have c1: "get_conn key st1 = Some c" using s Cons.prems(1) by simp
  have "send_frames env key fs ?st2 = Some st'" using Cons.prems s c1 by simp
  moreover have "get_conn key ?st2 = Some ?c2" using c1 by simp
  ultimately have "media_step key (c_fd ?c2) ?st2 st'" using Cons.IH by blast
  moreover have "c_fd ?c2 = c_fd c" by simp
  ultimately have rest: "media_step key (c_fd c) ?st2 st'" by (simp only:)
  have "media_step key (c_fd c) st1 ?st2" using media_step_set [OF c1, of ?c1] by (simp add: conn_view_def)
  from media_step_trans [OF media_step_send [OF s] media_step_trans [OF this rest]] show ?case .
qed simp

lemma media_step_SendPacket:
  "get_conn key st = Some c \<Longrightarrow> SendPacket env key pkt st = Some st' \<Longrightarrow> media_step key (c_fd c) st st'"
  by (auto simp: SendPacket_def split: Option.bind_splits
      intro: media_step_trans media_step_next media_step_send_frames)

lemma view_fd: "conn_view c' = conn_view c \<Longrightarrow> c_fd c' = c_fd c"
  by (simp add: conn_view_def)

lemma media_step_mp4_loop:
  assumes "mp4_send_loop env key st = Some st'" and "get_conn key st = Some c"
  shows "media_step key (c_fd c) st st'"
  using assms
proof (induction arbitrary: c rule: mp4_send_loop.raw_induct [rotated, consumes 1, case_names 1])
  case (1 f env key st st' c)
  from 1(2,3) consider "st' = st"
    | pkt st1 c1 where "SendPacket env key pkt st = Some st1" "get_conn key st1 = Some c1"
        "f env key (set_conn key (c1\<lparr>packetIndex := packetIndex c1 + 1\<rparr>) st1) = Some st'"
    by (auto simp: Let_def split: if_splits option.splits Option.bind_splits)
  then show ?case
  proof cases
    case 2
    let ?c2 = "c1\<lparr>packetIndex := packetIndex c1 + 1\<rparr>"
    note p = media_step_SendPacket [OF 1(3) 2(1)]
    have fd: "c_fd c1 = c_fd c" using media_step_view [OF p 1(3)] 2(2) by (metis option.inject view_fd)
    have "media_step key (c_fd c) st1 (set_conn key ?c2 st1)"
      by (rule media_step_set [OF 2(2)]) (simp add: conn_view_def)
    moreover have "media_step key (c_fd ?c2) (set_conn key ?c2 st1) st'" using 1(1) [OF 2(3)] by simp
    ultimately have "media_step key (c_fd c) st1 st'" using fd by (auto intro: media_step_trans)
    with p show ?thesis by (rule media_step_trans)
  qed simp
qed

lemma media_step_OnTimerMp4:
  assumes "get_conn key st = Some c" and "OnTimerMp4 env key st = Some st'"
  shows "media_step key (c_fd c) st st'"
proof (cases "st' = st")
  case False
  with assms obtain st1 c1 where st1: "mp4_send_loop env key st = Some st1" and c: "get_conn key st1 = Some c1"
    and st': "st' = set_conn key (c1\<lparr>playbackTimeMs := playbackTimeMs c1 + 10\<rparr>) st1"
    by (auto simp: OnTimerMp4_def split: if_splits Option.bind_splits)
  have "media_step key (c_fd c) st1 st'" unfolding st' by (rule media_step_set [OF c]) (simp add: conn_view_def)
  then show ?thesis by (rule media_step_trans [OF media_step_mp4_loop [OF st1 assms(1)]])
qed simp

lemma media_step_OnTimerRaw:
  assumes "get_conn key st = Some c" and "OnTimerRaw env key st = Some st'"
  shows "media_step key (c_fd c) st st'"
proof (cases "st' = st")
  case False
  with assms(2) obtain fs st1 c1 where st1: "send_frames env key fs st = Some st1" and c: "get_conn key st1 = Some c1"
    and st': "st' = next_frame_id (set_conn key (c1\<lparr>auIndex := auIndex c1 + 1\<rparr>) st1)"
    by (auto simp: OnTimerRaw_def Let_def split: if_splits option.splits Option.bind_splits)
  have "media_step key (c_fd c) st1 (set_conn key (c1\<lparr>auIndex := auIndex c1 + 1\<rparr>) st1)"
    by (rule media_step_set [OF c]) (simp add: conn_view_def)
  from media_step_trans [OF media_step_send_frames [OF assms(1) st1] media_step_trans [OF this media_step_next]]
  show ?thesis by (simp add: st')
qed simp


section \<open>One tick over all connections\<close>

text \<open>A negotiation that has gone on for more than five seconds.\<close>

definition late :: "surroundings \<Rightarrow> Connection \<Rightarrow> bool" where
  "late env c \<longleftrightarrow> c_state c = NEGOTIATING \<and> steady_now env - negotiateOfferTime c > 5 * 10 ^ 9"

definition after_tick :: "surroundings \<Rightarrow> bool \<Rightarrow> Connection \<Rightarrow> Connection" where
  "after_tick env reached c = (if reached \<and> late env c then c\<lparr>c_state := CLOSING\<rparr> else c)"

lemma view_late: "conn_view c = conn_view d \<Longrightarrow> late env c = late env d"
  by (simp add: conn_view_def late_def)

lemma view_after: "conn_view c = conn_view d \<Longrightarrow> conn_view (after_tick env r c) = conn_view (after_tick env r d)"
  by (simp add: conn_view_def late_def after_tick_def)

text \<open>The connections of \<open>st'\<close> are those of \<open>st\<close> after a tick that reached \<open>keys\<close>.\<close>

definition ticked :: "surroundings \<Rightarrow> int set \<Rightarrow> video_server \<Rightarrow> video_server \<Rightarrow> bool" where
  "ticked env keys st st' \<longleftrightarrow> tlsConnections st' = tlsConnections st
     \<and> (\<forall>key. map_option conn_view (get_conn key st')
          = map_option (\<lambda>c. conn_view (after_tick env (key \<in> keys) c)) (get_conn key st))
     \<and> (\<exists>l. ssl_sent st' = ssl_sent st @ l
          \<and> (\<forall>(fd, dat)\<in>set l. \<exists>c. get_conn fd st = Some c \<and> (c_state c = STREAMING \<or> late env c)))"

lemma ticked_refl: "ticked env {} st st"
  by (auto simp: ticked_def after_tick_def)

lemma ticked_trans:
  assumes a: "ticked env {k} st st1" and b: "ticked env ks st1 st2" and k: "k \<notin> ks"
  shows "ticked env (insert k ks) st st2"
proof -
  from a obtain l where l: "ssl_sent st1 = ssl_sent st @ l"
    "\<forall>(fd, dat)\<in>set l. \<exists>c. get_conn fd st = Some c \<and> (c_state c = STREAMING \<or> late env c)"
    by (auto simp: ticked_def)
  from b obtain l' where l': "ssl_sent st2 = ssl_sent st1 @ l'"
    "\<forall>(fd, dat)\<in>set l'. \<exists>c. get_conn fd st1 = Some c \<and> (c_state c = STREAMING \<or> late env c)"
    by (auto simp: ticked_def)
  have views: "map_option conn_view (get_conn key st1)
      = map_option (\<lambda>c. conn_view (after_tick env (key = k) c)) (get_conn key st)" for key
    using a by (simp add: ticked_def)
  have earlier: "\<exists>c. get_conn fd st = Some c \<and> (c_state c = STREAMING \<or> late env c)"
    if c1: "get_conn fd st1 = Some c1" "c_state c1 = STREAMING \<or> late env c1" for fd c1
  proof -
    from views [of fd] c1(1) obtain c where c: "get_conn fd st = Some c"
      "conn_view c1 = conn_view (after_tick env (fd = k) c)" by (cases "get_conn fd st") auto
    from c(2) c1(2) have "c_state c = STREAMING \<or> late env c"
      by (auto simp: conn_view_def after_tick_def late_def split: if_splits)
    with c(1) show ?thesis by blast
  qed
  have "map_option conn_view (get_conn key st2)
      = map_option (\<lambda>c. conn_view (after_tick env (key \<in> insert k ks) c)) (get_conn key st)" for key
  proof (cases "get_conn key st1")
    case None
    with views [of key] b show ?thesis by (simp add: ticked_def)
  next
    case (Some c1)
    with views [of key] obtain c where c: "get_conn key st = Some c"
      "conn_view c1 = conn_view (after_tick env (key = k) c)" by (cases "get_conn key st") auto
    have "map_option conn_view (get_conn key st2) = Some (conn_view (after_tick env (key \<in> ks) c1))"
      using b Some by (simp add: ticked_def)
    also have "\<dots> = Some (conn_view (after_tick env (key \<in> ks) (after_tick env (key = k) c)))"
      using view_after [OF c(2)] by simp
    also have "after_tick env (key \<in> ks) (after_tick env (key = k) c) = after_tick env (key \<in> insert k ks) c"
      using k by (auto simp: after_tick_def)
    finally show ?thesis using c(1) by simp
  qed
  moreover have "\<forall>(fd, dat)\<in>set (l @ l'). \<exists>c. get_conn fd st = Some c \<and> (c_state c = STREAMING \<or> late env c)"
    using l(2) l'(2) earlier by fastforce
  then have "\<exists>l. ssl_sent st2 = ssl_sent st @ l
      \<and> (\<forall>(fd, dat)\<in>set l. \<exists>c. get_conn fd st = Some c \<and> (c_state c = STREAMING \<or> late env c))"
    using l(1) l'(1) by (intro exI [of _ "l @ l'"]) simp
  moreover have "tlsConnections st2 = tlsConnections st" using a b by (simp add: ticked_def)
  ultimately show ?thesis by (simp add: ticked_def)
qed

lemma ticked_media:
  assumes "media_step fd fd st st'" and "get_conn fd st = Some c" and "c_state c = STREAMING"
  shows "ticked env {fd} st st'"
proof -
  obtain l where l: "ssl_sent st' = ssl_sent st @ l" "fst ` set l \<subseteq> {fd}"
    using assms(1) by (auto simp: media_step_def)
  have "after_tick env (key = fd) d = d" if "get_conn key st = Some d" for key d
    using that assms(2,3) by (auto simp: after_tick_def late_def)
  then have "map_option (\<lambda>c. conn_view (after_tick env (key = fd) c)) (get_conn key st)
      = map_option conn_view (get_conn key st)" for key
    by (cases "get_conn key st") simp_all
  moreover have "\<forall>(fd, dat)\<in>set l. \<exists>c. get_conn fd st = Some c \<and> (c_state c = STREAMING \<or> late env c)"
    using l(2) assms(2,3) by auto
  ultimately show ?thesis using assms(1) l(1) by (auto simp: ticked_def media_step_def)
qed

lemma ticked_other:
  assumes "get_conn key st = Some c" and "\<not> late env c"
  shows "ticked env {key} st st"
proof -
  have "map_option (\<lambda>c. conn_view (after_tick env (k = key) c)) (get_conn k st)
      = map_option conn_view (get_conn k st)" for k
    using assms by (cases "get_conn k st") (auto simp: after_tick_def)
  then show ?thesis by (auto simp: ticked_def)
qed

lemma ticked_late:
  assumes c: "get_conn key st = Some c" "late env c" "c_fd c = key"
    and s: "SendData env key dat st = Some (n, st1)"
  shows "ticked env {key} st (set_conn key (c\<lparr>c_state := CLOSING\<rparr>) st1)"
proof -
  let ?st2 = "set_conn key (c\<lparr>c_state := CLOSING\<rparr>) st1"
  from media_step_send [OF s, of key] obtain l where l: "ssl_sent st1 = ssl_sent st @ l" "fst ` set l \<subseteq> {key}"
    and t: "tlsConnections st1 = tlsConnections st"
    by (auto simp: media_step_def)
  have "map_option conn_view (get_conn k ?st2)
      = map_option (\<lambda>c. conn_view (after_tick env (k \<in> {key}) c)) (get_conn k st)" for k
    using c s by (cases "k = key"; cases "get_conn k st") (auto simp: after_tick_def)
  moreover have "\<forall>(fd, dat)\<in>set l. \<exists>c. get_conn fd st = Some c \<and> (c_state c = STREAMING \<or> late env c)"
    using l(2) c(1,2) by auto
  ultimately show ?thesis using l(1) t unfolding ticked_def by auto
qed

lemma OnTimer_loop_first:
  assumes run: "OnTimer_loop env (key # keys) ts st = Some (ts', st')"
    and c: "get_conn key st = Some c" and fd: "c_fd c = key"
  obtains st1 where "ticked env {key} st st1"
    "OnTimer_loop env keys (if late env c then ts @ [key] else ts) st1 = Some (ts', st')"
proof (cases "late env c")
  case True
  with run c fd obtain n st1 where s: "SendData env key (CreateCloseFrame 1008 (str ''Negotiation timeout'')) st = Some (n, st1)"
    and rest: "OnTimer_loop env keys (ts @ [key]) (set_conn key (c\<lparr>c_state := CLOSING\<rparr>) st1) = Some (ts', st')"
    by (auto simp: late_def split: Option.bind_splits)
  from that [OF ticked_late [OF c True fd s]] rest True show thesis by simp
next
  case False
  show thesis
  proof (cases "c_state c = STREAMING")
    case True
    with run c False obtain st1 where "OnTimerMp4 env key st = Some st1 \<or> OnTimerRaw env key st = Some st1"
      and rest: "OnTimer_loop env keys ts st1 = Some (ts', st')"
      by (auto split: if_splits Option.bind_splits)
    then have "media_step key key st st1"
      using media_step_OnTimerMp4 [OF c, of env st1] media_step_OnTimerRaw [OF c, of env st1] fd by auto
    from that [OF ticked_media [OF this c True]] rest False show thesis by simp
  next
    case other: False
    with run c False have "OnTimer_loop env keys ts st = Some (ts', st')"
      by (auto simp: late_def split: if_splits Option.bind_splits)
    with that [OF ticked_other [OF c False]] False show thesis by simp
  qed
qed

lemma OnTimer_loop_ticked:
  assumes "OnTimer_loop env keys ts st = Some (ts', st')" and "distinct keys"
    and "\<forall>key c. get_conn key st = Some c \<longrightarrow> c_fd c = key"
  shows "ticked env (set keys) st st'
    \<and> set ts' = set ts \<union> {key \<in> set keys. \<exists>c. get_conn key st = Some c \<and> late env c}"
  using assms
proof (induction keys arbitrary: ts st)
  case Nil
  then show ?case by (simp add: ticked_refl)
next
  case (Cons key keys)
  from Cons.prems(1) obtain c where c: "get_conn key st = Some c" by (auto split: Option.bind_splits)
  with Cons.prems(3) have fd: "c_fd c = key" by blast
  obtain st1 where st1: "ticked env {key} st st1"
    "OnTimer_loop env keys (if late env c then ts @ [key] else ts) st1 = Some (ts', st')"
    using OnTimer_loop_first [OF Cons.prems(1) c fd] .
  have views: "map_option conn_view (get_conn k st1)
      = map_option (\<lambda>c. conn_view (after_tick env (k = key) c)) (get_conn k st)" for k
    using st1(1) by (simp add: ticked_def)
  have fds: "\<forall>k d. get_conn k st1 = Some d \<longrightarrow> c_fd d = k"
  proof (intro allI impI)
    fix k d
    assume "get_conn k st1 = Some d"
    with views [of k] obtain e where "get_conn k st = Some e" "conn_view d = conn_view (after_tick env (k = key) e)"
      by (cases "get_conn k st") auto
    with Cons.prems(3) show "c_fd d = k" by (auto simp: conn_view_def after_tick_def split: if_splits)
  qed
  have others: "(\<exists>c. get_conn k st1 = Some c \<and> late env c) \<longleftrightarrow> (\<exists>c. get_conn k st = Some c \<and> late env c)"
    if "k \<noteq> key" for k
  proof -
    have v: "map_option conn_view (get_conn k st1) = map_option conn_view (get_conn k st)"
      using views [of k] that by (simp add: after_tick_def)
    show ?thesis
    proof (cases "get_conn k st")
      case (Some d)
      with v obtain d1 where "get_conn k st1 = Some d1" "conn_view d1 = conn_view d" by auto
      with view_late [OF this(2), of env] Some show ?thesis by simp
    qed (use v in simp)
  qed
  from Cons.IH [OF st1(2) _ fds] Cons.prems(2)
  have IH: "ticked env (set keys) st1 st'" "set ts' = set (if late env c then ts @ [key] else ts)
      \<union> {key \<in> set keys. \<exists>c. get_conn key st1 = Some c \<and> late env c}" by simp_all
  have key: "key \<notin> set keys" using Cons.prems(2) by simp
  have "{k \<in> set keys. \<exists>c. get_conn k st1 = Some c \<and> late env c}
      = {k \<in> set keys. \<exists>c. get_conn k st = Some c \<and> late env c}"
  proof (rule Collect_cong)
    show "(k \<in> set keys \<and> (\<exists>c. get_conn k st1 = Some c \<and> late env c))
        = (k \<in> set keys \<and> (\<exists>c. get_conn k st = Some c \<and> late env c))" for k
      using others [of k] key by (cases "k = key") simp_all
  qed
  then have "set ts' = set ts \<union> {k \<in> set (key # keys). \<exists>c. get_conn k st = Some c \<and> late env c}"
    using IH(2) c by auto
  with ticked_trans [OF st1(1) IH(1) key] show ?case by simp
qed


section \<open>The timer returns\<close>

text \<open>The playback times stay in the range of \<open>uint64_t\<close>.\<close>

definition playback_ok :: "MediaPacket list \<Rightarrow> Connection \<Rightarrow> bool" where
  "playback_ok ps c \<longleftrightarrow> playbackTimeMs c < 2 ^ 62 \<and> ideal_pts ps (packetIndex c) < 2 ^ 63"

definition mp4_file_ok :: "MediaPacket list \<Rightarrow> bool" where
  "mp4_file_ok ps \<longleftrightarrow> sorted (map ptsMs ps) \<and> duration ps < 2 ^ 62"

text \<open>What sending leaves alone in the connections, and the media.\<close>

definition playback :: "Connection \<Rightarrow> nat \<times> rat" where
  "playback c = (packetIndex c, playbackTimeMs c)"

definition plays :: "video_server \<Rightarrow> video_server \<Rightarrow> bool" where
  "plays st st' \<longleftrightarrow> (\<forall>key. map_option playback (get_conn key st') = map_option playback (get_conn key st))
     \<and> mp4Demuxer st' = mp4Demuxer st \<and> mp4Mode st' = mp4Mode st"

lemma plays_trans: "plays a b \<Longrightarrow> plays b c \<Longrightarrow> plays a c"
  by (simp add: plays_def)

lemma plays_set: "get_conn key st = Some c \<Longrightarrow> playback c' = playback c \<Longrightarrow> plays st (set_conn key c' st)"
proof -
  assume a: "get_conn key st = Some c" "playback c' = playback c"
  have "map_option playback (get_conn k (set_conn key c' st)) = map_option playback (get_conn k st)" for k
    using a by (cases "k = key") simp_all
  then show "plays st (set_conn key c' st)" by (simp add: plays_def)
qed

lemma plays_SendData: "SendData env fd dat st = Some (n, st') \<Longrightarrow> plays st st'"
  by (erule SendData_state) (simp add: plays_def)

lemma send_frames_returns:
  assumes "never_stuck env" and "get_conn key st = Some c"
  shows "\<exists>st' c'. send_frames env key fs st = Some st' \<and> plays st st' \<and> get_conn key st' = Some c'"
  using assms(2)
proof (induction fs arbitrary: st c)
  case Nil
  then show ?case by (simp add: plays_def)
next
  case (Cons f fs)
  obtain n st1 where s: "SendData env (c_fd c) (EncodeFrame (WsOpcode_code BINARY) f) st = Some (n, st1)"
    by (rule SendData_returns [OF assms(1)])
  have c1: "get_conn key st1 = Some c" using s Cons.prems by simp
  let ?c1 = "c\<lparr>messagesSent := messagesSent c + 1, bytesSent := bytesSent c + of_nat (length f)\<rparr>"
  let ?st2 = "if n > 0 then set_conn key ?c1 st1 else st1"
  have "plays st1 ?st2" using plays_set [OF c1, of ?c1] by (simp add: playback_def plays_def)
  with plays_SendData [OF s] have p: "plays st ?st2" by (rule plays_trans)
  have "get_conn key ?st2 = Some (if n > 0 then ?c1 else c)" using c1 by simp
  from Cons.IH [OF this] obtain st' c' where "send_frames env key fs ?st2 = Some st'" "plays ?st2 st'"
    "get_conn key st' = Some c'" by blast
  then show ?case using Cons.prems s c1 plays_trans [OF p] by simp
qed

lemma SendPacket_returns:
  assumes "never_stuck env" and "get_conn key st = Some c"
  shows "\<exists>st' c'. SendPacket env key pkt st = Some st' \<and> plays st st' \<and> get_conn key st' = Some c'"
  using send_frames_returns [OF assms, of "packet_frames env pkt st"]
  by (auto simp: SendPacket_def plays_def next_frame_id_def)

lemma mp4_loop_returns:
  assumes env: "never_stuck env" and ps: "ps = packets (mp4Demuxer st)" "mp4_file_ok ps" "ps \<noteq> []"
    and c: "get_conn key st = Some c" "playback_ok ps c"
  shows "\<exists>st' c'. mp4_send_loop env key st = Some st' \<and> get_conn key st' = Some c'"
  using ps(1) c
proof (induction "due_end ps (playbackTimeMs c) (packetIndex c) - packetIndex c" arbitrary: st c rule: less_induct)
  case less
  have sorted: "sorted (map ptsMs ps)" and dur: "duration ps < 2 ^ 62" using ps(2) by (simp_all add: mp4_file_ok_def)
  let ?i = "packetIndex c" and ?t = "playbackTimeMs c"
  have eff: "effective_pts ps ?i = of_int (ideal_pts ps ?i)"
    using less.prems(3) by (intro effective_pts_ideal ideal_pts_nonneg sorted ps) (simp add: playback_ok_def)
  show ?case
  proof (cases "?t < effective_pts ps ?i")
    case True
    then show ?thesis using mp4_loop_stop [OF less.prems(2,1) ps(3)] less.prems(2) by auto
  next
    case False
    then have due: "of_int (ideal_pts ps ?i) \<le> ?t" by (simp add: eff)
    obtain st1 c1 where st1: "SendPacket env key (ps ! (?i mod length ps)) st = Some st1" "plays st st1"
      "get_conn key st1 = Some c1" using SendPacket_returns [OF env less.prems(2)] by blast
    let ?c2 = "c1\<lparr>packetIndex := packetIndex c1 + 1\<rparr>"
    let ?st2 = "set_conn key ?c2 st1"
    have "map_option playback (get_conn key st1) = map_option playback (get_conn key st)"
      using st1(2) by (simp add: plays_def)
    then have c2: "packetIndex ?c2 = Suc ?i" "playbackTimeMs ?c2 = ?t"
      using st1(3) less.prems(2) by (simp_all add: playback_def)
    have loop: "mp4_send_loop env key st = mp4_send_loop env key ?st2"
      using mp4_loop_go [OF less.prems(2,1) ps(3) _ st1(1,3)] False by simp
    have ps2: "ps = packets (mp4Demuxer ?st2)" using st1(2) less.prems(1) by (simp add: plays_def)
    have "(of_int (ideal_pts ps ?i) :: rat) < of_int (2 ^ 62)"
      using due less.prems(3) by (simp add: playback_ok_def)
    then have "ideal_pts ps ?i < 2 ^ 62" by (simp only: of_int_less_iff)
    then have ok: "playback_ok ps ?c2"
      using ideal_pts_step(2) [OF sorted ps(3), of ?i] dur less.prems(3) unfolding playback_ok_def c2 by simp
    note spec = due_end_spec [OF sorted ps(3), where t = ?t and i = ?i]
    have "?i < due_end ps ?t ?i"
      using spec(1,2) due by (cases "due_end ps ?t ?i = ?i") auto
    then have "Suc ?i \<le> due_end ps ?t ?i \<and> ?t < of_int (ideal_pts ps (due_end ps ?t ?i))" using spec(2) by simp
    then have "due_end ps ?t (Suc ?i) \<le> due_end ps ?t ?i" unfolding due_end_def [of ps ?t "Suc ?i"] by (rule Least_le)
    then have "due_end ps (playbackTimeMs ?c2) (packetIndex ?c2) - packetIndex ?c2 < due_end ps ?t ?i - ?i"
      unfolding c2 using \<open>?i < due_end ps ?t ?i\<close> by simp
    from less.hyps [OF this ps2 get_set_conn ok] show ?thesis by (simp only: loop)
  qed
qed


lemma OnTimerMp4_returns:
  assumes "never_stuck env" "mp4_file_ok (packets (mp4Demuxer st))"
    and "get_conn key st = Some c" "playback_ok (packets (mp4Demuxer st)) c"
  shows "\<exists>st'. OnTimerMp4 env key st = Some st'"
  using mp4_loop_returns [OF assms(1) refl assms(2) _ assms(3,4)]
  by (auto simp: OnTimerMp4_def)

lemma OnTimerRaw_returns:
  assumes "never_stuck env" and "get_conn key st = Some c"
  shows "\<exists>st'. OnTimerRaw env key st = Some st'"
proof (cases "GetAccessUnit (ns_accessUnits (nalParser st)) (auIndex c mod length (ns_accessUnits (nalParser st)))")
  case None
  with assms(2) show ?thesis by (simp add: OnTimerRaw_def Let_def)
next
  case (Some au)
  with assms(2) show ?thesis
    using send_frames_returns [OF assms, of "access_unit_frames env (auIndex c) au st"]
    by (auto simp: OnTimerRaw_def Let_def)
qed

text \<open>What the timer needs of the state for a set of connections it has not reached yet.\<close>

definition timer_ready :: "int list \<Rightarrow> video_server \<Rightarrow> bool" where
  "timer_ready keys st \<longleftrightarrow> (\<forall>key\<in>set keys. \<exists>c. get_conn key st = Some c \<and> c_fd c = key
      \<and> (mp4Mode st \<and> c_state c = STREAMING \<longrightarrow> playback_ok (packets (mp4Demuxer st)) c))
    \<and> (mp4Mode st \<longrightarrow> mp4_file_ok (packets (mp4Demuxer st)))"


lemma timer_ready_tail:
  assumes "timer_ready (key # keys) st" and "key \<notin> set keys" and "same_media st st1"
    and "\<forall>k. k \<noteq> key \<longrightarrow> get_conn k st1 = get_conn k st"
  shows "timer_ready keys st1"
proof -
  have "get_conn k st1 = get_conn k st" if "k \<in> set keys" for k
    using that assms(2,4) by (cases "k = key") simp_all
  then show ?thesis using assms(1,3) by (simp add: timer_ready_def same_media_def)
qed

lemma OnTimer_loop_returns:
  assumes "never_stuck env"
  shows "timer_ready keys st \<Longrightarrow> distinct keys \<Longrightarrow> \<exists>ts' st'. OnTimer_loop env keys ts st = Some (ts', st')"
proof (induction keys arbitrary: ts st)
  case (Cons key keys)
  from Cons.prems obtain c where c: "get_conn key st = Some c" "c_fd c = key"
    and mp4: "mp4Mode st \<and> c_state c = STREAMING \<longrightarrow> playback_ok (packets (mp4Demuxer st)) c"
      "mp4Mode st \<longrightarrow> mp4_file_ok (packets (mp4Demuxer st))"
    by (auto simp: timer_ready_def)
  have new: "key \<notin> set keys" and dist: "distinct keys" using Cons.prems(2) by simp_all
  note tail = timer_ready_tail [OF Cons.prems(1) new]
  consider (neg) "c_state c = NEGOTIATING" | (str) "c_state c = STREAMING"
    | (other) "c_state c \<noteq> NEGOTIATING" "c_state c \<noteq> STREAMING" by blast
  then show ?case
  proof cases
    case neg
    obtain n st1 where s: "SendData env (c_fd c) (CreateCloseFrame 1008 (str ''Negotiation timeout'')) st = Some (n, st1)"
      by (rule SendData_returns [OF assms])
    obtain l where "st1 = st\<lparr>ssl_sent := ssl_sent st @ l\<rparr>" using s by (rule SendData_state)
    then have same: "same_media st st1" by (simp add: same_media_def)
    have "timer_ready keys (set_conn key (c\<lparr>c_state := CLOSING\<rparr>) st1)" "timer_ready keys st"
      using same s by (auto intro!: tail simp: same_media_def)
    then show ?thesis using Cons.IH dist neg c s by simp
  next
    case str
    have "\<exists>st1. (if mp4Mode st then OnTimerMp4 env key st else OnTimerRaw env key st) = Some st1"
      using OnTimerMp4_returns [OF assms _ c(1)] OnTimerRaw_returns [OF assms c(1)] mp4 str
      by (cases "mp4Mode st") simp_all
    then obtain st1 where st1: "(if mp4Mode st then OnTimerMp4 env key st else OnTimerRaw env key st) = Some st1" ..
    then have "media_step key (c_fd c) st st1"
      using media_step_OnTimerMp4 [OF c(1), of env st1] media_step_OnTimerRaw [OF c(1), of env st1]
      by (cases "mp4Mode st") simp_all
    then have "timer_ready keys st1" by (intro tail) (simp_all add: media_step_def)
    from Cons.IH [OF this dist] show ?thesis using c st1 str by simp
  next
    case other
    have "timer_ready keys st" by (intro tail) (simp_all add: same_media_def)
    from Cons.IH [OF this dist] show ?thesis using c other by simp
  qed
qed simp

section \<open>Properties\<close>

text \<open>The map of connections is iterated over once.\<close>

definition iterates :: "surroundings \<Rightarrow> video_server \<Rightarrow> bool" where
  "iterates env st \<longleftrightarrow> distinct (conn_order env (dom (conns (connManager st))))
     \<and> set (conn_order env (dom (conns (connManager st)))) = dom (conns (connManager st))"

lemma manager_fd: "manager_inv (connManager st) \<Longrightarrow> get_conn key st = Some c \<Longrightarrow> c_fd c = key"
  by (auto simp: manager_inv_def get_conn_def GetConnection_def)

lemma closed_all:
  "tlsConnections (foldl (\<lambda>st fd. CloseConnection fd st) st fds)
     = (\<lambda>fd. if fd \<in> set fds then None else tlsConnections st fd)
   \<and> connManager (foldl (\<lambda>st fd. CloseConnection fd st) st fds) = connManager st
   \<and> ssl_sent (foldl (\<lambda>st fd. CloseConnection fd st) st fds) = ssl_sent st"
proof (induction fds arbitrary: st)
  case (Cons a fds)
  have "(\<lambda>fd. if fd \<in> set fds then None else tlsConnections (CloseConnection a st) fd)
      = (\<lambda>fd. if fd \<in> set (a # fds) then None else tlsConnections st fd)"
    by (auto simp: CloseConnection_eq)
  with Cons.IH [of "CloseConnection a st"] show ?case by (simp add: CloseConnection_eq)
qed simp

lemma OnTimer_ticked:
  assumes "manager_inv (connManager st)" and "iterates env st" and "OnTimer env st = Some st'"
  obtains st1 ts where "ticked env (dom (conns (connManager st))) st st1"
    "set ts = {key. \<exists>c. get_conn key st = Some c \<and> late env c}"
    "st' = foldl (\<lambda>st fd. CloseConnection fd st) st1 ts"
proof -
  let ?keys = "conn_order env (dom (conns (connManager st)))"
  from assms(3) obtain ts st1 where run: "OnTimer_loop env ?keys [] st = Some (ts, st1)"
    and st': "st' = foldl (\<lambda>st fd. CloseConnection fd st) st1 ts"
    by (auto simp: OnTimer_def split: Option.bind_splits)
  have "\<forall>key c. get_conn key st = Some c \<longrightarrow> c_fd c = key" using manager_fd [OF assms(1)] by blast
  from OnTimer_loop_ticked [OF run _ this] assms(2)
  have "ticked env (dom (conns (connManager st))) st st1"
    "set ts = {key \<in> dom (conns (connManager st)). \<exists>c. get_conn key st = Some c \<and> late env c}"
    by (simp_all add: iterates_def)
  moreover have "{key \<in> dom (conns (connManager st)). \<exists>c. get_conn key st = Some c \<and> late env c}
      = {key. \<exists>c. get_conn key st = Some c \<and> late env c}"
    by (auto simp: get_conn_def GetConnection_def)
  ultimately show thesis using that st' by simp
qed


text \<open>C24: the timer sends to no connection but those that are streaming, and those whose negotiation
  it ends; for any data, any result of the sending and any number of packets due.\<close>

theorem timer_sends_to_streaming:
  assumes "manager_inv (connManager st)" and "iterates env st" and "OnTimer env st = Some st'"
  shows "\<exists>l. ssl_sent st' = ssl_sent st @ l
    \<and> list_all (\<lambda>(fd, dat). \<exists>c. get_conn fd st = Some c \<and> (c_state c = STREAMING \<or> late env c)) l"
proof -
  from OnTimer_ticked [OF assms] obtain st1 ts where t: "ticked env (dom (conns (connManager st))) st st1"
    "st' = foldl (\<lambda>st fd. CloseConnection fd st) st1 ts" by blast
  then show ?thesis using closed_all [of st1 ts] unfolding ticked_def list_all_iff by auto
qed

lemma timer_tick_keeps:
  assumes "manager_inv (connManager st)" and "iterates env st" and "OnTimer env st = Some st'"
    and "get_conn fd st = Some c"
  shows "\<exists>c'. get_conn fd st' = Some c' \<and> c_id c' = c_id c
    \<and> (if late env c then c_state c' = CLOSING \<and> tlsConnections st' fd = None
       else c_state c' = c_state c \<and> tlsConnections st' fd = tlsConnections st fd)"
proof -
  from OnTimer_ticked [OF assms(1-3)] obtain st1 ts where t: "ticked env (dom (conns (connManager st))) st st1"
    and ts: "set ts = {key. \<exists>c. get_conn key st = Some c \<and> late env c}"
    and st': "st' = foldl (\<lambda>st fd. CloseConnection fd st) st1 ts" by blast
  have "fd \<in> dom (conns (connManager st))" using assms(4) by (auto simp: get_conn_def GetConnection_def)
  then have "map_option conn_view (get_conn fd st1) = Some (conn_view (after_tick env True c))"
    using t assms(4) by (simp add: ticked_def)
  then obtain c' where c': "get_conn fd st1 = Some c'" "conn_view c' = conn_view (after_tick env True c)" by auto
  have conns: "connManager st' = connManager st1" using closed_all [of st1 ts] st' by simp
  then have "get_conn fd st' = Some c'" using c'(1) by (simp add: get_conn_def)
  moreover have "tlsConnections st' fd = (if fd \<in> set ts then None else tlsConnections st fd)"
    using closed_all [of st1 ts] st' t by (simp add: ticked_def)
  ultimately show ?thesis
    using c'(2) ts assms(4) by (auto simp: conn_view_def after_tick_def)
qed


text \<open>C25: a negotiation unanswered for more than five seconds is ended by the next tick: the connection
  is closing and its TLS connection gone. Every other connection keeps its state and its TLS
  connection. The manager keeps an entry for each of them, the ended one included.\<close>

theorem timer_ends_late_negotiations:
  assumes "manager_inv (connManager st)" and "iterates env st" and "OnTimer env st = Some st'"
    and "get_conn fd st = Some c"
  shows "\<exists>c'. get_conn fd st' = Some c' \<and> c_id c' = c_id c
    \<and> (if late env c then c_state c' = CLOSING \<and> tlsConnections st' fd = None
       else c_state c' = c_state c \<and> tlsConnections st' fd = tlsConnections st fd)"
  using assms by (rule timer_tick_keeps)

text \<open>C11: the timer returns: when no connection blocks for ever and, in MP4 mode, the file is sorted and
  the playback times are in range, the send loops of one tick over all connections end.\<close>

theorem timer_returns:
  assumes "never_stuck env" and "iterates env st" and "manager_inv (connManager st)"
    and "mp4Mode st \<longrightarrow> mp4_file_ok (packets (mp4Demuxer st))"
    and "\<forall>fd c. mp4Mode st \<and> get_conn fd st = Some c \<and> c_state c = STREAMING
      \<longrightarrow> playback_ok (packets (mp4Demuxer st)) c"
  shows "\<exists>st'. OnTimer env st = Some st'"
proof -
  let ?keys = "conn_order env (dom (conns (connManager st)))"
  have "\<exists>c. get_conn key st = Some c \<and> c_fd c = key" if "key \<in> set ?keys" for key
    using that assms(2) manager_fd [OF assms(3)] by (auto simp: iterates_def get_conn_def GetConnection_def)
  then have "timer_ready ?keys st" using assms(4,5) by (force simp: timer_ready_def)
  moreover have "distinct ?keys" using assms(2) by (simp add: iterates_def)
  ultimately obtain ts st' where "OnTimer_loop env ?keys [] st = Some (ts, st')"
    using OnTimer_loop_returns [OF assms(1)] by blast
  then show ?thesis by (simp add: OnTimer_def)
qed

text \<open>C1: one tick in raw mode, end to end: on a connection that takes its data the tick sends the next
  access unit, as binary WebSocket messages whose payloads, handed to the browser's parser,
  yield the access unit byte for byte with codec, type and times; the next tick will send the
  next access unit.\<close>

theorem raw_tick_reaches_browser:
  assumes "get_conn fd st = Some c" and "link_up env (c_fd c) st"
    and "ns_accessUnits (nalParser st) \<noteq> []"
    and "au = ns_accessUnits (nalParser st) ! (auIndex c mod length (ns_accessUnits (nalParser st)))"
    and "concat au \<noteq> []" "length (concat au) \<le> MAX_FRAGMENTS * FRAGMENT_THRESHOLD"
    and "parser_inv p" "frame_absent p (frameId st)" and "\<forall>site n. mok site n"
  shows "\<exists>fs st' c' p'. OnTimerRaw env fd st = Some st'
    \<and> ssl_sent st' = ssl_sent st @ map (\<lambda>f. (c_fd c, EncodeFrame (WsOpcode_code BINARY) f)) fs
    \<and> get_conn fd st' = Some c' \<and> auIndex c' = auIndex c + 1 \<and> frameId st' = frameId st + 1
    \<and> parse_seq mok p (Some res) fs
        = Some (replicate (length fs - 1) FRAME_FRAGMENT_PENDING @ [FRAME_COMPLETE], p',
            Some \<lparr>pf_meta = video_meta (if h265 st then H265 else H264) (DetectFrameType (h265 st) au)
                (of_int \<lfloor>of_nat (auIndex c) * frameIntervalMs st\<rfloor>) (system_now env),
              pf_payload = Some (concat au), pf_payload_size = of_nat (length (concat au))\<rparr>)
    \<and> parser_inv p'"
proof -
  let ?fs = "access_unit_frames env (auIndex c) au st"
  let ?c' = "(count_sent ?fs c)\<lparr>auIndex := auIndex c + 1\<rparr>"
  let ?st' = "next_frame_id (set_conn fd ?c' st)\<lparr>ssl_sent := ssl_sent st @ map (ws_message (c_fd c)) ?fs\<rparr>"
  note tick = raw_tick [OF assms(1-4) refl]
  from video_delivered [OF assms(5-9), of ?fs] obtain p' where "parse_seq mok p (Some res) ?fs
        = Some (replicate (length ?fs - 1) FRAME_FRAGMENT_PENDING @ [FRAME_COMPLETE], p',
            Some \<lparr>pf_meta = video_meta (if h265 st then H265 else H264) (DetectFrameType (h265 st) au)
                (of_int \<lfloor>of_nat (auIndex c) * frameIntervalMs st\<rfloor>) (system_now env),
              pf_payload = Some (concat au), pf_payload_size = of_nat (length (concat au))\<rparr>)
    \<and> parser_inv p'" unfolding access_unit_frames_def by blast
  with tick show ?thesis
    by (intro exI [of _ ?fs] exI [of _ ?st'] exI [of _ ?c'] exI [of _ p']) (simp add: ws_message_def next_frame_id_def)
qed

text \<open>C5: one tick in MP4 mode: on a connection that takes its data it sends, in order, exactly the
  packets from the connection's next one on whose time has come, where the file is played in
  an endless loop; the connection goes on with the first packet that is not due and its clock
  is ten milliseconds later.\<close>

theorem mp4_tick_sends_due:
  assumes "ps = packets (mp4Demuxer st)" "ps \<noteq> []" "mp4_file_ok ps"
    and "get_conn fd st = Some c" "playback_ok ps c" and "link_up env (c_fd c) st"
  shows "\<exists>k st' c'. OnTimerMp4 env fd st = Some st' \<and> get_conn fd st' = Some c'
    \<and> packetIndex c' = k \<and> playbackTimeMs c' = playbackTimeMs c + 10
    \<and> packetIndex c \<le> k \<and> playbackTimeMs c < of_int (ideal_pts ps k)
    \<and> (\<forall>n. packetIndex c \<le> n \<and> n < k \<longrightarrow> of_int (ideal_pts ps n) \<le> playbackTimeMs c)
    \<and> ssl_sent st' = ssl_sent st @ map (\<lambda>f. (c_fd c, EncodeFrame (WsOpcode_code BINARY) f))
        (due_frames env st (packetIndex c) k)"
proof -
  have sorted: "sorted (map ptsMs ps)" and dur: "duration ps < 2 ^ 62"
    using assms(3) by (simp_all add: mp4_file_ok_def)
  let ?k = "due_end ps (playbackTimeMs c) (packetIndex c)"
  note spec = due_end_spec [OF sorted assms(2), where t = "playbackTimeMs c" and i = "packetIndex c"]
  obtain st1 where st1: "mp4_send_loop env fd st = Some st1" "mp4_sent env fd st c ?k st1"
    using mp4_loop_sends_due [OF assms(1) sorted assms(2,4,6)] dur assms(5) by (auto simp: playback_ok_def)
  then obtain c1 where c1: "get_conn fd st1 = Some c1" "packetIndex c1 = ?k" "playbackTimeMs c1 = playbackTimeMs c"
    by (auto simp: mp4_sent_def)
  let ?c2 = "c1\<lparr>playbackTimeMs := playbackTimeMs c1 + 10\<rparr>"
  have "OnTimerMp4 env fd st = Some (set_conn fd ?c2 st1)"
    using assms(1,2) st1(1) c1(1) by (simp add: OnTimerMp4_def)
  moreover have "ssl_sent (set_conn fd ?c2 st1) = ssl_sent st
      @ map (\<lambda>f. (c_fd c, EncodeFrame (WsOpcode_code BINARY) f)) (due_frames env st (packetIndex c) ?k)"
    using st1(2) by (simp add: mp4_sent_def ws_message_def)
  ultimately show ?thesis
    using spec c1 by (intro exI [of _ ?k] exI [of _ "set_conn fd ?c2 st1"] exI [of _ ?c2]) simp
qed


section \<open>Witnesses\<close>

lemma sample_iterates: "iterates sample_env (sample_server mp4 c)"
  unfolding iterates_def sample_fields by (simp add: sample_env_def)

lemma sample_file: "mp4_file_ok sample_packets" "playback_ok sample_packets (sample_conn s b)"
  by (simp_all add: mp4_file_ok_def playback_ok_def sample_packets_def duration_def ideal_pts_def)

text \<open>A negotiation of six seconds, and a connection that is streaming.\<close>

lemma sample_tick:
  "\<exists>st'. OnTimer sample_env (sample_server mp4 (sample_conn s b)) = Some st'"
proof -
  have "timer_ready (conn_order sample_env {7}) (sample_server mp4 (sample_conn s b))"
    using sample_file by (simp add: timer_ready_def sample_env_def)
  moreover have "distinct (conn_order sample_env {7})" by (simp add: sample_env_def)
  ultimately obtain ts st' where "OnTimer_loop sample_env (conn_order sample_env {7}) []
      (sample_server mp4 (sample_conn s b)) = Some (ts, st')"
    using OnTimer_loop_returns [OF sample_never_stuck] by blast
  then show ?thesis by (simp add: OnTimer_def)
qed

theorem timer_sends_to_streaming_witness:
  "\<exists>st' l. OnTimer sample_env (sample_server False (sample_conn STREAMING [])) = Some st' \<and> ssl_sent st' = [] @ l
    \<and> list_all (\<lambda>(fd, dat). \<exists>c. get_conn fd (sample_server False (sample_conn STREAMING [])) = Some c
        \<and> (c_state c = STREAMING \<or> late sample_env c)) l"
  using timer_sends_to_streaming [OF sample_manager sample_iterates, of False STREAMING "[]"]
    sample_tick [of False STREAMING "[]"] by fastforce

theorem timer_ends_late_negotiations_witness:
  "\<exists>st' c'. OnTimer sample_env (sample_server False (sample_conn NEGOTIATING [])) = Some st'
    \<and> get_conn 7 st' = Some c' \<and> c_state c' = CLOSING \<and> tlsConnections st' 7 = None"
proof -
  let ?st = "sample_server False (sample_conn NEGOTIATING [])"
  obtain st' where st': "OnTimer sample_env ?st = Some st'" using sample_tick by blast
  have "late sample_env (sample_conn NEGOTIATING [])" by (simp add: late_def sample_env_def)
  with timer_ends_late_negotiations [OF sample_manager sample_iterates st' sample_get(1)] st'
  show ?thesis by auto
qed

theorem timer_returns_witness:
  "\<exists>st'. OnTimer sample_env (sample_server True (sample_conn STREAMING [])) = Some st'"
proof (rule timer_returns [OF sample_never_stuck sample_iterates sample_manager])
  show "\<forall>fd c. mp4Mode (sample_server True (sample_conn STREAMING []))
      \<and> get_conn fd (sample_server True (sample_conn STREAMING [])) = Some c \<and> c_state c = STREAMING
      \<longrightarrow> playback_ok (packets (mp4Demuxer (sample_server True (sample_conn STREAMING [])))) c"
  proof (intro allI impI)
    fix fd c
    assume "mp4Mode (sample_server True (sample_conn STREAMING []))
      \<and> get_conn fd (sample_server True (sample_conn STREAMING [])) = Some c \<and> c_state c = STREAMING"
    then have "c = sample_conn STREAMING []" by (cases "fd = 7") auto
    then show "playback_ok (packets (mp4Demuxer (sample_server True (sample_conn STREAMING [])))) c"
      using sample_file by simp
  qed
qed (use sample_file in simp)

theorem raw_tick_reaches_browser_witness:
  "\<exists>fs st' c' p'. OnTimerRaw sample_env 7 (sample_server False (sample_conn STREAMING [])) = Some st'
    \<and> ssl_sent st' = [] @ map (\<lambda>f. (7, EncodeFrame (WsOpcode_code BINARY) f)) fs
    \<and> get_conn 7 st' = Some c' \<and> auIndex c' = 1 \<and> frameId st' = 6
    \<and> parse_seq (\<lambda>_ _. True) fresh_parser (Some sample_result) fs
        = Some (replicate (length fs - 1) FRAME_FRAGMENT_PENDING @ [FRAME_COMPLETE], p',
            Some \<lparr>pf_meta = video_meta H264 (DetectFrameType False [[0, 0, 0, 1, 0x65, 0x88]]) 0 99,
              pf_payload = Some [0, 0, 0, 1, 0x65, 0x88], pf_payload_size = 6\<rparr>)
    \<and> parser_inv p'"
proof -
  let ?st = "sample_server False (sample_conn STREAMING [])"
  have aus: "ns_accessUnits (nalParser ?st) \<noteq> []"
    "[[0, 0, 0, 1, 0x65, 0x88]] = ns_accessUnits (nalParser ?st)
       ! (auIndex (sample_conn STREAMING []) mod length (ns_accessUnits (nalParser ?st)))" by simp_all
  have len: "concat [[0, 0, 0, 1, 0x65, 0x88 :: byte]] \<noteq> []"
    "length (concat [[0, 0, 0, 1, 0x65, 0x88 :: byte]]) \<le> MAX_FRAGMENTS * FRAGMENT_THRESHOLD"
    by (simp_all add: MAX_FRAGMENTS_def FRAGMENT_THRESHOLD_def)
  have up: "link_up sample_env (c_fd (sample_conn STREAMING [])) ?st" using sample_link_up by simp
  have now: "system_now sample_env = 99" by (simp add: sample_env_def)
  have m: "\<forall>site n. (\<lambda>_ _. True) site n" by simp
  from raw_tick_reaches_browser [OF sample_get(1) up aus len fresh_parser_ready(1,3) m, of sample_result]
  show ?thesis by (simp add: now)
qed

theorem mp4_tick_sends_due_witness:
  "\<exists>k st' c'. OnTimerMp4 sample_env 7 (sample_server True (sample_conn STREAMING [])) = Some st'
    \<and> get_conn 7 st' = Some c' \<and> packetIndex c' = k \<and> playbackTimeMs c' = 10 \<and> 0 < ideal_pts sample_packets k"
proof -
  have "sample_packets \<noteq> []" by (simp add: sample_packets_def)
  from mp4_tick_sends_due [where st = "sample_server True (sample_conn STREAMING [])" and fd = 7
      and c = "sample_conn STREAMING []" and ps = sample_packets and env = sample_env, OF _ this sample_file(1)
      _ sample_file(2)] sample_link_up
  show ?thesis by auto
qed

end
