(* ===== verification/ServerRun.thy ===== *)
theory ServerRun
  imports ServerReceive ServerTimer
begin

text \<open>
  The running server: the callbacks of \<open>SetupCallbacks\<close> plugged into the TLS layer and the event
  loop, the states it can reach, and what the invariants of \<open>ServerInv\<close> give for them.
\<close>

section \<open>The layers put together\<close>

definition ServeEvents ::
  "surroundings \<Rightarrow> (int \<Rightarrow> bool) \<Rightarrow> tls_calls ready_event list option \<Rightarrow> video_server \<Rightarrow> video_server option" where
  "ServeEvents env setup_ok ready st =
     ProcessEvents (OnTcpConnect OnDisconnect setup_ok) (OnTcpData (OnConnect env) (HandleData env) OnDisconnect)
       (OnTcpDisconnect OnDisconnect) (OnTimer env) ready st"

text \<open>\<open>Run\<close>: one call of \<open>ProcessEvents\<close> after the other, with what each of them meets.\<close>

inductive server_step :: "video_server \<Rightarrow> video_server \<Rightarrow> bool" where
  events: "isRunning st \<Longrightarrow> ServeEvents env setup_ok ready st = Some st' \<Longrightarrow> server_step st st'"

inductive_cases server_stepE: "server_step st st'"

definition server_inv :: "video_server \<Rightarrow> bool" where
  "server_inv st \<longleftrightarrow> manager_inv (connManager st) \<and> tls_ok st
     \<and> (\<forall>fd c. get_conn fd st = Some c \<longrightarrow> good_state (c_state c))"

lemma server_inv_step: "server_inv st \<Longrightarrow> step_ok st st' \<Longrightarrow> server_inv st'"
proof -
  assume inv: "server_inv st" and step: "step_ok st st'"
  have "good_state (c_state c')" if c': "get_conn fd st' = Some c'" for fd c'
  proof -
    from step c' consider c where "get_conn fd st = Some c" "conn_step c c'" | "good_state (c_state c')"
      unfolding step_ok_def evolves_def by blast
    then show ?thesis
    proof cases
      case 1
      then have "good_state (c_state c)" using inv unfolding server_inv_def by blast
      then show ?thesis using 1(2) unfolding conn_step_def by auto
    qed
  qed
  moreover have "manager_inv (connManager st')" "tls_ok st'" using inv step by (simp_all add: server_inv_def step_ok_def)
  ultimately show "server_inv st'" by (simp add: server_inv_def)
qed

text \<open>The invariant, and how far the server has come from a state \<open>st0\<close>.\<close>

definition since :: "video_server \<Rightarrow> video_server \<Rightarrow> bool" where
  "since st0 st \<longleftrightarrow> server_inv st \<and> evolves st0 st"

lemma since_step: "since st0 st \<Longrightarrow> step_ok st st' \<Longrightarrow> since st0 st'"
  using server_inv_step evolves_trans by (auto simp: since_def step_ok_def)

lemma since_lower:
  "since st0 st \<Longrightarrow> connManager st' = connManager st \<Longrightarrow> same_media st st' \<Longrightarrow> tls_ok st' \<Longrightarrow> since st0 st'"
  by (erule since_step, rule step_lower) auto

interpretation server: tls_user "since st0" "OnConnect env" "HandleData env" OnDisconnect "OnTimer env" setup_ok
  for st0 env setup_ok
proof unfold_locales
  fix st st' l m fd conn ip bytes
  assume st: "since st0 st"
  then have ok: "tls_ok st" by (simp add: since_def server_inv_def)
  show "since st0 (st\<lparr>sys_log := l\<rparr>)" "since st0 (st\<lparr>clientIps := m\<rparr>)"
    "since st0 (st\<lparr>tlsConnections := (tlsConnections st)(fd := None)\<rparr>)"
    by (rule since_lower [OF st]; use ok in \<open>auto simp: same_media_def tls_ok_def\<close>)+
  show "tls_ok st" by (rule ok)
  show "since st0 (OnDisconnect fd st)" by (rule since_step [OF st step_OnDisconnect])
  show "since st0 (st\<lparr>tlsConnections := (tlsConnections st)(fd \<mapsto> conn)\<rparr>)"
    if "tls_conn_ok conn" "tls_fd conn = fd"
    by (rule since_lower [OF st]; use ok that in \<open>auto simp: same_media_def tls_ok_def\<close>)
  show "since st0 st'" if "OnConnect env fd ip st = Some st'"
    by (rule since_step [OF st step_OnConnect [OF that]])
  show "since st0 st'" if "HandleData env fd bytes st = Some st'"
    by (rule since_step [OF st step_HandleData [OF that]])
  show "since st0 st'" if "OnTimer env st = Some st'"
    by (rule since_step [OF st step_OnTimer [OF that]])
qed

lemma ServeEvents_since:
  "since st0 st \<Longrightarrow> ServeEvents env setup_ok ready st = Some st' \<Longrightarrow> since st0 st'"
  unfolding ServeEvents_def by (rule server.tcp.events_inv)

lemma server_steps_since:
  assumes "server_step\<^sup>*\<^sup>* st st'" and "server_inv st"
  shows "since st st'"
  using assms(1)
proof (induction rule: rtranclp_induct)
  case base
  then show ?case using assms(2) by (simp add: since_def)
next
  case (step st1 st2)
  from step.hyps(2) step.IH show ?case by (blast elim: server_stepE dest: ServeEvents_since)
qed


section \<open>Properties\<close>

text \<open>C3: whatever the clients and the system do, in any number of rounds of the event loop: the server
  keeps its invariant (connections under their descriptor, with unique positive ids in the range of
  \<open>int32_t\<close> and a state outside of the two transient ones; consistent TLS buffers), and a connection
  only moves forward, in its state, in its position in the media and in its playback time. A run
  has no round with undefined behaviour, so none with the overflow of the id counter; positions are below 2 to the 64.\<close>

theorem connections_only_advance:
  assumes "server_step\<^sup>*\<^sup>* st st'" and "server_inv st"
    and "get_conn fd st = Some c" "get_conn fd st' = Some c'" "c_id c' = c_id c"
  shows "server_inv st' \<and> c_state c \<le> c_state c' \<and> auIndex c \<le> auIndex c'
    \<and> packetIndex c \<le> packetIndex c' \<and> playbackTimeMs c \<le> playbackTimeMs c'"
proof -
  have s: "server_inv st'" "evolves st st'" using server_steps_since [OF assms(1,2)] by (simp_all add: since_def)
  have "c_id c \<le> totalConnections (connManager st)"
    using assms(2,3) by (auto simp: server_inv_def manager_inv_def get_conn_def GetConnection_def)
  moreover have "(\<exists>c0. get_conn fd st = Some c0 \<and> conn_step c0 c') \<or> totalConnections (connManager st) < c_id c'"
    using s(2) assms(4) by (auto simp: evolves_def)
  ultimately have "conn_step c c'" using assms(3,5) by auto
  with s(1) show ?thesis by (simp add: conn_step_def)
qed

text \<open>C37: two ways to lose a client: when the peer goes, the connection is removed from the manager; when
  the server closes it, the TLS layer forgets it first and never tells the manager, which
  keeps the entry for good (until the descriptor is used again).\<close>

theorem disconnect_removes_close_keeps:
  assumes "get_conn fd st = Some c" and "tlsConnections st fd = Some t" "handshakeComplete t"
  shows "get_conn fd (RemoveClient (OnTcpDisconnect OnDisconnect) fd st) = None
    \<and> get_conn fd (CloseConnection fd st) = Some c
    \<and> tlsConnections (CloseConnection fd st) fd = None"
proof -
  have "get_conn fd (RemoveClient (OnTcpDisconnect OnDisconnect) fd st) = None"
    using assms by (simp add: RemoveClient_def OnTcpDisconnect_def RemoveTlsConnection_eq Let_def
        OnDisconnect_def RemoveConnection_def get_conn_def GetConnection_def)
  moreover have "get_conn fd (CloseConnection fd st) = Some c" using assms(1) by simp
  ultimately show ?thesis by (simp add: CloseConnection_eq)
qed

lemma close_frame_closes:
  assumes "get_conn fd st = Some c" "c_state c = STREAMING" "recvBuffer c = []"
    and "ws_key_ok key" "length (ws_encode True (WsOpcode_code CLOSE) key payload) < 2 ^ 63"
    and "HandleData env fd (ws_encode True (WsOpcode_code CLOSE) key payload) st = Some st'"
  shows "tlsConnections st' fd = None"
proof -
  let ?f = "(True, WsOpcode_code CLOSE, key, payload)"
  let ?dat = "ws_encode True (WsOpcode_code CLOSE) key payload"
  have ok: "client_frame_ok ?f" "length (client_bytes ?f @ []) < 2 ^ 63" using assms(4,5) by simp_all
  note nxt = ws_next_client [OF ok]
  obtain c1 where c1: "c1 = c\<lparr>recvBuffer := ?dat\<rparr>" by simp
  let ?st1 = "set_conn fd c1 st"
  have get: "get_conn fd ?st1 = Some c1" by simp
  have b: "recvBuffer c1 = ?dat" by (simp add: c1)
  have item: "ws_next blank_frame (recvBuffer c1) = Item (handled_frame blank_frame ?f) (length ?dat)"
    using nxt(1) [of blank_frame] by (simp only: b client_bytes.simps append_Nil2)
  have ne: "recvBuffer c1 \<noteq> []" using nxt(2) by (simp only: b client_bytes.simps) simp
  have "HandleData env fd ?dat st = HandleWebSocketFrame env fd ?st1"
    using assms(1-3) by (simp add: HandleData_def c1)
  also have "\<dots> = Some (CloseConnection fd (set_conn fd (c1\<lparr>recvBuffer := drop (length ?dat) ?dat, c_state := CLOSING\<rparr>) ?st1))"
    unfolding loop_item [OF get ne item] b by (simp add: HandleFrame_def)
  finally show ?thesis using assms(6) by (auto simp: CloseConnection_eq)
qed

text \<open>C36: use after free: a client that streams and sends a close frame makes the TLS layer go on reading
  from the connection that the frame's handler has just erased, whatever else it sends: the
  round has no defined result.\<close>

theorem close_frame_use_after_free:
  assumes "get_conn fd st = Some c" "c_state c = STREAMING" "recvBuffer c = []"
    and "tlsConnections st fd = Some t" "handshakeComplete t"
    and "ws_key_ok key" "length (ws_encode True (WsOpcode_code CLOSE) key payload) < 2 ^ 63"
    and "read_calls calls = (ns, ReadPlain (ws_encode True (WsOpcode_code CLOSE) key payload)) # rest"
  shows "OnTcpData (OnConnect env) (HandleData env) OnDisconnect fd bytes calls st = None"
proof -
  let ?dat = "ws_encode True (WsOpcode_code CLOSE) key payload"
  let ?t1 = "t\<lparr>recvBuf := recvBuf t @ bytes\<rparr>"
  let ?st1 = "st\<lparr>tlsConnections := (tlsConnections st)(fd \<mapsto> ?t1)\<rparr>"
  let ?st2 = "?st1\<lparr>tlsConnections := (tlsConnections ?st1)(fd \<mapsto> snd (ssl_pull ns ?t1))\<rparr>"
  have get: "get_conn fd ?st2 = Some c" using assms(1) by (simp add: get_conn_def)
  have "OnTcpData (OnConnect env) (HandleData env) OnDisconnect fd bytes calls st
      = tls_read_loop (HandleData env) OnDisconnect fd (read_calls calls) ?st1"
    using assms(4,5) by (simp add: OnTcpData_def)
  also have "\<dots> = Option.bind (HandleData env fd ?dat ?st2) (tls_read_loop (HandleData env) OnDisconnect fd rest)"
    using assms(8) by (simp add: tls_read_loop.simps [of _ _ _ "_ # _"])
  also have "\<dots> = None"
  proof (cases "HandleData env fd ?dat ?st2")
    case (Some st3)
    then have "tlsConnections st3 fd = None"
      using close_frame_closes [OF get assms(2,3,6,7)] by blast
    with Some show ?thesis by (simp add: tls_read_loop.simps)
  qed simp
  finally show ?thesis .
qed

text \<open>Data that arrives together with the end of the TLS handshake waits: \<open>OnTcpData\<close> returns after
  the handshake, so what the client sent behind it stays in the TLS buffer and the new
  connection has received nothing, until the client sends again.\<close>

theorem handshake_leaves_data_unread:
  assumes "tls_conn_ok t" and "tlsConnections st fd = Some t" "\<not> handshakeComplete t"
    and "handshake_call calls = (ns, HandshakeDone)"
    and "ssl_pull ns (t\<lparr>recvBuf := recvBuf t @ bytes\<rparr>) = (used, t')"
    and "0 \<le> totalConnections (connManager st)" "totalConnections (connManager st) + 1 < 2 ^ 31"
  shows "\<exists>st' c t''. OnTcpData (OnConnect env) (HandleData env) OnDisconnect fd bytes calls st = Some st'
    \<and> get_conn fd st' = Some c \<and> recvBuffer c = [] \<and> tlsConnections st' fd = Some t''
    \<and> handshakeComplete t'' \<and> pending t @ bytes = used @ pending t''"
proof -
  let ?t1 = "t\<lparr>recvBuf := recvBuf t @ bytes\<rparr>"
  have ok: "tls_conn_ok ?t1" and p: "pending ?t1 = pending t @ bytes"
    using assms(1) by (simp_all add: tls_conn_ok_def pending_def)
  have pulled: "pending ?t1 = used @ pending t'" using ssl_pull_spec [OF ok assms(5)] by blast
  let ?st1 = "st\<lparr>tlsConnections := (tlsConnections st)(fd \<mapsto> t'\<lparr>handshakeComplete := True\<rparr>)\<rparr>"
  obtain st' where st': "OnConnect env fd [] ?st1 = Some st'"
    using assms(6,7) by (simp add: OnConnect_def AddConnection_def)
  have "OnTcpData (OnConnect env) (HandleData env) OnDisconnect fd bytes calls st = Some st'"
    using assms(2-5) st' by (simp add: OnTcpData_def ContinueTlsHandshake_def)
  moreover have "get_conn fd st' = Some (new_connection fd (totalConnections (connManager st) + 1) [] (steady_now env))"
    "tlsConnections st' fd = Some (t'\<lparr>handshakeComplete := True\<rparr>)"
    using st' assms(6,7) by (auto simp: OnConnect_def get_conn_def GetConnection_def AddConnection_def)
  moreover have "pending t @ bytes = used @ pending (t'\<lparr>handshakeComplete := True\<rparr>)"
    using pulled p by (simp add: pending_def)
  ultimately show ?thesis by (simp add: new_connection_def)
qed

section \<open>Witnesses\<close>

lemma sample_inv: "good_state s \<Longrightarrow> server_inv (sample_server mp4 (sample_conn s b))"
  unfolding server_inv_def using sample_manager sample_tls sample_get(2)
  by (metis option.distinct(1) option.inject sample_conn_fields(3) sample_get(1))

text \<open>One round with a tick of the timer.\<close>

definition timer_event :: "tls_calls ready_event" where
  "timer_event = \<lparr>ev_fd = 5, ev_err = False, ev_in = True, ev_accepts = [], ev_recvs = []\<rparr>"

theorem connections_only_advance_witness:
  "\<exists>st' c'. server_step\<^sup>*\<^sup>* (sample_server False (sample_conn NEGOTIATING [])) st'
    \<and> get_conn 7 st' = Some c' \<and> server_inv st' \<and> NEGOTIATING \<le> c_state c'"
proof -
  let ?st = "sample_server False (sample_conn NEGOTIATING [])"
  obtain st' where tick: "OnTimer sample_env ?st = Some st'" using sample_tick by blast
  have "ServeEvents sample_env (\<lambda>_. True) (Some [timer_event]) ?st = Some st'"
    using tick by (simp add: ServeEvents_def ProcessEvents_def HandleEvent_def timer_event_def sample_server_def)
  then have "server_step ?st st'"
    by (intro server_step.events) (simp_all add: sample_server_def)
  then have run: "server_step\<^sup>*\<^sup>* ?st st'" by (rule r_into_rtranclp)
  obtain c' where c': "get_conn 7 st' = Some c'" "c_id c' = 1"
    using timer_tick_keeps [OF sample_manager sample_iterates tick sample_get(1)] by auto
  have "server_inv ?st" by (rule sample_inv) (simp add: good_state_def)
  from connections_only_advance [OF run this sample_get(1) c'(1)] c' run show ?thesis by auto
qed

theorem disconnect_removes_close_keeps_witness:
  "get_conn 7 (RemoveClient (OnTcpDisconnect OnDisconnect) 7 (sample_server False (sample_conn STREAMING []))) = None
    \<and> get_conn 7 (CloseConnection 7 (sample_server False (sample_conn STREAMING []))) = Some (sample_conn STREAMING [])"
  using disconnect_removes_close_keeps [OF sample_get(1) [of False "sample_conn STREAMING []"],
      where t = "\<lparr>handshakeComplete = True, tls_fd = 7, recvBuf = [], recvBufOffset = 0\<rparr>"] by simp

definition sample_calls :: "nat list \<times> handshake_result \<Rightarrow> (nat list \<times> read_result) list \<Rightarrow> tls_calls" where
  "sample_calls h rs = \<lparr>handshake_call = h, read_calls = rs\<rparr>"

theorem close_frame_use_after_free_witness:
  "OnTcpData (OnConnect sample_env) (HandleData sample_env) OnDisconnect 7 [1, 2]
    (sample_calls ([], HandshakeWants) [([5, 20], ReadPlain (ws_encode True (WsOpcode_code CLOSE) (Some [1, 2, 3, 4]) []))])
    (sample_server False (sample_conn STREAMING [])) = None"
proof -
  have "length (ws_encode True (WsOpcode_code CLOSE) (Some [1, 2, 3, 4]) []) = 6" by code_simp
  then have l: "length (ws_encode True (WsOpcode_code CLOSE) (Some [1, 2, 3, 4]) []) < 2 ^ 63" by simp
  show ?thesis
    by (rule close_frame_use_after_free [OF sample_get(1) _ _ _ _ _ l,
        where t = "\<lparr>handshakeComplete = True, tls_fd = 7, recvBuf = [], recvBufOffset = 0\<rparr>"]) (simp_all add: ws_key_ok_def sample_calls_def)
qed

theorem handshake_leaves_data_unread_witness:
  "\<exists>st' c t''. OnTcpData (OnConnect sample_env) (HandleData sample_env) OnDisconnect 9 [1, 2, 3, 4]
      (sample_calls ([1, 1], HandshakeDone) [])
      ((sample_server False (sample_conn STREAMING []))\<lparr>tlsConnections :=
        [9 \<mapsto> \<lparr>handshakeComplete = False, tls_fd = 9, recvBuf = [], recvBufOffset = 0\<rparr>]\<rparr>) = Some st'
    \<and> get_conn 9 st' = Some c \<and> recvBuffer c = [] \<and> tlsConnections st' 9 = Some t'' \<and> pending t'' = [3, 4]"
proof -
  let ?t = "\<lparr>handshakeComplete = False, tls_fd = 9, recvBuf = [], recvBufOffset = 0\<rparr> :: TlsConnection"
  have pull: "ssl_pull [1, 1] (?t\<lparr>recvBuf := recvBuf ?t @ [1, 2, 3, 4]\<rparr>)
      = ([1, 2], \<lparr>handshakeComplete = False, tls_fd = 9, recvBuf = [1, 2, 3, 4], recvBufOffset = 2\<rparr>)"
    by (simp add: SslRecv_def Let_def)
  from handshake_leaves_data_unread [OF _ _ _ _ pull, where fd = 9 and env = sample_env
      and calls = "sample_calls ([1, 1], HandshakeDone) []" and st = "(sample_server False (sample_conn STREAMING []))\<lparr>tlsConnections :=
        [9 \<mapsto> ?t]\<rparr>"]
  show ?thesis by (auto simp: tls_conn_ok_def sample_calls_def pending_def sample_server_def)
qed

end
