(* ===== verification/TlsContext.thy ===== *)
theory TlsContext
  imports Decimals
begin

text \<open>
  The TLS configuration: src/server/tls_context.cpp. mbedTLS is outside: what is called of it is
  recorded in order, and each call whose result is looked at gets it from a function \<open>lib\<close> of
  the calls before. \<open>pem\<close> is the text of the certificate that is written.
\<close>

section \<open>Calls of mbedTLS\<close>

datatype mbed_call =
  CtrDrbgSeed "byte list"
| CrtParseFile "byte list" | PkParseKeyfile "byte list"
| PkSetupRsa | RsaGenKey nat nat
| WriteCrtInit | SetVersion3 | SetMdSha256 | SetSubjectName "byte list" | SetIssuerName "byte list"
| SetSubjectKey | SetIssuerKey | SetSerial | SetValidity "byte list" "byte list"
| WriteCrtPem nat | WriteCrtFree
| MpiInit | MpiReadString nat "byte list" | MpiFree
| CrtParse "byte list"
| ConfigDefaults | ConfRng | ConfCaChain | ConfOwnCert

record tls_context =
  initialized :: bool
  mbed_log :: "mbed_call list"

definition TlsContext :: tls_context where
  "TlsContext = \<lparr>initialized = False, mbed_log = []\<rparr>"

definition mbed_void :: "mbed_call list \<Rightarrow> tls_context \<Rightarrow> tls_context" where
  "mbed_void calls st = st\<lparr>mbed_log := mbed_log st @ calls\<rparr>"

definition mbed :: "(mbed_call list \<Rightarrow> mbed_call \<Rightarrow> int) \<Rightarrow> mbed_call \<Rightarrow> tls_context \<Rightarrow> int \<times> tls_context" where
  "mbed lib call st = (lib (mbed_log st) call, mbed_void [call] st)"

section \<open>Certificates\<close>

definition LoadCertificate ::
  "(mbed_call list \<Rightarrow> mbed_call \<Rightarrow> int) \<Rightarrow> byte list \<Rightarrow> byte list \<Rightarrow> tls_context \<Rightarrow> bool \<times> tls_context" where
  "LoadCertificate lib certPath keyPath st =
    (case mbed lib (CrtParseFile certPath) st of (ret, st1) \<Rightarrow>
       if ret \<noteq> 0 then (False, st1)
       else (case mbed lib (PkParseKeyfile keyPath) st1 of (ret, st2) \<Rightarrow>
         if ret \<noteq> 0 then (False, st2) else (True, st2)))"

definition SUBJECT :: "byte list" where
  "SUBJECT = str ''CN=localhost,O=VideoServer,C=CN''"

text \<open>
  The certificate is written and read back; \<open>now\<close> is the time. \<open>None\<close> is a stamp that does not fit
  its buffer.
\<close>

definition write_certificate ::
  "(mbed_call list \<Rightarrow> mbed_call \<Rightarrow> int) \<Rightarrow> nat \<Rightarrow> byte list \<Rightarrow> tls_context \<Rightarrow> (bool \<times> tls_context) option" where
  "write_certificate lib now pem st =
    (case mbed lib (SetSubjectName SUBJECT) (mbed_void [WriteCrtInit, SetVersion3, SetMdSha256] st) of (ret, st1) \<Rightarrow>
       if ret \<noteq> 0 then Some (False, mbed_void [WriteCrtFree] st1)
       else (case mbed lib (SetIssuerName SUBJECT) st1 of (ret, st2) \<Rightarrow>
         if ret \<noteq> 0 then Some (False, mbed_void [WriteCrtFree] st2)
         else do {
           let st3 = mbed_void [SetSubjectKey, SetIssuerKey] st2;
           let st4 = mbed_void [MpiInit, MpiReadString 10 (str ''1''), SetSerial, MpiFree] st3;
           notBefore \<leftarrow> utc_stamp now;
           notAfter \<leftarrow> utc_stamp (now + 365 * 24 * 3600);
           (case mbed lib (WriteCrtPem 4096) (mbed_void [SetValidity notBefore notAfter] st4) of (ret, st5) \<Rightarrow>
              let st6 = mbed_void [WriteCrtFree] st5 in
              if ret \<noteq> 0 then Some (False, st6)
              else (case mbed lib (CrtParse (pem @ [0])) st6 of (ret, st7) \<Rightarrow>
                if ret \<noteq> 0 then Some (False, st7) else Some (True, st7)))
         }))"

definition GenerateSelfSignedCert ::
  "(mbed_call list \<Rightarrow> mbed_call \<Rightarrow> int) \<Rightarrow> nat \<Rightarrow> byte list \<Rightarrow> tls_context \<Rightarrow> (bool \<times> tls_context) option" where
  "GenerateSelfSignedCert lib now pem st =
    (case mbed lib PkSetupRsa st of (ret, st1) \<Rightarrow>
       if ret \<noteq> 0 then Some (False, st1)
       else (case mbed lib (RsaGenKey 2048 65537) st1 of (ret, st2) \<Rightarrow>
         if ret \<noteq> 0 then Some (False, st2) else write_certificate lib now pem st2))"

section \<open>The configuration\<close>

definition PERSONALIZATION :: "byte list" where
  "PERSONALIZATION = str ''video_server_tls''"

definition configure :: "(mbed_call list \<Rightarrow> mbed_call \<Rightarrow> int) \<Rightarrow> tls_context \<Rightarrow> bool \<times> tls_context" where
  "configure lib st =
    (case mbed lib ConfigDefaults st of (ret, st1) \<Rightarrow>
       if ret \<noteq> 0 then (False, st1)
       else (case mbed lib ConfOwnCert (mbed_void [ConfRng, ConfCaChain] st1) of (ret, st2) \<Rightarrow>
         if ret \<noteq> 0 then (False, st2) else (True, st2\<lparr>initialized := True\<rparr>)))"

definition ContextInitialize ::
  "(mbed_call list \<Rightarrow> mbed_call \<Rightarrow> int) \<Rightarrow> nat \<Rightarrow> byte list \<Rightarrow> byte list \<Rightarrow> byte list \<Rightarrow> tls_context
    \<Rightarrow> (bool \<times> tls_context) option" where
  "ContextInitialize lib now pem certPath keyPath st =
    (if initialized st then Some (True, st)
     else (case mbed lib (CtrDrbgSeed PERSONALIZATION) st of (ret, st1) \<Rightarrow>
       if ret \<noteq> 0 then Some (False, st1)
       else do {
         (ok, st2) \<leftarrow> (if certPath \<noteq> [] \<and> keyPath \<noteq> [] then Some (LoadCertificate lib certPath keyPath st1)
                      else GenerateSelfSignedCert lib now pem st1);
         if \<not> ok then Some (False, st2) else Some (configure lib st2)
       }))"

section \<open>The writer of certificates is used as it must be\<close>

text \<open>
  \<open>None\<close>: no writer; \<open>Some b\<close>: a writer, \<open>b\<close> whether there is also a number. A call that does not
  fit the state is an error.
\<close>

fun writer_step :: "mbed_call \<Rightarrow> bool option \<Rightarrow> bool option option" where
  "writer_step WriteCrtInit s = (if s = None then Some (Some False) else None)"
| "writer_step WriteCrtFree s = (if s = Some False then Some None else None)"
| "writer_step MpiInit s = (if s = Some False then Some (Some True) else None)"
| "writer_step (MpiReadString b n) s = (if s = Some True then Some s else None)"
| "writer_step SetSerial s = (if s = Some True then Some s else None)"
| "writer_step MpiFree s = (if s = Some True then Some (Some False) else None)"
| "writer_step SetVersion3 s = (if s = Some False then Some s else None)"
| "writer_step SetMdSha256 s = (if s = Some False then Some s else None)"
| "writer_step (SetSubjectName n) s = (if s = Some False then Some s else None)"
| "writer_step (SetIssuerName n) s = (if s = Some False then Some s else None)"
| "writer_step SetSubjectKey s = (if s = Some False then Some s else None)"
| "writer_step SetIssuerKey s = (if s = Some False then Some s else None)"
| "writer_step (SetValidity a b) s = (if s = Some False then Some s else None)"
| "writer_step (WriteCrtPem n) s = (if s = Some False then Some s else None)"
| "writer_step call s = Some s"

fun writer_run :: "mbed_call list \<Rightarrow> bool option \<Rightarrow> bool option option" where
  "writer_run [] s = Some s"
| "writer_run (call # calls) s = do { s1 \<leftarrow> writer_step call s; writer_run calls s1 }"

lemma writer_run_append:
  "writer_run (a @ b) s = do { s1 \<leftarrow> writer_run a s; writer_run b s1 }"
proof (induction a arbitrary: s)
  case (Cons call calls)
  then show ?case by (cases "writer_step call s") simp_all
qed simp

lemma mbed_fields [simp]:
  "mbed lib call st = (lib (mbed_log st) call, mbed_void [call] st)"
  "mbed_log (mbed_void calls st) = mbed_log st @ calls"
  "initialized (mbed_void calls st) = initialized st"
  "mbed_void b (mbed_void a st) = mbed_void (a @ b) st"
  by (simp_all add: mbed_def mbed_void_def)

text \<open>The calls an operation adds leave no writer behind.\<close>

definition tidy :: "tls_context \<Rightarrow> tls_context \<Rightarrow> bool" where
  "tidy st st' \<longleftrightarrow> (\<exists>calls. mbed_log st' = mbed_log st @ calls \<and> writer_run calls None = Some None)"

lemma tidy_log: "mbed_log st' = mbed_log st @ calls \<Longrightarrow> writer_run calls None = Some None \<Longrightarrow> tidy st st'"
  by (auto simp: tidy_def)

lemma tidy_trans: "tidy a b \<Longrightarrow> tidy b c \<Longrightarrow> tidy a c"
  unfolding tidy_def by (metis append.assoc bind.bind_lunit writer_run_append)

lemma tidy_refl [simp]: "tidy st st" by (rule tidy_log [of _ _ "[]"]) simp_all

lemma tidy_LoadCertificate: "tidy st (snd (LoadCertificate lib certPath keyPath st))"
  by (auto simp: LoadCertificate_def intro!: tidy_log)

lemma tidy_write:
  assumes "write_certificate lib now pem st = Some (ok, st')"
  shows "tidy st st'" "initialized st' = initialized st"
  using assms by (auto simp: write_certificate_def Let_def split: if_splits Option.bind_splits intro!: tidy_log)

lemma tidy_Generate:
  assumes "GenerateSelfSignedCert lib now pem st = Some (ok, st')"
  shows "tidy st st'" "initialized st' = initialized st"
proof -
  have step: "tidy st (mbed_void [PkSetupRsa] st)" "tidy st (mbed_void [PkSetupRsa, RsaGenKey 2048 65537] st)"
    by (auto intro!: tidy_log)
  show "tidy st st'" "initialized st' = initialized st"
    using assms step tidy_write tidy_trans [OF step(2)] by (fastforce simp: GenerateSelfSignedCert_def split: if_splits)+
qed

lemma tidy_configure: "tidy st (snd (configure lib st))"
  by (auto simp: configure_def intro!: tidy_log)

text \<open>C32: the TLS context in every outcome of mbedTLS: the writer of certificates and the number it is given
  are used only between their initialisation and their release, and whatever fails, both are
  released exactly once.\<close>

theorem certificate_writer_released:
  assumes "ContextInitialize lib now pem certPath keyPath st = Some (ok, st')"
  shows "\<exists>calls. mbed_log st' = mbed_log st @ calls \<and> writer_run calls None = Some None"
proof -
  let ?st1 = "mbed_void [CtrDrbgSeed PERSONALIZATION] st"
  have one: "tidy st ?st1" by (auto intro!: tidy_log)
  have "tidy st st'"
  proof (cases "initialized st \<or> lib (mbed_log st) (CtrDrbgSeed PERSONALIZATION) \<noteq> 0")
    case True
    with assms one show ?thesis by (auto simp: ContextInitialize_def split: if_splits)
  next
    case False
    with assms obtain okc st2 where c: "(if certPath \<noteq> [] \<and> keyPath \<noteq> [] then Some (LoadCertificate lib certPath keyPath ?st1)
        else GenerateSelfSignedCert lib now pem ?st1) = Some (okc, st2)"
      and r: "(if okc then configure lib st2 else (False, st2)) = (ok, st')"
      by (auto simp: ContextInitialize_def split: Option.bind_splits if_splits)
    have "tidy ?st1 st2"
      using c tidy_LoadCertificate [of ?st1 lib certPath keyPath] tidy_Generate(1) by (auto split: if_splits)
    moreover have "tidy st2 st'" using r tidy_configure [of st2 lib] by (auto split: if_splits)
    ultimately show ?thesis using one tidy_trans by blast
  qed
  then show ?thesis by (simp add: tidy_def)
qed

text \<open>The certificate made for a server without one: both names are the same, it is valid from now for
  365 days to the second (until the year 9890), and when it succeeds the context parses the
  certificate written and the configuration is complete.\<close>

theorem self_signed_certificate:
  assumes "now < 249000000000" and "certPath = [] \<or> keyPath = []" and "\<not> initialized st"
    and "\<forall>log call. lib log call = 0"
  shows "\<exists>st' notBefore notAfter. ContextInitialize lib now pem certPath keyPath st = Some (True, st')
    \<and> initialized st' \<and> mbed_log st' = mbed_log st @ [CtrDrbgSeed PERSONALIZATION, PkSetupRsa, RsaGenKey 2048 65537,
      WriteCrtInit, SetVersion3, SetMdSha256, SetSubjectName SUBJECT, SetIssuerName SUBJECT, SetSubjectKey, SetIssuerKey,
      MpiInit, MpiReadString 10 (str ''1''), SetSerial, MpiFree, SetValidity notBefore notAfter,
      WriteCrtPem 4096, WriteCrtFree, CrtParse (pem @ [0]), ConfigDefaults, ConfRng, ConfCaChain, ConfOwnCert]
    \<and> stamp_seconds notBefore = now \<and> stamp_seconds notAfter = now + 365 * 86400"
proof -
  obtain notBefore where nb: "utc_stamp now = Some notBefore" "stamp_seconds notBefore = now"
    using utc_stamp_seconds [of now] assms(1) by auto
  obtain notAfter where na: "utc_stamp (now + 365 * 24 * 3600) = Some notAfter"
    "stamp_seconds notAfter = now + 365 * 86400"
    using utc_stamp_seconds [of "now + 365 * 24 * 3600"] assms(1) by auto
  have na': "utc_stamp (now + 31536000) = Some notAfter" using na(1) by simp
  show ?thesis
    using assms nb na(2) na'
    by (auto simp: ContextInitialize_def GenerateSelfSignedCert_def write_certificate_def configure_def)
qed

section \<open>Witnesses\<close>

definition sample_mbed :: "mbed_call list \<Rightarrow> mbed_call \<Rightarrow> int" where
  "sample_mbed log call = (case call of WriteCrtPem n \<Rightarrow> - 1 | _ \<Rightarrow> 0)"

theorem certificate_writer_released_witness:
  "\<exists>ok st' calls. ContextInitialize sample_mbed 0 [65] [] [] TlsContext = Some (ok, st')
    \<and> mbed_log st' = calls \<and> writer_run calls None = Some None"
proof -
  obtain s1 s2 where s: "utc_stamp 0 = Some s1" "utc_stamp 31536000 = Some s2"
    using utc_stamp_seconds [of 0] utc_stamp_seconds [of 31536000] by auto
  then obtain ok st' where r: "ContextInitialize sample_mbed 0 [65] [] [] TlsContext = Some (ok, st')"
    by (auto simp: ContextInitialize_def GenerateSelfSignedCert_def write_certificate_def configure_def
        sample_mbed_def TlsContext_def)
  from certificate_writer_released [OF r] r show ?thesis by (auto simp: TlsContext_def)
qed

theorem self_signed_certificate_witness:
  "\<exists>st' notBefore notAfter. ContextInitialize (\<lambda>_ _. 0) 1709210096 [65] [] [] TlsContext = Some (True, st')
    \<and> SetValidity notBefore notAfter \<in> set (mbed_log st') \<and> stamp_seconds notBefore = 1709210096
    \<and> stamp_seconds notAfter = 1740746096"
  using self_signed_certificate [of 1709210096 "[]" "[]" TlsContext "\<lambda>_ _. 0" "[65]"]
  by (auto simp: TlsContext_def)

end
