(* ===== verification/Startup.thy ===== *)
theory Startup
  imports VideoServer TlsContext
begin

text \<open>
  The life of the process: the timer of src/server/timer.cpp, and of src/server/main.cpp the command
  line, \<open>Initialize\<close> and \<open>Shutdown\<close>. A path is looked up in the file system by functions of a
  \<open>machine\<close> record, which also says how the system calls end.
\<close>

section \<open>The timer\<close>

record itimerspec =
  it_value_sec :: nat
  it_value_nsec :: nat
  it_interval_sec :: nat
  it_interval_nsec :: nat

text \<open>\<open>settings\<close> records what \<open>timerfd_settime\<close> was given, \<open>timer_closed\<close> the descriptors closed.\<close>

record timer =
  timer_fd :: int
  settings :: "(int \<times> itimerspec) list"
  timer_closed :: "int list"

definition Timer :: timer where
  "Timer = \<lparr>timer_fd = - 1, settings = [], timer_closed = []\<rparr>"

definition timer_spec :: "u32 \<Rightarrow> itimerspec" where
  "timer_spec intervalMs =
     \<lparr>it_value_sec = unat (intervalMs div 1000), it_value_nsec = unat (intervalMs mod 1000 * 1000000),
       it_interval_sec = unat (intervalMs div 1000), it_interval_nsec = unat (intervalMs mod 1000 * 1000000)\<rparr>"

text \<open>The results of \<open>timerfd_create\<close> and \<open>timerfd_settime\<close>.\<close>

definition TimerStart :: "int option \<Rightarrow> bool \<Rightarrow> u32 \<Rightarrow> timer \<Rightarrow> bool \<times> timer" where
  "TimerStart create settime_ok intervalMs t =
    (case create of None \<Rightarrow> (False, t\<lparr>timer_fd := - 1\<rparr>)
     | Some fd \<Rightarrow>
        if \<not> settime_ok then (False, t\<lparr>timer_fd := - 1, timer_closed := timer_closed t @ [fd]\<rparr>)
        else (True, t\<lparr>timer_fd := fd, settings := settings t @ [(fd, timer_spec intervalMs)]\<rparr>))"

definition TimerStop :: "timer \<Rightarrow> timer" where
  "TimerStop t = (if timer_fd t \<ge> 0 then t\<lparr>timer_closed := timer_closed t @ [timer_fd t], timer_fd := - 1\<rparr> else t)"

text \<open>The result of \<open>read\<close>: the number of bytes and the counter.\<close>

definition TimerRead :: "int \<times> u64 \<Rightarrow> u64" where
  "TimerRead r = (if fst r \<noteq> 8 then 0 else snd r)"

section \<open>The command line\<close>

record options =
  o_port :: u16
  o_h265 :: bool
  o_videoPath :: "byte list"
  o_certPath :: "byte list"
  o_keyPath :: "byte list"

definition DEFAULT_PORT :: u16 where "DEFAULT_PORT = 6061"

definition default_options :: options where
  "default_options = \<lparr>o_port = DEFAULT_PORT, o_h265 = False, o_videoPath = [], o_certPath = [], o_keyPath = []\<rparr>"

definition HasSuffix :: "byte list \<Rightarrow> byte list \<Rightarrow> bool" where
  "HasSuffix s suffix =
    (if length suffix > length s then False else rev suffix = take (length suffix) (rev s))"

definition names_h265 :: "byte list \<Rightarrow> bool" where
  "names_h265 codec \<longleftrightarrow> codec = str ''h265'' \<or> codec = str ''hevc''"

text \<open>The loop over the arguments; \<open>Inl\<close> is the code of an \<open>exit\<close>.\<close>

fun parse_args :: "byte list list \<Rightarrow> options \<Rightarrow> (int + options) option" where
  "parse_args [] opts = Some (Inr opts)"
| "parse_args [arg] opts = (if arg = str ''-h'' then Some (Inl 0) else Some (Inr opts))"
| "parse_args (arg # val # rest) opts =
    (if arg = str ''-p'' then
       (case atoi val of None \<Rightarrow> None | Some port \<Rightarrow> parse_args rest (opts\<lparr>o_port := of_int port\<rparr>))
     else if arg = str ''-c'' then parse_args rest (opts\<lparr>o_h265 := names_h265 val\<rparr>)
     else if arg = str ''-f'' then parse_args rest (opts\<lparr>o_videoPath := val\<rparr>)
     else if arg = str ''--cert'' then parse_args rest (opts\<lparr>o_certPath := val\<rparr>)
     else if arg = str ''--key'' then parse_args rest (opts\<lparr>o_keyPath := val\<rparr>)
     else if arg = str ''-h'' then Some (Inl 0)
     else parse_args (val # rest) opts)"

definition check_options :: "options \<Rightarrow> int + options" where
  "check_options opts0 =
    (let opts = (if o_videoPath opts0 = [] then
           opts0\<lparr>o_videoPath := (if o_h265 opts0 then str ''./tests/fixtures/TSU_640x360.h265''
                                else str ''./tests/fixtures/test_video.h264'')\<rparr>
         else opts0)
     in if o_certPath opts \<noteq> [] \<and> o_keyPath opts = [] then Inl 1
        else if o_certPath opts = [] \<and> o_keyPath opts \<noteq> [] then Inl 1
        else Inr opts)"

definition ParseArgs :: "byte list option \<Rightarrow> byte list list \<Rightarrow> options \<Rightarrow> (int + options) option" where
  "ParseArgs codecEnv argv opts = do {
     let opts1 = (case codecEnv of None \<Rightarrow> opts | Some codec \<Rightarrow> opts\<lparr>o_h265 := names_h265 codec\<rparr>);
     r \<leftarrow> parse_args (drop 1 argv) opts1;
     (case r of Inl code \<Rightarrow> Some (Inl code) | Inr opts2 \<Rightarrow> Some (check_options opts2))
   }"

section \<open>Starting\<close>

text \<open>
  The machine: the contents of files, what libavformat reads of them, mbedTLS, the clock, and the
  results of the system calls.
\<close>

record machine =
  read_file :: "byte list \<Rightarrow> byte list option"
  av_read :: "byte list \<Rightarrow> av_file"
  av_rescale :: "int \<Rightarrow> int \<times> int \<Rightarrow> int"
  mbed_lib :: "mbed_call list \<Rightarrow> mbed_call \<Rightarrow> int"
  wall_clock :: nat
  written_pem :: "byte list"
  tcp_calls :: start_calls
  timer_create :: "int option"
  timer_settime :: bool
  timer_epoll_add :: bool

record app =
  server :: video_server
  app_timer :: timer
  app_tls :: tls_context
  app_options :: options

text \<open>The constructors.\<close>

definition VideoServer :: video_server where
  "VideoServer = tcp_server.extend TcpServer
     \<lparr>tlsConnections = Map.empty, ssl_sent = [], connManager = ConnectionManager, h265 = False, mp4Mode = False,
       frameId = 0, frameIntervalMs = 40,
       nalParser = \<lparr>ns_isH265 = False, ns_nalUnits = [], ns_accessUnits = [], ns_frameRate = 25\<rparr>,
       mp4Demuxer = Mp4Demuxer\<rparr>"

definition fresh_app :: app where
  "fresh_app = \<lparr>server = VideoServer, app_timer = Timer, app_tls = TlsContext, app_options = default_options\<rparr>"

text \<open>Loading the file named on the command line, and the interval between its frames.\<close>

definition LoadMedia :: "machine \<Rightarrow> byte list \<Rightarrow> video_server \<Rightarrow> (bool \<times> video_server) option" where
  "LoadMedia m path st =
    (if mp4Mode st then
       (case Mp4LoadFile (av_rescale m) (av_read m path) (mp4Demuxer st) of (ok, d) \<Rightarrow>
          if \<not> ok then Some (False, st\<lparr>mp4Demuxer := d\<rparr>)
          else Some (True, st\<lparr>mp4Demuxer := d, h265 := v_isH265 (videoInfo d),
                            frameIntervalMs := 1000 / Mp4GetFrameRate d\<rparr>))
     else do {
       loaded \<leftarrow> NalLoadFile (read_file m path) (h265 st);
       (case loaded of None \<Rightarrow> Some (False, st)
        | Some ns \<Rightarrow> Some (True, st\<lparr>nalParser := ns, frameIntervalMs := 1000 / ns_frameRate ns\<rparr>))
     })"

text \<open>
  The interval of the timer. The conversion from \<open>double\<close> truncates; a value out of the range of
  \<open>uint32_t\<close>, infinity for a frame rate of 0 among them, is undefined behaviour.
\<close>

definition timer_interval :: "video_server \<Rightarrow> u32 option" where
  "timer_interval st =
    (if mp4Mode st then Some 10
     else if ns_frameRate (nalParser st) = 0 \<or> frameIntervalMs st \<le> - 1 \<or> frameIntervalMs st \<ge> 2 ^ 32 then None
     else Some (of_nat (nat \<lfloor>frameIntervalMs st\<rfloor>)))"

text \<open>\<open>Inl\<close> is the code with which the process exits, \<open>Inr\<close> what \<open>Initialize\<close> returns.\<close>

definition start_services :: "machine \<Rightarrow> app \<Rightarrow> (bool \<times> app) option" where
  "start_services m a = do {
     (ctx_ok, tls) \<leftarrow> ContextInitialize (mbed_lib m) (wall_clock m) (written_pem m)
        (o_certPath (app_options a)) (o_keyPath (app_options a)) (app_tls a);
     (case TlsStart ctx_ok (tcp_calls m) (server a) of (ok, st) \<Rightarrow>
        let a1 = a\<lparr>app_tls := tls, server := st\<rparr> in
        if \<not> ok then Some (False, a1)
        else do {
          interval \<leftarrow> timer_interval st;
          (case TimerStart (timer_create m) (timer_settime m) interval (app_timer a1) of (ok, t) \<Rightarrow>
             let a2 = a1\<lparr>app_timer := t\<rparr> in
             if \<not> ok then Some (False, a2)
             else Some (True, a2\<lparr>server := TcpRegisterTimer (timer_epoll_add m) (timer_fd t) st\<rparr>))
        })
   }"

definition Initialize :: "machine \<Rightarrow> byte list option \<Rightarrow> byte list list \<Rightarrow> app \<Rightarrow> (int + bool \<times> app) option" where
  "Initialize m codecEnv argv a = do {
     r \<leftarrow> ParseArgs codecEnv argv (app_options a);
     (case r of Inl code \<Rightarrow> Some (Inl code)
      | Inr opts \<Rightarrow> do {
          let st = (server a)\<lparr>h265 := o_h265 opts, mp4Mode := HasSuffix (o_videoPath opts) (str ''.mp4'')\<rparr>;
          (ok, st1) \<leftarrow> LoadMedia m (o_videoPath opts) st;
          let a1 = a\<lparr>app_options := opts, server := st1\<rparr>;
          if \<not> ok then Some (Inr (False, a1)) else map_option Inr (start_services m a1)
        })
   }"

section \<open>Stopping\<close>

fun send_each :: "surroundings \<Rightarrow> int list \<Rightarrow> byte list \<Rightarrow> video_server \<Rightarrow> video_server option" where
  "send_each env [] dat st = Some st"
| "send_each env (fd # fds) dat st = do { (_, st1) \<leftarrow> SendData env fd dat st; send_each env fds dat st1 }"

definition Shutdown :: "surroundings \<Rightarrow> app \<Rightarrow> app option" where
  "Shutdown env a = do {
     st \<leftarrow> send_each env (conn_order env (dom (conns (connManager (server a)))))
             (CreateCloseFrame 1000 (str ''Server is shutting down'')) (server a);
     Some (a\<lparr>server := TlsStop st, app_timer := TimerStop (app_timer a)\<rparr>)
   }"

end
