(* ===== verification/ServerLife.thy ===== *)
theory ServerLife
  imports ServerRun Startup
begin

text \<open>
  The properties of the process from its command line to its end, and of the layers below as far as
  they show in its life.
\<close>

section \<open>The command line\<close>

text \<open>An option as a user means it, how it is written, and what it sets.\<close>

datatype cli_option = Port nat | Codec "byte list" | MediaFile "byte list" | CertFile "byte list" | KeyFile "byte list"

fun cli_args :: "cli_option \<Rightarrow> byte list list" where
  "cli_args (Port n) = [str ''-p'', digits n]"
| "cli_args (Codec c) = [str ''-c'', c]"
| "cli_args (MediaFile f) = [str ''-f'', f]"
| "cli_args (CertFile f) = [str ''--cert'', f]"
| "cli_args (KeyFile f) = [str ''--key'', f]"

fun cli_set :: "cli_option \<Rightarrow> options \<Rightarrow> options" where
  "cli_set (Port n) opts = opts\<lparr>o_port := of_nat n\<rparr>"
| "cli_set (Codec c) opts = opts\<lparr>o_h265 := names_h265 c\<rparr>"
| "cli_set (MediaFile f) opts = opts\<lparr>o_videoPath := f\<rparr>"
| "cli_set (CertFile f) opts = opts\<lparr>o_certPath := f\<rparr>"
| "cli_set (KeyFile f) opts = opts\<lparr>o_keyPath := f\<rparr>"

fun cli_ok :: "cli_option \<Rightarrow> bool" where
  "cli_ok (Port n) = (n < 2 ^ 31)"
| "cli_ok _ = True"

lemma flags_differ [simp]:
  "str ''-c'' \<noteq> str ''-p''" "str ''-f'' \<noteq> str ''-p''" "str ''-f'' \<noteq> str ''-c''"
  "str ''--cert'' \<noteq> str ''-p''" "str ''--cert'' \<noteq> str ''-c''" "str ''--cert'' \<noteq> str ''-f''"
  "str ''--key'' \<noteq> str ''-p''" "str ''--key'' \<noteq> str ''-c''" "str ''--key'' \<noteq> str ''-f''" "str ''--key'' \<noteq> str ''--cert''"
  by (simp_all add: str_def)

text \<open>A command line written from options is read as these options, each in its turn and the last of a
  kind winning; a port is cut to 16 bits.\<close>

theorem command_line_read:
  assumes "list_all cli_ok cli"
  shows "parse_args (concat (map cli_args cli)) opts = Some (Inr (fold cli_set cli opts))"
  using assms
proof (induction cli arbitrary: opts)
  case (Cons c cli)
  then show ?case by (cases c) (simp_all add: atoi_digits)
qed simp

text \<open>C35: options that come out of \<open>ParseArgs\<close> name a file to play, and a certificate if and only if they
  name a key.\<close>

theorem parsed_options_consistent:
  assumes "ParseArgs codecEnv argv opts = Some (Inr res)"
  shows "o_videoPath res \<noteq> [] \<and> (o_certPath res = [] \<longleftrightarrow> o_keyPath res = [])"
  using assms
  by (auto simp: ParseArgs_def check_options_def Let_def str_def split: Option.bind_splits sum.splits if_splits)

section \<open>The timer\<close>

text \<open>C34: the timer is set to the interval exactly: seconds and nanoseconds make up the milliseconds asked
  for, the nanoseconds are below a second, first expiration and period agree, and it is
  disarmed only for the interval 0.\<close>

theorem timer_spec_exact:
  "it_value_sec (timer_spec ms) * 10 ^ 9 + it_value_nsec (timer_spec ms) = unat ms * 10 ^ 6
   \<and> it_value_nsec (timer_spec ms) < 10 ^ 9
   \<and> it_interval_sec (timer_spec ms) = it_value_sec (timer_spec ms)
   \<and> it_interval_nsec (timer_spec ms) = it_value_nsec (timer_spec ms)
   \<and> (it_value_sec (timer_spec ms) = 0 \<and> it_value_nsec (timer_spec ms) = 0 \<longleftrightarrow> ms = 0)"
proof -
  have m: "unat (ms mod 1000) = unat ms mod 1000" "unat (ms div 1000) = unat ms div 1000"
    by (simp_all add: unat_mod unat_div)
  have lt: "unat ms mod 1000 < 1000" by simp
  then have "unat (ms mod 1000) * unat (1000000 :: u32) < 2 ^ LENGTH(32)" using m by simp
  then have ns: "unat (ms mod 1000 * 1000000) = unat ms mod 1000 * 1000000"
    using m by (simp add: unat_mult_lem [THEN iffD1])
  have split: "unat ms div 1000 * 1000 + unat ms mod 1000 = unat ms" by simp
  have "q * 10 ^ 9 + r * 1000000 = (q * 1000 + r) * 10 ^ 6" for q r :: nat by simp
  from this [of "unat ms div 1000" "unat ms mod 1000"]
  have exact: "unat ms div 1000 * 10 ^ 9 + unat ms mod 1000 * 1000000 = unat ms * 10 ^ 6"
    unfolding split .
  moreover have "unat ms mod 1000 * 1000000 < 10 ^ 9" using lt by simp
  moreover have "unat ms div 1000 = 0 \<and> unat ms mod 1000 * 1000000 = 0 \<longleftrightarrow> ms = 0"
    using exact by (auto simp: unat_eq_0)
  ultimately show ?thesis using m ns by (simp add: timer_spec_def)
qed

section \<open>Starting\<close>













text \<open>A raw file of more than 1000 frames per second is served never: its interval is cut to 0
  milliseconds, with which the start succeeds and the timer is disarmed.\<close>

theorem fast_stream_disarms_timer:
  assumes "\<not> mp4Mode st" "ns_frameRate (nalParser st) > 1000"
    and "frameIntervalMs st = 1000 / ns_frameRate (nalParser st)"
  shows "\<exists>interval. timer_interval st = Some interval
    \<and> it_value_sec (timer_spec interval) = 0 \<and> it_value_nsec (timer_spec interval) = 0"
proof -
  have "0 < frameIntervalMs st" "frameIntervalMs st < 1" using assms by simp_all
  then have "timer_interval st = Some 0" using assms(1,2) by (simp add: timer_interval_def)
  then show ?thesis by (simp add: timer_spec_def)
qed

section \<open>Stopping\<close>

lemma send_each_up:
  assumes "list_all (\<lambda>fd. link_up env fd st) fds" "length dat < 2 ^ 31"
  shows "send_each env fds dat st = Some (st\<lparr>ssl_sent := ssl_sent st @ map (\<lambda>fd. (fd, dat)) fds\<rparr>)"
  using assms
proof (induction fds arbitrary: st)
  case (Cons fd fds)
  from Cons.prems Cons.IH [of "st\<lparr>ssl_sent := ssl_sent st @ [(fd, dat)]\<rparr>"] show ?case
    by (simp add: SendData_up)
qed simp

lemma shutdown_frame: "length (CreateCloseFrame 1000 (str ''Server is shutting down'')) < 2 ^ 31"
proof -
  have "length (CreateCloseFrame 1000 (str ''Server is shutting down'')) = 27" by code_simp
  then show ?thesis by simp
qed

text \<open>C31: the shutdown: every client is sent a close frame, in the order of the map, then all TLS connections
  are dropped and epoll, the listening socket and the timer are closed, each once; the sockets
  of the clients are not closed.\<close>

theorem shutdown_notifies_and_closes:
  assumes "list_all (\<lambda>fd. link_up env fd (server a)) fds" "fds = conn_order env (dom (conns (connManager (server a))))"
    and "0 \<le> epollFd (server a)" "0 \<le> serverFd (server a)" "0 \<le> timer_fd (app_timer a)"
  shows "\<exists>a'. Shutdown env a = Some a'
    \<and> ssl_sent (server a') = ssl_sent (server a)
        @ map (\<lambda>fd. (fd, CreateCloseFrame 1000 (str ''Server is shutting down''))) fds
    \<and> tlsConnections (server a') = Map.empty \<and> \<not> isRunning (server a')
    \<and> sys_log (server a') = sys_log (server a) @ [CloseFd (epollFd (server a)), CloseFd (serverFd (server a))]
    \<and> epollFd (server a') = - 1 \<and> serverFd (server a') = - 1
    \<and> timer_closed (app_timer a') = timer_closed (app_timer a) @ [timer_fd (app_timer a)]
    \<and> timer_fd (app_timer a') = - 1"
  using send_each_up [OF assms(1) shutdown_frame] assms(2-5)
  by (simp add: Shutdown_def TlsStop_def TcpStop_def TimerStop_def close_fd_def Let_def)

text \<open>A start of the TCP layer that fails behind the creation of the socket closes the socket and leaves
  its number in place, so that the stop, which the destructor does, closes it again.\<close>

theorem failed_start_closes_twice:
  assumes "TcpStart c st = (False, st')" "sc_socket c = Some sfd" "0 \<le> sfd"
    and "epollFd st = - 1" "sc_epoll_create c \<noteq> Some sfd"
  shows "\<exists>l. sys_log (TcpStop st') = sys_log st @ l \<and> count_list l (CloseFd sfd) = 2"
  using assms
  by (auto simp: TcpStart_def TcpStop_def close_fd_def Let_def split: if_splits option.splits)

section \<open>Sending\<close>

text \<open>C30: sending over TLS returns exactly when the results of \<open>mbedtls_ssl_write\<close> take all the data or fail,
  so a client that never reads blocks the whole server; when it returns, it is with the length
  and the data taken whole, or with -1 and a proper prefix taken.\<close>

theorem tls_send_all_or_error:
  assumes "tlsConnections st fd = Some c" "handshakeComplete c"
    and "takes_at_most (length dat) writes" "length dat < 2 ^ 31"
  shows "(TlsSendData writes fd dat st \<noteq> None \<longleftrightarrow> ends_sending (length dat) writes)
    \<and> (\<forall>n st'. TlsSendData writes fd dat st = Some (n, st') \<longrightarrow>
         (\<exists>taken. st' = st\<lparr>ssl_sent := ssl_sent st @ [(fd, taken)]\<rparr>
           \<and> ((n = int (length dat) \<and> taken = dat) \<or> (n = - 1 \<and> (\<exists>k < length dat. taken = take k dat)))))"
proof -
  have eq: "TlsSendData writes fd dat st = map_option (\<lambda>(sent, taken). (sent, st\<lparr>ssl_sent := ssl_sent st @ [(fd, taken)]\<rparr>))
      (send_loop dat writes 0 [])"
    using assms(1,2) by (cases "send_loop dat writes 0 []") (auto simp: TlsSendData_def)
  have "TlsSendData writes fd dat st \<noteq> None \<longleftrightarrow> ends_sending (length dat) writes"
    using send_loop_ends [of dat writes 0 "[]"] eq by simp
  moreover have "(n = int (length dat) \<and> taken = dat) \<or> (n = - 1 \<and> (\<exists>k < length dat. taken = take k dat))"
    if "send_loop dat writes 0 [] = Some (n, taken)" for n taken
    using send_loop_sent [of dat 0 writes n taken] assms(3,4) that by simp
  ultimately show ?thesis using eq by auto
qed

section \<open>Witnesses\<close>

theorem command_line_read_witness:
  "parse_args (concat (map cli_args [Port 65537, Codec (str ''hevc''), Port 8080, MediaFile [97]])) default_options
    = Some (Inr (default_options\<lparr>o_port := 8080, o_h265 := True, o_videoPath := [97]\<rparr>))"
  using command_line_read [of "[Port 65537, Codec (str ''hevc''), Port 8080, MediaFile [97]]" default_options]
  by (simp add: names_h265_def default_options_def)

theorem parsed_options_consistent_witness:
  "\<exists>opts. ParseArgs None [[118], str ''--cert'', [99], str ''--key'', [107]] default_options = Some (Inr opts)
    \<and> o_videoPath opts \<noteq> [] \<and> o_certPath opts = [99] \<and> o_keyPath opts = [107]"
proof -
  obtain opts where r: "ParseArgs None [[118], str ''--cert'', [99], str ''--key'', [107]] default_options = Some (Inr opts)"
    "o_certPath opts = [99]" "o_keyPath opts = [107]"
    by (simp add: ParseArgs_def check_options_def Let_def default_options_def)
  from parsed_options_consistent [OF r(1)] r show ?thesis by auto
qed



theorem fast_stream_disarms_timer_witness:
  "\<exists>interval. timer_interval ((sample_server False (sample_conn STREAMING []))\<lparr>frameIntervalMs := 1 / 2,
       nalParser := \<lparr>ns_isH265 = False, ns_nalUnits = [], ns_accessUnits = [], ns_frameRate = 2000\<rparr>\<rparr>) = Some interval
    \<and> it_value_sec (timer_spec interval) = 0 \<and> it_value_nsec (timer_spec interval) = 0"
  by (rule fast_stream_disarms_timer) (simp_all add: sample_server_def)

theorem shutdown_notifies_and_closes_witness:
  "\<exists>a'. Shutdown sample_env \<lparr>server = sample_server False (sample_conn STREAMING []),
        app_timer = Timer\<lparr>timer_fd := 5\<rparr>, app_tls = TlsContext, app_options = default_options\<rparr> = Some a'
    \<and> ssl_sent (server a') = [(7, CreateCloseFrame 1000 (str ''Server is shutting down''))]
    \<and> sys_log (server a') = [CloseFd 4, CloseFd 3] \<and> timer_closed (app_timer a') = [5]"
proof -
  let ?a = "\<lparr>server = sample_server False (sample_conn STREAMING []),
        app_timer = Timer\<lparr>timer_fd := 5\<rparr>, app_tls = TlsContext, app_options = default_options\<rparr>"
  have "list_all (\<lambda>fd. link_up sample_env fd (server ?a)) [7]"
    "[7] = conn_order sample_env (dom (conns (connManager (server ?a))))"
    using sample_link_up by (simp_all add: sample_env_def)
  from shutdown_notifies_and_closes [OF this] show ?thesis by (auto simp: sample_server_def Timer_def)
qed

theorem failed_start_closes_twice_witness:
  "\<exists>l. sys_log (TcpStop (snd (TcpStart \<lparr>sc_socket = Some 3, sc_setsockopt = True, sc_nonblocking = True, sc_bind = False,
       sc_listen = True, sc_epoll_create = Some 4, sc_epoll_add = True\<rparr> TcpServer))) = l \<and> count_list l (CloseFd 3) = 2"
  using failed_start_closes_twice [of "\<lparr>sc_socket = Some 3, sc_setsockopt = True, sc_nonblocking = True, sc_bind = False,
       sc_listen = True, sc_epoll_create = Some 4, sc_epoll_add = True\<rparr>" TcpServer _ 3]
  by (simp add: TcpStart_def TcpServer_def)

theorem tls_send_all_or_error_witness:
  "TlsSendData [SendAgain] 7 [1, 2, 3] (sample_server False (sample_conn STREAMING [])) = None
    \<and> (TlsSendData [SendAgain] 7 [1, 2, 3] (sample_server False (sample_conn STREAMING [])) \<noteq> None
        \<longleftrightarrow> ends_sending (length [1, 2, 3 :: byte]) [SendAgain])"
  using tls_send_all_or_error [of "sample_server False (sample_conn STREAMING [])" 7 _ "[1, 2, 3]" "[SendAgain]"]
  by (cases "TlsSendData [SendAgain] 7 [1, 2, 3] (sample_server False (sample_conn STREAMING []))") auto

end
