(* ===== verification/Decoder.thy ===== *)
theory Decoder
  imports Prelude
begin

text \<open>
  The browser's decoder glue, src/wasm/decoder_wasm.c. FFmpeg is outside: what its functions answer
  is an \<open>av_lib\<close> record, functions of the library's own state, which is of type \<open>'c\<close> in a codec
  context and of type \<open>'p\<close> in a parser. The objects the glue allocates are numbered; \<open>live\<close> are
  those not yet freed. An operation yields \<open>None\<close> when it frees an object that is not live, uses a
  NULL pointer, overflows an \<open>int\<close> or leaves a buffer. \<open>float\<close>s are their 32 bits. Console output
  is left out.
\<close>

section \<open>The library\<close>

datatype AVCodecID =
  AV_CODEC_ID_H264 | AV_CODEC_ID_HEVC | AV_CODEC_ID_PCM_ALAW | AV_CODEC_ID_PCM_MULAW
| AV_CODEC_ID_ADPCM_G726 | AV_CODEC_ID_AAC

datatype sample_format = AV_SAMPLE_FMT_FLT | AV_SAMPLE_FMT_FLTP | AV_SAMPLE_FMT_OTHER nat

text \<open>
  A result of \<open>avcodec_send_packet\<close>: success, \<open>AVERROR(EAGAIN)\<close>, \<open>AVERROR_EOF\<close> or another
  negative number.
\<close>

datatype av_result = AvDone | AvAgain | AvEof | AvFailed

text \<open>The fields of \<open>AVFrame\<close> that are read; \<open>av_samples\<close> is \<open>data\<close> read as arrays of \<open>float\<close>.\<close>

record AVFrame =
  av_width :: int
  av_height :: int
  av_pts :: int
  av_duration :: int
  av_data :: "byte list list"
  av_linesize :: "int list"
  av_format :: sample_format
  av_nb_samples :: int
  av_nb_channels :: int
  av_sample_rate :: int
  av_samples :: "u32 list list"

text \<open>\<open>data\<close> is an array of \<open>AV_NUM_DATA_POINTERS\<close> pointers; further channels are in \<open>extended_data\<close>.\<close>

definition AV_NUM_DATA_POINTERS :: nat where "AV_NUM_DATA_POINTERS = 8"

record swr_config =
  swr_format :: sample_format
  swr_rate :: int
  swr_channels :: int

text \<open>
  \<open>av_mem n\<close> is whether allocation number \<open>n\<close> succeeds, \<open>av_junk\<close> what fresh memory contains.
  \<open>av_parse\<close> (\<open>av_parser_parse2\<close>) is given the rest of the input and the time, and returns the
  number of bytes it took and the unit it put together. \<open>avcodec_receive_frame\<close>, on a video or an
  audio context, returns a result and, with \<open>AvDone\<close>, a frame. \<open>swr_converted\<close> is what \<open>swr_convert\<close> writes for a frame, \<open>None\<close> when it fails.
\<close>

record ('p, 'c) av_lib =
  av_mem :: "nat \<Rightarrow> bool"
  av_junk :: "nat \<Rightarrow> u32"
  av_find_decoder :: "AVCodecID \<Rightarrow> bool"
  av_new_context :: "AVCodecID \<Rightarrow> 'c"
  av_set_audio :: "int \<Rightarrow> int \<Rightarrow> int option \<Rightarrow> 'c \<Rightarrow> 'c"
  av_open2 :: "AVCodecID \<Rightarrow> 'c \<Rightarrow> bool \<times> 'c"
  av_new_parser :: "AVCodecID \<Rightarrow> 'p"
  av_parse :: "'p \<Rightarrow> byte list \<Rightarrow> int \<Rightarrow> int \<times> byte list \<times> 'p"
  av_send :: "'c \<Rightarrow> byte list \<times> int \<Rightarrow> av_result \<times> 'c"
  av_receive_video :: "'c \<Rightarrow> av_result \<times> AVFrame \<times> 'c"
  av_receive_audio :: "'c \<Rightarrow> av_result \<times> AVFrame \<times> 'c"
  av_flush :: "'c \<Rightarrow> 'c"
  swr_init_ok :: "swr_config \<Rightarrow> bool"
  swr_converted :: "swr_config \<Rightarrow> AVFrame \<Rightarrow> u32 list option"

section \<open>The state\<close>

datatype DecodeStatus = DECODE_OK | DECODE_NEED_MORE_DATA | DECODE_ERROR | DECODE_EOF

text \<open>Pointers to objects are their numbers, with what the object holds; \<open>video_taken\<close> and
  \<open>audio_taken\<close> record the packets the two decoders have accepted, \<open>video_refused\<close> the ones the video
  decoder has not.\<close>

record ('p, 'c) decoder =
  live :: "nat set"
  allocated :: nat
  video_taken :: "(byte list \<times> int) list"
  video_refused :: "(byte list \<times> int) list"
  audio_taken :: "(byte list \<times> int) list"
  g_video_ctx :: "(nat \<times> 'c) option"
  g_video_frame :: "nat option"
  g_video_packet :: "nat option"
  g_video_codec :: "AVCodecID option"
  g_video_parser :: "(nat \<times> 'p) option"
  g_video_initialized :: bool
  g_audio_ctx :: "(nat \<times> 'c) option"
  g_audio_frame :: "nat option"
  g_audio_packet :: "nat option"
  g_audio_codec :: "AVCodecID option"
  g_swr_ctx :: "(nat \<times> swr_config) option"
  g_audio_output_buf :: "(nat \<times> u32 list) option"
  g_audio_output_buf_size :: int
  g_audio_initialized :: bool

definition initial_decoder :: "('p, 'c) decoder" where
  "initial_decoder = \<lparr>live = {}, allocated = 0, video_taken = [], video_refused = [], audio_taken = [],
     g_video_ctx = None, g_video_frame = None, g_video_packet = None, g_video_codec = None,
     g_video_parser = None, g_video_initialized = False,
     g_audio_ctx = None, g_audio_frame = None, g_audio_packet = None, g_audio_codec = None,
     g_swr_ctx = None, g_audio_output_buf = None, g_audio_output_buf_size = 0,
     g_audio_initialized = False\<rparr>"

definition av_alloc :: "('p, 'c) av_lib \<Rightarrow> ('p, 'c) decoder \<Rightarrow> nat option \<times> ('p, 'c) decoder" where
  "av_alloc lib d =
    (let n = allocated d; d1 = d\<lparr>allocated := n + 1\<rparr>
     in if av_mem lib n then (Some n, d1\<lparr>live := insert n (live d)\<rparr>) else (None, d1))"

definition av_release :: "nat \<Rightarrow> ('p, 'c) decoder \<Rightarrow> ('p, 'c) decoder option" where
  "av_release h d = (if h \<in> live d then Some (d\<lparr>live := live d - {h}\<rparr>) else None)"

text \<open>\<open>if (p) free(p)\<close>.\<close>

definition release_if :: "nat option \<Rightarrow> ('p, 'c) decoder \<Rightarrow> ('p, 'c) decoder option" where
  "release_if p d = (case p of None \<Rightarrow> Some d | Some h \<Rightarrow> av_release h d)"

section \<open>Video\<close>

definition find_video_decoder :: "('p, 'c) av_lib \<Rightarrow> int \<Rightarrow> AVCodecID option" where
  "find_video_decoder lib codec_type =
    (if codec_type = 0 then (if av_find_decoder lib AV_CODEC_ID_H264 then Some AV_CODEC_ID_H264 else None)
     else if codec_type = 1 then (if av_find_decoder lib AV_CODEC_ID_HEVC then Some AV_CODEC_ID_HEVC else None)
     else None)"

definition cleanup_video_decoder :: "('p, 'c) decoder \<Rightarrow> ('p, 'c) decoder option" where
  "cleanup_video_decoder d0 = do {
     d1 \<leftarrow> release_if (g_video_frame d0) d0;
     let d2 = d1\<lparr>g_video_frame := None\<rparr>;
     d3 \<leftarrow> release_if (g_video_packet d2) d2;
     let d4 = d3\<lparr>g_video_packet := None\<rparr>;
     d5 \<leftarrow> release_if (map_option fst (g_video_ctx d4)) d4;
     let d6 = d5\<lparr>g_video_ctx := None\<rparr>;
     d7 \<leftarrow> release_if (map_option fst (g_video_parser d6)) d6;
     let d8 = d7\<lparr>g_video_parser := None\<rparr>;
     Some (d8\<lparr>g_video_codec := None\<rparr>)
   }"

text \<open>The end of \<open>decoder_init_video\<close>: frame, packet and parser for an open context.\<close>

definition finish_init_video :: "('p, 'c) av_lib \<Rightarrow> AVCodecID \<Rightarrow> ('p, 'c) decoder \<Rightarrow> (int \<times> ('p, 'c) decoder) option" where
  "finish_init_video lib codec d0 =
    (let (frame, d1) = av_alloc lib d0;
         (packet, d2) = av_alloc lib (d1\<lparr>g_video_frame := frame\<rparr>);
         d3 = d2\<lparr>g_video_packet := packet\<rparr>
     in if frame = None \<or> packet = None then do { d4 \<leftarrow> cleanup_video_decoder d3; Some (- 4, d4) }
        else (case av_alloc lib d3 of
            (None, d4) \<Rightarrow> do { d5 \<leftarrow> cleanup_video_decoder (d4\<lparr>g_video_parser := None\<rparr>); Some (- 5, d5) }
          | (Some h, d4) \<Rightarrow> Some (0, d4\<lparr>g_video_parser := Some (h, av_new_parser lib codec),
                                        g_video_initialized := True\<rparr>)))"

definition decoder_init_video :: "('p, 'c) av_lib \<Rightarrow> int \<Rightarrow> ('p, 'c) decoder \<Rightarrow> (int \<times> ('p, 'c) decoder) option" where
  "decoder_init_video lib codec_type d0 = do {
     d1 \<leftarrow> (if g_video_initialized d0
           then do { d \<leftarrow> cleanup_video_decoder d0; Some (d\<lparr>g_video_initialized := False\<rparr>) }
           else Some d0);
     let d2 = d1\<lparr>g_video_codec := find_video_decoder lib codec_type\<rparr>;
     (case g_video_codec d2 of
        None \<Rightarrow> Some (- 1, d2)
      | Some codec \<Rightarrow>
         (case av_alloc lib d2 of
            (None, d3) \<Rightarrow> Some (- 2, d3\<lparr>g_video_ctx := None\<rparr>)
          | (Some h, d3) \<Rightarrow>
             (case av_open2 lib codec (av_new_context lib codec) of (ok, c) \<Rightarrow>
                if \<not> ok then do { d4 \<leftarrow> av_release h d3; Some (- 3, d4\<lparr>g_video_ctx := None\<rparr>) }
                else finish_init_video lib codec (d3\<lparr>g_video_ctx := Some (h, c)\<rparr>))))
   }"

definition send_status :: "av_result \<Rightarrow> DecodeStatus" where
  "send_status ret = (case ret of AvDone \<Rightarrow> DECODE_OK | AvAgain \<Rightarrow> DECODE_NEED_MORE_DATA
     | AvEof \<Rightarrow> DECODE_EOF | AvFailed \<Rightarrow> DECODE_ERROR)"

text \<open>\<open>avcodec_send_packet\<close> on the video context.\<close>

definition send_video :: "('p, 'c) av_lib \<Rightarrow> byte list \<times> int \<Rightarrow> ('p, 'c) decoder \<Rightarrow> (av_result \<times> ('p, 'c) decoder) option" where
  "send_video lib packet d =
    (case g_video_ctx d of None \<Rightarrow> None
     | Some (h, c) \<Rightarrow>
        (case av_send lib c packet of (ret, c1) \<Rightarrow>
           Some (ret, d\<lparr>g_video_ctx := Some (h, c1),
             video_taken := (if ret = AvDone then video_taken d @ [packet] else video_taken d),
             video_refused := (if ret = AvDone then video_refused d else video_refused d @ [packet])\<rparr>)))"

text \<open>The loop over the input; the body of one round is \<open>parse_video\<close>.\<close>

definition parse_video :: "('p, 'c) av_lib \<Rightarrow> int \<Rightarrow> byte list \<Rightarrow> ('p, 'c) decoder
    \<Rightarrow> (int \<times> byte list \<times> ('p, 'c) decoder) option" where
  "parse_video lib pts input d =
    (case g_video_parser d of None \<Rightarrow> None
     | Some (h, p) \<Rightarrow>
        (case av_parse lib p input pts of (consumed, out, p1) \<Rightarrow>
           Some (consumed, out, d\<lparr>g_video_parser := Some (h, p1)\<rparr>)))"

partial_function (option) send_video_loop ::
  "('p, 'c) av_lib \<Rightarrow> int \<Rightarrow> byte list \<Rightarrow> bool \<Rightarrow> ('p, 'c) decoder \<Rightarrow> (DecodeStatus \<times> ('p, 'c) decoder) option" where
  "send_video_loop lib pts input has_packet d =
    (if input = [] then Some (if has_packet then DECODE_OK else DECODE_NEED_MORE_DATA, d)
     else Option.bind (parse_video lib pts input d) (\<lambda>(consumed, out, d1).
       if consumed < 0 then Some (DECODE_ERROR, d1)
       else if out = [] then send_video_loop lib pts (drop (nat consumed) input) has_packet d1
       else Option.bind (send_video lib (out, pts) d1) (\<lambda>(ret, d2).
         if ret = AvDone then send_video_loop lib pts (drop (nat consumed) input) True d2
         else Some (send_status ret, d2))))"

definition decoder_send_video_packet ::
  "('p, 'c) av_lib \<Rightarrow> byte list \<Rightarrow> int \<Rightarrow> ('p, 'c) decoder \<Rightarrow> (DecodeStatus \<times> ('p, 'c) decoder) option" where
  "decoder_send_video_packet lib dat pts d =
    (if \<not> g_video_initialized d \<or> g_video_ctx d = None \<or> g_video_packet d = None then Some (DECODE_ERROR, d)
     else if g_video_parser d = None then do {
       (ret, d1) \<leftarrow> send_video lib (dat, pts) d;
       Some (send_status ret, d1)
     }
     else send_video_loop lib pts dat False d)"

text \<open>\<open>NULL\<close> planes are \<open>None\<close>.\<close>

record VideoFrameInfo =
  vi_width :: int
  vi_height :: int
  vi_pts :: int
  vi_duration :: int
  vi_planes :: "byte list option list"
  vi_strides :: "int list"

definition at_index :: "'a list \<Rightarrow> nat \<Rightarrow> 'a option" where
  "at_index xs i = (if i < length xs then Some (xs ! i) else None)"

definition video_frame_info :: "AVFrame \<Rightarrow> VideoFrameInfo" where
  "video_frame_info f = \<lparr>vi_width = av_width f, vi_height = av_height f, vi_pts = av_pts f,
     vi_duration = av_duration f,
     vi_planes = [at_index (av_data f) 0, at_index (av_data f) 1, at_index (av_data f) 2],
     vi_strides = map (\<lambda>i. case at_index (av_linesize f) i of None \<Rightarrow> 0 | Some s \<Rightarrow> s) [0, 1, 2]\<rparr>"

text \<open>\<open>given\<close> is whether the caller's \<open>frame_info\<close> is not \<open>NULL\<close>.\<close>

definition decoder_receive_video_frame ::
  "('p, 'c) av_lib \<Rightarrow> bool \<Rightarrow> ('p, 'c) decoder \<Rightarrow> DecodeStatus \<times> VideoFrameInfo option \<times> ('p, 'c) decoder" where
  "decoder_receive_video_frame lib given d =
    (if \<not> g_video_initialized d \<or> g_video_frame d = None \<or> \<not> given then (DECODE_ERROR, None, d)
     else (case g_video_ctx d of None \<Rightarrow> (DECODE_ERROR, None, d)
       | Some (h, c) \<Rightarrow>
          (case av_receive_video lib c of (ret, f, c1) \<Rightarrow>
             let d1 = d\<lparr>g_video_ctx := Some (h, c1)\<rparr>
             in if ret \<noteq> AvDone then (send_status ret, None, d1)
                else (DECODE_OK, Some (video_frame_info f), d1))))"

definition decoder_flush_video :: "('p, 'c) av_lib \<Rightarrow> ('p, 'c) decoder \<Rightarrow> ('p, 'c) decoder" where
  "decoder_flush_video lib d =
    (case g_video_ctx d of None \<Rightarrow> d | Some (h, c) \<Rightarrow> d\<lparr>g_video_ctx := Some (h, av_flush lib c)\<rparr>)"

section \<open>Audio\<close>

definition find_audio_decoder :: "('p, 'c) av_lib \<Rightarrow> int \<Rightarrow> AVCodecID option" where
  "find_audio_decoder lib codec_type =
    (let found = (\<lambda>codec. if av_find_decoder lib codec then Some codec else None)
     in if codec_type = 10 then found AV_CODEC_ID_PCM_ALAW
        else if codec_type = 11 then found AV_CODEC_ID_PCM_MULAW
        else if codec_type = 12 then found AV_CODEC_ID_ADPCM_G726
        else if codec_type = 13 then found AV_CODEC_ID_AAC
        else None)"

definition cleanup_audio_decoder :: "('p, 'c) decoder \<Rightarrow> ('p, 'c) decoder option" where
  "cleanup_audio_decoder d0 = do {
     d1 \<leftarrow> release_if (g_audio_frame d0) d0;
     let d2 = d1\<lparr>g_audio_frame := None\<rparr>;
     d3 \<leftarrow> release_if (g_audio_packet d2) d2;
     let d4 = d3\<lparr>g_audio_packet := None\<rparr>;
     d5 \<leftarrow> release_if (map_option fst (g_audio_ctx d4)) d4;
     let d6 = d5\<lparr>g_audio_ctx := None\<rparr>;
     d7 \<leftarrow> release_if (map_option fst (g_swr_ctx d6)) d6;
     let d8 = d7\<lparr>g_swr_ctx := None\<rparr>;
     d9 \<leftarrow> release_if (map_option fst (g_audio_output_buf d8)) d8;
     let d10 = (if g_audio_output_buf d9 = None then d9
                else d9\<lparr>g_audio_output_buf := None, g_audio_output_buf_size := 0\<rparr>);
     Some (d10\<lparr>g_audio_codec := None\<rparr>)
   }"

definition finish_init_audio :: "('p, 'c) av_lib \<Rightarrow> ('p, 'c) decoder \<Rightarrow> (int \<times> ('p, 'c) decoder) option" where
  "finish_init_audio lib d0 =
    (let (frame, d1) = av_alloc lib d0;
         (packet, d2) = av_alloc lib (d1\<lparr>g_audio_frame := frame\<rparr>);
         d3 = d2\<lparr>g_audio_packet := packet\<rparr>
     in if frame = None \<or> packet = None then do { d4 \<leftarrow> cleanup_audio_decoder d3; Some (- 4, d4) }
        else Some (0, d3\<lparr>g_audio_initialized := True\<rparr>))"

definition decoder_init_audio ::
  "('p, 'c) av_lib \<Rightarrow> int \<Rightarrow> int \<Rightarrow> int \<Rightarrow> ('p, 'c) decoder \<Rightarrow> (int \<times> ('p, 'c) decoder) option" where
  "decoder_init_audio lib codec_type sample_rate channels d0 = do {
     d1 \<leftarrow> (if g_audio_initialized d0
           then do { d \<leftarrow> cleanup_audio_decoder d0; Some (d\<lparr>g_audio_initialized := False\<rparr>) }
           else Some d0);
     let d2 = d1\<lparr>g_audio_codec := find_audio_decoder lib codec_type\<rparr>;
     (case g_audio_codec d2 of
        None \<Rightarrow> Some (- 1, d2)
      | Some codec \<Rightarrow>
         (case av_alloc lib d2 of
            (None, d3) \<Rightarrow> Some (- 2, d3\<lparr>g_audio_ctx := None\<rparr>)
          | (Some h, d3) \<Rightarrow>
             (case av_open2 lib codec (av_set_audio lib sample_rate channels
                     (if codec_type = 12 then Some 4 else None) (av_new_context lib codec)) of (ok, c) \<Rightarrow>
                if \<not> ok then do { d4 \<leftarrow> av_release h d3; Some (- 3, d4\<lparr>g_audio_ctx := None\<rparr>) }
                else finish_init_audio lib (d3\<lparr>g_audio_ctx := Some (h, c)\<rparr>))))
   }"

definition decoder_send_audio_packet ::
  "('p, 'c) av_lib \<Rightarrow> byte list \<Rightarrow> int \<Rightarrow> ('p, 'c) decoder \<Rightarrow> DecodeStatus \<times> ('p, 'c) decoder" where
  "decoder_send_audio_packet lib dat pts d =
    (if \<not> g_audio_initialized d \<or> g_audio_packet d = None then (DECODE_ERROR, d)
     else (case g_audio_ctx d of None \<Rightarrow> (DECODE_ERROR, d)
       | Some (h, c) \<Rightarrow>
          (case av_send lib c (dat, pts) of (ret, c1) \<Rightarrow>
             (send_status ret, d\<lparr>g_audio_ctx := Some (h, c1),
               audio_taken := (if ret = AvDone then audio_taken d @ [(dat, pts)] else audio_taken d)\<rparr>))))"

subsection \<open>Received audio\<close>

definition i32_mul :: "int \<Rightarrow> int \<Rightarrow> int option" where
  "i32_mul a b = (if - (2 ^ 31) \<le> a * b \<and> a * b < 2 ^ 31 then Some (a * b) else None)"

text \<open>\<open>n * sizeof(float)\<close> is computed in \<open>size_t\<close>, which has 32 bits in WebAssembly; the size in floats.\<close>

definition float_room :: "int \<Rightarrow> nat" where
  "float_room n = unat (of_int n * 4 :: u32) div 4"

definition grow_audio_buffer :: "('p, 'c) av_lib \<Rightarrow> int \<Rightarrow> ('p, 'c) decoder \<Rightarrow> (bool \<times> ('p, 'c) decoder) option" where
  "grow_audio_buffer lib output_samples d =
    (if output_samples > g_audio_output_buf_size d then do {
       d1 \<leftarrow> release_if (map_option fst (g_audio_output_buf d)) d;
       (case av_alloc lib d1 of
          (None, d2) \<Rightarrow> Some (False, d2\<lparr>g_audio_output_buf := None, g_audio_output_buf_size := 0\<rparr>)
        | (Some h, d2) \<Rightarrow> Some (True, d2\<lparr>g_audio_output_buf := Some (h, map (av_junk lib) [0..<float_room output_samples]),
                                         g_audio_output_buf_size := output_samples\<rparr>))
     }
     else Some (True, d))"

primrec for_upto :: "nat \<Rightarrow> (nat \<Rightarrow> 's \<Rightarrow> 's option) \<Rightarrow> 's \<Rightarrow> 's option" where
  "for_upto 0 body s = Some s"
| "for_upto (Suc n) body s = do { s1 \<leftarrow> for_upto n body s; body n s1 }"

definition plane_sample :: "AVFrame \<Rightarrow> nat \<Rightarrow> nat \<Rightarrow> u32 option" where
  "plane_sample f ch i =
    (if ch < AV_NUM_DATA_POINTERS then do { plane \<leftarrow> at_index (av_samples f) ch; at_index plane i } else None)"

definition store_sample :: "nat \<Rightarrow> u32 \<Rightarrow> u32 list \<Rightarrow> u32 list option" where
  "store_sample k s buf = (if k < length buf then Some (buf[k := s]) else None)"

text \<open>Planar to interleaved, and the plain copy of interleaved samples.\<close>

definition interleave :: "AVFrame \<Rightarrow> u32 list \<Rightarrow> u32 list option" where
  "interleave f buf =
    for_upto (nat (av_nb_samples f)) (\<lambda>i. for_upto (nat (av_nb_channels f)) (\<lambda>ch buf. do {
      s \<leftarrow> plane_sample f ch i;
      store_sample (i * nat (av_nb_channels f) + ch) s buf
    })) buf"

definition overwrite :: "u32 list \<Rightarrow> u32 list \<Rightarrow> u32 list option" where
  "overwrite xs buf = (if length xs \<le> length buf then Some (xs @ drop (length xs) buf) else None)"

definition copy_samples :: "AVFrame \<Rightarrow> int \<Rightarrow> u32 list \<Rightarrow> u32 list option" where
  "copy_samples f output_samples buf = do {
     plane \<leftarrow> at_index (av_samples f) 0;
     if float_room output_samples \<le> length plane then overwrite (take (float_room output_samples) plane) buf else None
   }"

text \<open>
  The converter is made for the first frame that needs one. A failed \<open>swr_alloc_set_opts2\<close> leaves
  the pointer NULL.
\<close>

definition make_swr :: "('p, 'c) av_lib \<Rightarrow> AVFrame \<Rightarrow> ('p, 'c) decoder \<Rightarrow> (bool \<times> ('p, 'c) decoder) option" where
  "make_swr lib f d =
    (if g_swr_ctx d \<noteq> None then Some (True, d)
     else let cfg = \<lparr>swr_format = av_format f, swr_rate = av_sample_rate f, swr_channels = av_nb_channels f\<rparr>
     in (case av_alloc lib d of
           (None, d1) \<Rightarrow> Some (False, d1)
         | (Some h, d1) \<Rightarrow>
            if swr_init_ok lib cfg then Some (True, d1\<lparr>g_swr_ctx := Some (h, cfg)\<rparr>)
            else do { d2 \<leftarrow> av_release h d1; Some (False, d2) }))"

text \<open>The samples of a frame, written to the buffer; \<open>None\<close> for the buffer is a failed conversion.\<close>

definition convert_audio ::
  "('p, 'c) av_lib \<Rightarrow> AVFrame \<Rightarrow> int \<Rightarrow> u32 list \<Rightarrow> ('p, 'c) decoder \<Rightarrow> (u32 list option \<times> ('p, 'c) decoder) option" where
  "convert_audio lib f output_samples buf d =
    (case av_format f of
       AV_SAMPLE_FMT_FLT \<Rightarrow> do { b \<leftarrow> copy_samples f output_samples buf; Some (Some b, d) }
     | AV_SAMPLE_FMT_FLTP \<Rightarrow> do { b \<leftarrow> interleave f buf; Some (Some b, d) }
     | AV_SAMPLE_FMT_OTHER _ \<Rightarrow> do {
         (ok, d1) \<leftarrow> make_swr lib f d;
         if \<not> ok then Some (None, d1)
         else do {
           (h, cfg) \<leftarrow> g_swr_ctx d1;
           (case swr_converted lib cfg f of
              None \<Rightarrow> Some (None, d1)
            | Some xs \<Rightarrow> do { b \<leftarrow> overwrite xs buf; Some (Some b, d1) })
         }
       })"

record AudioFrameInfo =
  ai_sample_rate :: int
  ai_channels :: int
  ai_nb_samples :: int
  ai_pts :: int
  ai_data :: "u32 list"

text \<open>A \<open>NULL\<close> buffer, which is left when there is no sample, has no room.\<close>

definition audio_buffer :: "('p, 'c) decoder \<Rightarrow> u32 list" where
  "audio_buffer d = (case g_audio_output_buf d of None \<Rightarrow> [] | Some (h, b) \<Rightarrow> b)"

definition set_audio_buffer :: "u32 list \<Rightarrow> ('p, 'c) decoder \<Rightarrow> ('p, 'c) decoder" where
  "set_audio_buffer b d = d\<lparr>g_audio_output_buf := map_option (\<lambda>(h, _). (h, b)) (g_audio_output_buf d)\<rparr>"

definition deliver_audio ::
  "('p, 'c) av_lib \<Rightarrow> AVFrame \<Rightarrow> ('p, 'c) decoder \<Rightarrow> (DecodeStatus \<times> AudioFrameInfo option \<times> ('p, 'c) decoder) option" where
  "deliver_audio lib f d0 = do {
     output_samples \<leftarrow> i32_mul (av_nb_samples f) (av_nb_channels f);
     (ok, d1) \<leftarrow> grow_audio_buffer lib output_samples d0;
     if \<not> ok then Some (DECODE_ERROR, None, d1)
     else do {
       (converted, d2) \<leftarrow> convert_audio lib f output_samples (audio_buffer d1) d1;
       (case converted of
          None \<Rightarrow> Some (DECODE_ERROR, None, d2)
        | Some b \<Rightarrow> Some (DECODE_OK, Some \<lparr>ai_sample_rate = av_sample_rate f, ai_channels = av_nb_channels f,
             ai_nb_samples = av_nb_samples f, ai_pts = av_pts f, ai_data = b\<rparr>, set_audio_buffer b d2))
     }
   }"

definition decoder_receive_audio_frame ::
  "('p, 'c) av_lib \<Rightarrow> bool \<Rightarrow> ('p, 'c) decoder
    \<Rightarrow> (DecodeStatus \<times> AudioFrameInfo option \<times> ('p, 'c) decoder) option" where
  "decoder_receive_audio_frame lib given d =
    (if \<not> g_audio_initialized d \<or> g_audio_frame d = None \<or> \<not> given then Some (DECODE_ERROR, None, d)
     else (case g_audio_ctx d of None \<Rightarrow> Some (DECODE_ERROR, None, d)
       | Some (h, c) \<Rightarrow>
          (case av_receive_audio lib c of (ret, f, c1) \<Rightarrow>
             let d1 = d\<lparr>g_audio_ctx := Some (h, c1)\<rparr>
             in if ret \<noteq> AvDone then Some (send_status ret, None, d1) else deliver_audio lib f d1)))"

definition decoder_flush_audio :: "('p, 'c) av_lib \<Rightarrow> ('p, 'c) decoder \<Rightarrow> ('p, 'c) decoder option" where
  "decoder_flush_audio lib d0 = do {
     let d1 = (case g_audio_ctx d0 of None \<Rightarrow> d0 | Some (h, c) \<Rightarrow> d0\<lparr>g_audio_ctx := Some (h, av_flush lib c)\<rparr>);
     d2 \<leftarrow> release_if (map_option fst (g_swr_ctx d1)) d1;
     Some (d2\<lparr>g_swr_ctx := None\<rparr>)
   }"

section \<open>Lifecycle\<close>

definition decoder_destroy :: "('p, 'c) decoder \<Rightarrow> ('p, 'c) decoder option" where
  "decoder_destroy d0 = do {
     d1 \<leftarrow> cleanup_video_decoder d0;
     d2 \<leftarrow> cleanup_audio_decoder d1;
     Some (d2\<lparr>g_video_initialized := False, g_audio_initialized := False\<rparr>)
   }"

text \<open>A call of the interface by the page, with its result dropped, and a sequence of calls.\<close>

datatype api_call =
  InitVideo int | SendVideo "byte list" int | ReceiveVideo bool | FlushVideo
| InitAudio int int int | SendAudio "byte list" int | ReceiveAudio bool | FlushAudio | Destroy

fun call_api :: "('p, 'c) av_lib \<Rightarrow> api_call \<Rightarrow> ('p, 'c) decoder \<Rightarrow> ('p, 'c) decoder option" where
  "call_api lib (InitVideo codec) d = map_option snd (decoder_init_video lib codec d)"
| "call_api lib (SendVideo dat pts) d = map_option snd (decoder_send_video_packet lib dat pts d)"
| "call_api lib (ReceiveVideo given) d = Some (snd (snd (decoder_receive_video_frame lib given d)))"
| "call_api lib FlushVideo d = Some (decoder_flush_video lib d)"
| "call_api lib (InitAudio codec rate channels) d = map_option snd (decoder_init_audio lib codec rate channels d)"
| "call_api lib (SendAudio dat pts) d = Some (snd (decoder_send_audio_packet lib dat pts d))"
| "call_api lib (ReceiveAudio given) d = map_option (snd \<circ> snd) (decoder_receive_audio_frame lib given d)"
| "call_api lib FlushAudio d = decoder_flush_audio lib d"
| "call_api lib Destroy d = decoder_destroy d"

fun call_apis :: "('p, 'c) av_lib \<Rightarrow> api_call list \<Rightarrow> ('p, 'c) decoder \<Rightarrow> ('p, 'c) decoder option" where
  "call_apis lib [] d = Some d"
| "call_apis lib (a # as) d = do { d1 \<leftarrow> call_api lib a d; call_apis lib as d1 }"

end
