(* ===== verification/DecoderProofs.thy ===== *)
theory DecoderProofs
  imports Decoder
begin

text \<open>
  The objects of the decoder glue: every library object is owned by exactly one global pointer, so
  none is freed twice, used after it was freed, or lost.
\<close>

section \<open>Ownership\<close>

definition handle_list :: "'a option \<Rightarrow> 'a list" where
  "handle_list p = (case p of None \<Rightarrow> [] | Some h \<Rightarrow> [h])"

lemma handle_list_simps [simp]: "handle_list None = []" "handle_list (Some h) = [h]"
  by (simp_all add: handle_list_def)

definition video_handles :: "('p, 'c) decoder \<Rightarrow> nat list" where
  "video_handles d = handle_list (g_video_frame d) @ handle_list (g_video_packet d)
     @ handle_list (map_option fst (g_video_ctx d)) @ handle_list (map_option fst (g_video_parser d))"

definition audio_handles :: "('p, 'c) decoder \<Rightarrow> nat list" where
  "audio_handles d = handle_list (g_audio_frame d) @ handle_list (g_audio_packet d)
     @ handle_list (map_option fst (g_audio_ctx d)) @ handle_list (map_option fst (g_swr_ctx d))
     @ handle_list (map_option fst (g_audio_output_buf d))"

definition owns :: "('p, 'c) decoder \<Rightarrow> bool" where
  "owns d \<longleftrightarrow> distinct (video_handles d @ audio_handles d)
     \<and> live d = set (video_handles d) \<union> set (audio_handles d) \<and> (\<forall>h\<in>live d. h < allocated d)"

definition no_video :: "('p, 'c) decoder \<Rightarrow> bool" where
  "no_video d \<longleftrightarrow> g_video_ctx d = None \<and> g_video_frame d = None \<and> g_video_packet d = None \<and> g_video_parser d = None"

definition no_audio :: "('p, 'c) decoder \<Rightarrow> bool" where
  "no_audio d \<longleftrightarrow> g_audio_ctx d = None \<and> g_audio_frame d = None \<and> g_audio_packet d = None
     \<and> g_swr_ctx d = None \<and> g_audio_output_buf d = None"

definition full_video :: "('p, 'c) decoder \<Rightarrow> bool" where
  "full_video d \<longleftrightarrow> g_video_ctx d \<noteq> None \<and> g_video_frame d \<noteq> None \<and> g_video_packet d \<noteq> None \<and> g_video_parser d \<noteq> None"

definition full_audio :: "('p, 'c) decoder \<Rightarrow> bool" where
  "full_audio d \<longleftrightarrow> g_audio_ctx d \<noteq> None \<and> g_audio_frame d \<noteq> None \<and> g_audio_packet d \<noteq> None"

text \<open>The buffer has the size that is noted for it.\<close>

definition buffer_ok :: "('p, 'c) decoder \<Rightarrow> bool" where
  "buffer_ok d \<longleftrightarrow> 0 \<le> g_audio_output_buf_size d
     \<and> (case g_audio_output_buf d of None \<Rightarrow> g_audio_output_buf_size d = 0
        | Some (h, b) \<Rightarrow> length b = float_room (g_audio_output_buf_size d))"

definition decoder_inv :: "('p, 'c) decoder \<Rightarrow> bool" where
  "decoder_inv d \<longleftrightarrow> owns d \<and> buffer_ok d
     \<and> (if g_video_initialized d then full_video d else no_video d)
     \<and> (if g_audio_initialized d then full_audio d else no_audio d)"

lemmas handle_defs = owns_def video_handles_def audio_handles_def

lemma initial_inv: "decoder_inv initial_decoder"
  by (simp add: decoder_inv_def handle_defs initial_decoder_def buffer_ok_def no_video_def no_audio_def)

section \<open>Cleaning up\<close>

lemma release_if_live:
  "set (handle_list p) \<subseteq> live d \<Longrightarrow> release_if p d = Some (d\<lparr>live := live d - set (handle_list p)\<rparr>)"
  by (cases p) (simp_all add: release_if_def av_release_def)

definition without_video :: "('p, 'c) decoder \<Rightarrow> ('p, 'c) decoder" where
  "without_video d = d\<lparr>live := live d - set (video_handles d), g_video_ctx := None, g_video_frame := None,
     g_video_packet := None, g_video_codec := None, g_video_parser := None\<rparr>"

definition without_audio :: "('p, 'c) decoder \<Rightarrow> ('p, 'c) decoder" where
  "without_audio d = d\<lparr>live := live d - set (audio_handles d), g_audio_ctx := None, g_audio_frame := None,
     g_audio_packet := None, g_audio_codec := None, g_swr_ctx := None, g_audio_output_buf := None,
     g_audio_output_buf_size := (if g_audio_output_buf d = None then g_audio_output_buf_size d else 0)\<rparr>"

lemma subset_Diff_disjoint: "A \<subseteq> B - C \<longleftrightarrow> A \<subseteq> B \<and> C \<inter> A = {}"
  by blast

lemma Diff_twice: "A - B - C = A - (B \<union> C)"
  by blast

lemmas release_simps = release_if_live subset_Diff_disjoint Diff_twice Int_Un_distrib Int_Un_distrib2 Un_assoc

lemma cleanup_video:
  assumes "distinct (video_handles d)" "set (video_handles d) \<subseteq> live d"
  shows "cleanup_video_decoder d = Some (without_video d)"
  using assms
  by (cases d) (simp add: cleanup_video_decoder_def without_video_def video_handles_def release_simps)

lemma cleanup_audio:
  assumes "distinct (audio_handles d)" "set (audio_handles d) \<subseteq> live d"
  shows "cleanup_audio_decoder d = Some (without_audio d)"
  using assms
  by (cases d) (simp add: cleanup_audio_decoder_def without_audio_def audio_handles_def release_simps)

lemma owns_without_video:
  assumes "owns d"
  shows "cleanup_video_decoder d = Some (without_video d)" "owns (without_video d)"
proof -
  from assms show "cleanup_video_decoder d = Some (without_video d)"
    by (intro cleanup_video) (auto simp: owns_def)
  from assms show "owns (without_video d)"
    unfolding owns_def by (auto simp: without_video_def video_handles_def audio_handles_def)
qed

lemma owns_without_audio:
  assumes "owns d"
  shows "cleanup_audio_decoder d = Some (without_audio d)" "owns (without_audio d)"
proof -
  from assms show "cleanup_audio_decoder d = Some (without_audio d)"
    by (intro cleanup_audio) (auto simp: owns_def)
  from assms show "owns (without_audio d)"
    unfolding owns_def by (auto simp: without_audio_def video_handles_def audio_handles_def)
qed

text \<open>Which half of the state an operation leaves alone.\<close>

definition same_audio :: "('p, 'c) decoder \<Rightarrow> ('p, 'c) decoder \<Rightarrow> bool" where
  "same_audio d d' \<longleftrightarrow> audio_handles d' = audio_handles d \<and> g_audio_initialized d' = g_audio_initialized d
     \<and> g_audio_ctx d' = g_audio_ctx d \<and> g_audio_frame d' = g_audio_frame d \<and> g_audio_packet d' = g_audio_packet d
     \<and> g_swr_ctx d' = g_swr_ctx d \<and> g_audio_output_buf d' = g_audio_output_buf d
     \<and> g_audio_output_buf_size d' = g_audio_output_buf_size d"

definition same_video :: "('p, 'c) decoder \<Rightarrow> ('p, 'c) decoder \<Rightarrow> bool" where
  "same_video d d' \<longleftrightarrow> video_handles d' = video_handles d \<and> g_video_initialized d' = g_video_initialized d
     \<and> g_video_ctx d' = g_video_ctx d \<and> g_video_frame d' = g_video_frame d \<and> g_video_packet d' = g_video_packet d
     \<and> g_video_parser d' = g_video_parser d \<and> video_taken d' = video_taken d"

lemma cleaned_video [simp]:
  "no_video (without_video d)" "same_audio d (without_video d)"
  "g_video_initialized (without_video d) = g_video_initialized d"
  by (simp_all add: no_video_def same_audio_def without_video_def audio_handles_def)

lemma cleaned_audio [simp]:
  "buffer_ok d \<Longrightarrow> buffer_ok (without_audio d)"
  "no_audio (without_audio d)" "same_video d (without_audio d)"
  "g_audio_initialized (without_audio d) = g_audio_initialized d"
  by (auto simp: no_audio_def same_video_def without_audio_def video_handles_def buffer_ok_def split: option.splits)

section \<open>Opening a decoder\<close>

text \<open>A fresh object is owned as soon as its pointer is stored.\<close>

lemma av_alloc_cases:
  assumes "av_alloc lib d = (p, d')"
  obtains "p = None" "d' = d\<lparr>allocated := allocated d + 1\<rparr>"
  | "p = Some (allocated d)" "d' = d\<lparr>allocated := allocated d + 1, live := insert (allocated d) (live d)\<rparr>"
  using assms by (auto simp: av_alloc_def Let_def split: if_splits)

lemma owns_fresh: "owns d \<Longrightarrow> allocated d \<notin> live d"
  unfolding owns_def by blast

definition all_handles :: "('p, 'c) decoder \<Rightarrow> nat multiset" where
  "all_handles d = mset (video_handles d @ audio_handles d)"

lemma owns_alloc:
  assumes "owns d" "av_alloc lib d = (p, d1)"
    and "all_handles d2 = mset (handle_list p) + all_handles d" "live d2 = live d1" "allocated d2 = allocated d1"
  shows "owns d2"
proof -
  have m: "mset (video_handles d2 @ audio_handles d2) = mset (handle_list p @ video_handles d @ audio_handles d)"
    using assms(3) by (simp add: all_handles_def)
  note eq = mset_eq_imp_distinct_iff [OF m] mset_eq_setD [OF m]
  have fresh: "h < allocated d" if "h \<in> set (video_handles d) \<union> set (audio_handles d)" for h
    using assms(1) that by (auto simp: owns_def)
  from assms(2) show ?thesis
    by (cases rule: av_alloc_cases) (use assms(1,4,5) eq fresh in \<open>auto simp: owns_def dest: fresh less_SucI\<close>)
qed

lemma owns_release:
  assumes "owns d" "av_release h d = Some d1"
    and "all_handles d = add_mset h (all_handles d2)" "live d2 = live d1" "allocated d2 = allocated d1"
  shows "owns d2"
proof -
  have m: "mset (video_handles d @ audio_handles d) = mset (h # video_handles d2 @ audio_handles d2)"
    using assms(3) by (simp add: all_handles_def)
  note eq = mset_eq_imp_distinct_iff [OF m] mset_eq_setD [OF m]
  from assms show ?thesis using eq by (auto simp: owns_def av_release_def split: if_splits)
qed

lemma owns_cong:
  "owns d \<Longrightarrow> video_handles d' = video_handles d \<Longrightarrow> audio_handles d' = audio_handles d
    \<Longrightarrow> live d' = live d \<Longrightarrow> allocated d' = allocated d \<Longrightarrow> owns d'"
  by (simp add: owns_def)

lemma av_alloc_keeps:
  assumes "av_alloc lib d = (p, d')"
  shows "g_video_ctx d' = g_video_ctx d
    \<and> g_video_frame d' = g_video_frame d
    \<and> g_video_packet d' = g_video_packet d
    \<and> g_video_codec d' = g_video_codec d
    \<and> g_video_parser d' = g_video_parser d
    \<and> g_video_initialized d' = g_video_initialized d
    \<and> g_audio_ctx d' = g_audio_ctx d
    \<and> g_audio_frame d' = g_audio_frame d
    \<and> g_audio_packet d' = g_audio_packet d
    \<and> g_audio_codec d' = g_audio_codec d
    \<and> g_swr_ctx d' = g_swr_ctx d
    \<and> g_audio_output_buf d' = g_audio_output_buf d
    \<and> g_audio_output_buf_size d' = g_audio_output_buf_size d
    \<and> g_audio_initialized d' = g_audio_initialized d
    \<and> video_taken d' = video_taken d
    \<and> audio_taken d' = audio_taken d"
  using assms by (auto simp: av_alloc_def Let_def split: if_splits)

lemma av_release_keeps:
  assumes "av_release h d = Some d'"
  shows "g_video_ctx d' = g_video_ctx d
    \<and> g_video_frame d' = g_video_frame d
    \<and> g_video_packet d' = g_video_packet d
    \<and> g_video_codec d' = g_video_codec d
    \<and> g_video_parser d' = g_video_parser d
    \<and> g_video_initialized d' = g_video_initialized d
    \<and> g_audio_ctx d' = g_audio_ctx d
    \<and> g_audio_frame d' = g_audio_frame d
    \<and> g_audio_packet d' = g_audio_packet d
    \<and> g_audio_codec d' = g_audio_codec d
    \<and> g_swr_ctx d' = g_swr_ctx d
    \<and> g_audio_output_buf d' = g_audio_output_buf d
    \<and> g_audio_output_buf_size d' = g_audio_output_buf_size d
    \<and> g_audio_initialized d' = g_audio_initialized d
    \<and> video_taken d' = video_taken d
    \<and> audio_taken d' = audio_taken d"
  using assms by (auto simp: av_release_def split: if_splits)

lemmas handles_eval = all_handles_def video_handles_def audio_handles_def

lemma finish_init_video:
  assumes "owns d" "g_video_ctx d = Some hc" "g_video_frame d = None" "g_video_packet d = None"
    "g_video_parser d = None" "\<not> g_video_initialized d"
  shows "\<exists>r d'. finish_init_video lib codec d = Some (r, d') \<and> owns d' \<and> same_audio d d'
    \<and> (if r = 0 then g_video_initialized d' \<and> full_video d' else \<not> g_video_initialized d' \<and> no_video d')"
proof -
  let ?n = "allocated d"
  obtain f d1 where f: "av_alloc lib d = (f, d1)" by fastforce
  obtain p d2 where p: "av_alloc lib (d1\<lparr>g_video_frame := f\<rparr>) = (p, d2)" by fastforce
  let ?d3 = "d2\<lparr>g_video_packet := p\<rparr>"
  note fs = av_alloc_keeps [OF f] av_alloc_keeps [OF p]
  have o1: "owns (d1\<lparr>g_video_frame := f\<rparr>)"
    by (rule owns_alloc [OF assms(1) f]) (simp_all add: handles_eval assms fs)
  have o3: "owns ?d3"
    by (rule owns_alloc [OF o1 p]) (simp_all add: handles_eval assms fs)
  have d3: "same_audio d ?d3" "\<not> g_video_initialized ?d3" "g_video_ctx ?d3 = Some hc"
      "g_video_frame ?d3 = f" "g_video_parser ?d3 = None"
    by (simp_all add: same_audio_def fs assms audio_handles_def)
  show ?thesis
  proof (cases "f = None \<or> p = None")
    case True
    then have "finish_init_video lib codec d = Some (- 4, without_video ?d3)"
      using owns_without_video [OF o3] f p by (simp add: finish_init_video_def)
    then show ?thesis using owns_without_video(2) [OF o3] d3
      by (simp add: same_audio_def without_video_def no_video_def audio_handles_def)
  next
    case False
    then obtain nf np where fp: "f = Some nf" "p = Some np" by auto
    obtain h d4 where h: "av_alloc lib ?d3 = (h, d4)" by fastforce
    note fs4 = av_alloc_keeps [OF h]
    show ?thesis
    proof (cases h)
      case None
      have o5: "owns (d4\<lparr>g_video_parser := None\<rparr>)"
        by (rule owns_alloc [OF o3 h]) (simp_all add: handles_eval fs4 None fs d3 assms)
      with None have "finish_init_video lib codec d = Some (- 5, without_video (d4\<lparr>g_video_parser := None\<rparr>))"
        using owns_without_video [OF o5] f p h fp by (simp add: finish_init_video_def Let_def)
      then show ?thesis using owns_without_video(2) [OF o5] d3 fs4 fs
        by (simp add: same_audio_def without_video_def no_video_def audio_handles_def)
    next
      case (Some n)
      let ?d5 = "d4\<lparr>g_video_parser := Some (n, av_new_parser lib codec), g_video_initialized := True\<rparr>"
      have "owns ?d5"
        by (rule owns_alloc [OF o3 h]) (simp_all add: handles_eval fs4 Some fs d3 assms)
      moreover from Some have "finish_init_video lib codec d = Some (0, ?d5)"
        using f p h fp by (simp add: finish_init_video_def Let_def)
      moreover have "same_audio d ?d5" "full_video ?d5"
        using d3 fs4 fs fp by (auto simp: same_audio_def full_video_def audio_handles_def)
      ultimately show ?thesis by auto
    qed
  qed
qed

lemma init_video_owns:
  assumes "owns d" "if g_video_initialized d then full_video d else no_video d"
  shows "\<exists>r d'. decoder_init_video lib codec_type d = Some (r, d') \<and> owns d' \<and> same_audio d d'
    \<and> (if r = 0 then g_video_initialized d' \<and> full_video d' else \<not> g_video_initialized d' \<and> no_video d')"
proof -
  define d1 where "d1 = (if g_video_initialized d then (without_video d)\<lparr>g_video_initialized := False\<rparr> else d)"
  let ?codec = "find_video_decoder lib codec_type"
  let ?d2 = "d1\<lparr>g_video_codec := ?codec\<rparr>"
  have d1: "(if g_video_initialized d
           then do { d \<leftarrow> cleanup_video_decoder d; Some (d\<lparr>g_video_initialized := False\<rparr>) }
           else Some d) = Some d1"
    using owns_without_video [OF assms(1)] by (simp add: d1_def)
  have o2: "owns ?d2"
    using owns_without_video(2) [OF assms(1)] assms(1) owns_cong
    by (auto simp: d1_def video_handles_def audio_handles_def intro: owns_cong)
  have no: "no_video ?d2" "same_audio d ?d2" "\<not> g_video_initialized ?d2"
    using assms(2) by (auto simp: d1_def no_video_def without_video_def same_audio_def audio_handles_def)
  show ?thesis
  proof (cases ?codec)
    case None
    with d1 o2 no show ?thesis by (simp add: decoder_init_video_def)
  next
    case (Some codec)
    obtain p d3 where p: "av_alloc lib ?d2 = (p, d3)" by fastforce
    note fs = av_alloc_keeps [OF p]
    obtain ok c where oc: "av_open2 lib codec (av_new_context lib codec) = (ok, c)" by fastforce
    show ?thesis
    proof (cases p)
      case None
      have "owns (d3\<lparr>g_video_ctx := None\<rparr>)"
        by (rule owns_alloc [OF o2 p]) (use no in \<open>simp_all add: handles_eval fs None no_video_def\<close>)
      with None Some d1 p no fs show ?thesis
        by (simp add: decoder_init_video_def no_video_def same_audio_def audio_handles_def)
    next
      case (Some h)
      let ?d4 = "d3\<lparr>g_video_ctx := Some (h, c)\<rparr>"
      have o4: "owns ?d4"
        by (rule owns_alloc [OF o2 p]) (use no in \<open>simp_all add: handles_eval fs Some no_video_def\<close>)
      have d4: "g_video_frame ?d4 = None" "g_video_packet ?d4 = None" "g_video_parser ?d4 = None"
        "\<not> g_video_initialized ?d4" "same_audio d ?d4"
        using no fs by (simp_all add: no_video_def same_audio_def audio_handles_def)
      show ?thesis
      proof (cases ok)
        case True
        have "decoder_init_video lib codec_type d = finish_init_video lib codec ?d4"
          using d1 Some \<open>?codec = Some codec\<close> p oc True by (simp add: decoder_init_video_def)
        with finish_init_video [OF o4 _ d4(1-4), of "(h, c)" lib codec] d4(5) show ?thesis
          unfolding same_audio_def by fastforce
      next
        case False
        have "h \<in> live ?d4" using o4 by (auto simp: owns_def video_handles_def)
        then obtain d5 where r: "av_release h d3 = Some d5" by (simp add: av_release_def)
        then have "av_release h ?d4 = Some (d5\<lparr>g_video_ctx := Some (h, c)\<rparr>)"
          by (auto simp: av_release_def split: if_splits)
        then have "owns (d5\<lparr>g_video_ctx := None\<rparr>)"
          by (rule owns_release [OF o4]) (simp_all add: handles_eval av_release_keeps [OF r])
        with r False Some d1 p oc no fs \<open>?codec = Some codec\<close> av_release_keeps [OF r] show ?thesis
          by (simp add: decoder_init_video_def no_video_def same_audio_def audio_handles_def)
      qed
    qed
  qed
qed

lemma finish_init_audio:
  assumes "owns d" "buffer_ok d" "g_audio_ctx d = Some hc" "g_audio_frame d = None" "g_audio_packet d = None"
    "g_swr_ctx d = None" "g_audio_output_buf d = None" "\<not> g_audio_initialized d"
  shows "\<exists>r d'. finish_init_audio lib d = Some (r, d') \<and> owns d' \<and> buffer_ok d' \<and> same_video d d' \<and> g_swr_ctx d' = None \<and> g_audio_output_buf d' = None
    \<and> (if r = 0 then g_audio_initialized d' \<and> full_audio d' else \<not> g_audio_initialized d' \<and> no_audio d')"
proof -
  obtain f d1 where f: "av_alloc lib d = (f, d1)" by fastforce
  obtain p d2 where p: "av_alloc lib (d1\<lparr>g_audio_frame := f\<rparr>) = (p, d2)" by fastforce
  let ?d3 = "d2\<lparr>g_audio_packet := p\<rparr>"
  note fs = av_alloc_keeps [OF f] av_alloc_keeps [OF p]
  have o1: "owns (d1\<lparr>g_audio_frame := f\<rparr>)"
    by (rule owns_alloc [OF assms(1) f]) (simp_all add: handles_eval assms fs)
  have o3: "owns ?d3"
    by (rule owns_alloc [OF o1 p]) (simp_all add: handles_eval assms fs)
  have d3: "same_video d ?d3" "\<not> g_audio_initialized ?d3" "buffer_ok ?d3"
    using assms(2) by (simp_all add: same_video_def fs assms video_handles_def buffer_ok_def)
  show ?thesis
  proof (cases "f = None \<or> p = None")
    case True
    then have "finish_init_audio lib d = Some (- 4, without_audio ?d3)"
      using owns_without_audio [OF o3] f p by (simp add: finish_init_audio_def)
    moreover have "g_swr_ctx (without_audio ?d3) = None" "g_audio_output_buf (without_audio ?d3) = None" by (simp_all add: without_audio_def)
    moreover have "same_video d (without_audio ?d3)"
      using d3(1) by (simp add: same_video_def without_audio_def video_handles_def)
    ultimately show ?thesis using owns_without_audio(2) [OF o3] d3 by simp
  next
    case False
    then obtain nf np where fp: "f = Some nf" "p = Some np" by auto
    let ?d4 = "?d3\<lparr>g_audio_initialized := True\<rparr>"
    have "owns ?d4" by (rule owns_cong [OF o3]) (simp_all add: video_handles_def audio_handles_def)
    moreover have "finish_init_audio lib d = Some (0, ?d4)"
      using f p fp by (simp add: finish_init_audio_def)
    moreover have "same_video d ?d4" "full_audio ?d4" "buffer_ok ?d4" "g_swr_ctx ?d4 = None" "g_audio_output_buf ?d4 = None"
      using d3 fs fp assms by (auto simp: same_video_def full_audio_def video_handles_def buffer_ok_def)
    ultimately show ?thesis by auto
  qed
qed

lemma init_audio_owns:
  assumes "owns d" "buffer_ok d" "if g_audio_initialized d then full_audio d else no_audio d"
  shows "\<exists>r d'. decoder_init_audio lib codec_type rate channels d = Some (r, d') \<and> owns d' \<and> buffer_ok d' \<and> same_video d d'
    \<and> g_swr_ctx d' = None \<and> g_audio_output_buf d' = None
    \<and> (if r = 0 then g_audio_initialized d' \<and> full_audio d' else \<not> g_audio_initialized d' \<and> no_audio d')"
proof -
  define d1 where "d1 = (if g_audio_initialized d then (without_audio d)\<lparr>g_audio_initialized := False\<rparr> else d)"
  let ?codec = "find_audio_decoder lib codec_type"
  let ?d2 = "d1\<lparr>g_audio_codec := ?codec\<rparr>"
  have d1: "(if g_audio_initialized d
           then do { d \<leftarrow> cleanup_audio_decoder d; Some (d\<lparr>g_audio_initialized := False\<rparr>) }
           else Some d) = Some d1"
    using owns_without_audio [OF assms(1)] by (simp add: d1_def)
  have o2: "owns ?d2"
    using owns_without_audio(2) [OF assms(1)] assms(1)
    by (auto simp: d1_def video_handles_def audio_handles_def intro: owns_cong)
  have no: "no_audio ?d2" "same_video d ?d2" "\<not> g_audio_initialized ?d2" "buffer_ok ?d2"
    using assms(2,3) by (cases "g_audio_initialized d"; cases "g_audio_output_buf d";
        auto simp: d1_def no_audio_def without_audio_def same_video_def video_handles_def buffer_ok_def)+
  show ?thesis
  proof (cases ?codec)
    case None
    with d1 o2 no show ?thesis by (simp add: decoder_init_audio_def no_audio_def)
  next
    case (Some codec)
    obtain p d3 where p: "av_alloc lib ?d2 = (p, d3)" by fastforce
    note fs = av_alloc_keeps [OF p]
    obtain ok c where oc: "av_open2 lib codec (av_set_audio lib rate channels
        (if codec_type = 12 then Some 4 else None) (av_new_context lib codec)) = (ok, c)" by fastforce
    have b3: "buffer_ok d3" using no(4) fs by (auto simp: buffer_ok_def split: option.splits)
    show ?thesis
    proof (cases p)
      case None
      have "owns (d3\<lparr>g_audio_ctx := None\<rparr>)"
        by (rule owns_alloc [OF o2 p]) (use no in \<open>simp_all add: handles_eval fs None no_audio_def\<close>)
      with None Some d1 p no b3 fs show ?thesis
        by (simp add: decoder_init_audio_def no_audio_def same_video_def video_handles_def buffer_ok_def)
    next
      case (Some h)
      let ?d4 = "d3\<lparr>g_audio_ctx := Some (h, c)\<rparr>"
      have o4: "owns ?d4"
        by (rule owns_alloc [OF o2 p]) (use no in \<open>simp_all add: handles_eval fs Some no_audio_def\<close>)
      have d4: "buffer_ok ?d4" "g_audio_ctx ?d4 = Some (h, c)" "g_audio_frame ?d4 = None" "g_audio_packet ?d4 = None"
        "g_swr_ctx ?d4 = None" "g_audio_output_buf ?d4 = None"
        "\<not> g_audio_initialized ?d4" "same_video d ?d4"
        using no b3 fs by (simp_all add: no_audio_def same_video_def video_handles_def buffer_ok_def)
      show ?thesis
      proof (cases ok)
        case True
        have "decoder_init_audio lib codec_type rate channels d = finish_init_audio lib ?d4"
          using d1 Some \<open>?codec = Some codec\<close> p oc True by (simp add: decoder_init_audio_def)
        with finish_init_audio [OF o4 d4(1-7), of lib] d4(8) show ?thesis
          unfolding same_video_def by fastforce
      next
        case False
        have "h \<in> live ?d4" using o4 by (auto simp: owns_def audio_handles_def)
        then obtain d5 where r: "av_release h d3 = Some d5" by (simp add: av_release_def)
        note fs5 = av_release_keeps [OF r]
        from r have "av_release h ?d4 = Some (d5\<lparr>g_audio_ctx := Some (h, c)\<rparr>)"
          by (auto simp: av_release_def split: if_splits)
        then have "owns (d5\<lparr>g_audio_ctx := None\<rparr>)"
          by (rule owns_release [OF o4]) (simp_all add: handles_eval fs5)
        with r False Some d1 p oc no b3 fs \<open>?codec = Some codec\<close> fs5 show ?thesis
          by (simp add: decoder_init_audio_def no_audio_def same_video_def video_handles_def buffer_ok_def)
      qed
    qed
  qed
qed

section \<open>Sending and receiving video\<close>

text \<open>Changing what an object holds changes no ownership.\<close>

lemma inv_contents:
  assumes "decoder_inv d" "video_handles d' = video_handles d" "audio_handles d' = audio_handles d"
    "live d' = live d" "allocated d' = allocated d" "g_video_initialized d' = g_video_initialized d"
    "g_audio_initialized d' = g_audio_initialized d" "g_audio_output_buf_size d' = g_audio_output_buf_size d"
    "g_audio_output_buf d' = g_audio_output_buf d"
    "(g_video_ctx d' = None) = (g_video_ctx d = None)" "(g_video_frame d' = None) = (g_video_frame d = None)"
    "(g_video_packet d' = None) = (g_video_packet d = None)" "(g_video_parser d' = None) = (g_video_parser d = None)"
    "(g_audio_ctx d' = None) = (g_audio_ctx d = None)" "(g_audio_frame d' = None) = (g_audio_frame d = None)"
    "(g_audio_packet d' = None) = (g_audio_packet d = None)" "(g_swr_ctx d' = None) = (g_swr_ctx d = None)"
  shows "decoder_inv d'"
  using assms(1) unfolding decoder_inv_def owns_def buffer_ok_def full_video_def no_video_def
    full_audio_def no_audio_def assms(2-) .

lemma inv_video_contents:
  assumes "decoder_inv d" "g_video_ctx d = Some (h, c)"
  shows "decoder_inv (d\<lparr>g_video_ctx := Some (h, c1)\<rparr>)"
    "decoder_inv (d\<lparr>g_video_ctx := Some (h, c1), video_taken := l, video_refused := r\<rparr>)"
  by (rule inv_contents [OF assms(1)]; simp add: video_handles_def audio_handles_def assms(2))+

lemma inv_audio_contents:
  assumes "decoder_inv d" "g_audio_ctx d = Some (h, c)"
  shows "decoder_inv (d\<lparr>g_audio_ctx := Some (h, c1)\<rparr>)"
    "decoder_inv (d\<lparr>g_audio_ctx := Some (h, c1), audio_taken := l\<rparr>)"
  by (rule inv_contents [OF assms(1)]; simp add: video_handles_def audio_handles_def assms(2))+

lemma inv_parser_contents:
  assumes "decoder_inv d" "g_video_parser d = Some (h, p)"
  shows "decoder_inv (d\<lparr>g_video_parser := Some (h, p1)\<rparr>)"
  by (rule inv_contents [OF assms(1)]; simp add: video_handles_def audio_handles_def assms(2))

text \<open>
  What a caller may rely on: each call takes a part of the input, and what the parser holds back
  and what it gives out are the bytes it was given; it takes something or gives something out.
\<close>

definition splits_stream :: "('p, 'c) av_lib \<Rightarrow> ('p \<Rightarrow> byte list) \<Rightarrow> bool" where
  "splits_stream lib pending \<longleftrightarrow> (\<forall>p input pts n out p'. av_parse lib p input pts = (n, out, p') \<longrightarrow>
     0 \<le> n \<and> nat n \<le> length input \<and> pending p @ take (nat n) input = out @ pending p'
     \<and> (input \<noteq> [] \<longrightarrow> n \<noteq> 0 \<or> out \<noteq> []))"

text \<open>Less is needed for the loop to end.\<close>

definition parser_advances :: "('p, 'c) av_lib \<Rightarrow> ('p \<Rightarrow> nat) \<Rightarrow> bool" where
  "parser_advances lib m \<longleftrightarrow> (\<forall>p input pts n out p'. input \<noteq> [] \<longrightarrow> av_parse lib p input pts = (n, out, p')
     \<longrightarrow> n = 0 \<longrightarrow> m p' < m p)"

lemma splits_advances:
  assumes "splits_stream lib pending"
  shows "parser_advances lib (length \<circ> pending)"
proof -
  have "length (pending p') < length (pending p)"
    if "input \<noteq> []" "av_parse lib p input pts = (0, out, p')" for p input pts out p'
  proof -
    have "pending p = out @ pending p'" "out \<noteq> []"
      using assms that unfolding splits_stream_def by force+
    then show ?thesis by simp
  qed
  then show ?thesis by (auto simp: parser_advances_def)
qed

text \<open>One round of the loop.\<close>

lemma video_round:
  assumes "decoder_inv d" "g_video_initialized d" "g_video_parser d = Some (h, p)"
    and "av_parse lib p input pts = (n, out, p')"
  obtains d1 where "parse_video lib pts input d = Some (n, out, d1)" "decoder_inv d1" "g_video_initialized d1"
    "g_video_parser d1 = Some (h, p')" "video_taken d1 = video_taken d" "same_audio d d1"
    "video_refused d1 = video_refused d"
    "g_video_ctx d1 = g_video_ctx d"
  using that inv_parser_contents [OF assms(1,3)] assms
  by (auto simp: parse_video_def same_audio_def audio_handles_def)

lemma video_sent:
  assumes "decoder_inv d" "g_video_initialized d"
  obtains c d1 where "send_video lib packet d = Some (fst (av_send lib c packet), d1)" "decoder_inv d1"
    "g_video_initialized d1" "g_video_parser d1 = g_video_parser d" "same_audio d d1"
    "video_taken d1 = (if fst (av_send lib c packet) = AvDone then video_taken d @ [packet] else video_taken d)"
    "video_refused d1 = (if fst (av_send lib c packet) = AvDone then video_refused d else video_refused d @ [packet])"
proof -
  from assms obtain h c where c: "g_video_ctx d = Some (h, c)"
    by (auto simp: decoder_inv_def full_video_def)
  obtain ret c1 where s: "av_send lib c packet = (ret, c1)" by fastforce
  show ?thesis
    using that [of c] inv_video_contents(2) [OF assms(1) c] c s assms(2)
    by (auto simp: send_video_def same_audio_def audio_handles_def)
qed

lemma send_loop_stop: "send_video_loop lib pts [] b d = Some (if b then DECODE_OK else DECODE_NEED_MORE_DATA, d)"
  by (simp add: send_video_loop.simps)

lemma send_loop_go:
  assumes "input \<noteq> []" "parse_video lib pts input d = Some (n, out, d1)" "0 \<le> n"
  shows "out = [] \<Longrightarrow> send_video_loop lib pts input b d = send_video_loop lib pts (drop (nat n) input) b d1"
    "out \<noteq> [] \<Longrightarrow> send_video lib (out, pts) d1 = Some (ret, d2) \<Longrightarrow> send_video_loop lib pts input b d
       = (if ret = AvDone then send_video_loop lib pts (drop (nat n) input) True d2 else Some (send_status ret, d2))"
  using assms by (subst send_video_loop.simps, simp)+

lemma same_audio_trans: "same_audio a b \<Longrightarrow> same_audio b c \<Longrightarrow> same_audio a c"
  by (simp add: same_audio_def)

lemma send_loop_returns:
  assumes "parser_advances lib m"
  shows "decoder_inv d \<Longrightarrow> g_video_initialized d \<Longrightarrow> \<exists>r d'. send_video_loop lib pts input b d = Some (r, d')
    \<and> decoder_inv d' \<and> same_audio d d'"
proof (induction "length input" arbitrary: input b d rule: less_induct)
  case outer: less
  from outer.prems obtain h p where p: "g_video_parser d = Some (h, p)"
    by (auto simp: decoder_inv_def full_video_def)
  from outer.prems p show ?case
  proof (induction "m p" arbitrary: p b d rule: less_induct)
    case inner: less
    show ?case
    proof (cases "input = []")
      case True
      with inner.prems show ?thesis by (simp add: send_loop_stop same_audio_def)
    next
      case False
      obtain n out p' where parse: "av_parse lib p input pts = (n, out, p')" by (metis prod_cases3)
      obtain d1 where d1: "parse_video lib pts input d = Some (n, out, d1)" "decoder_inv d1" "g_video_initialized d1"
        "g_video_parser d1 = Some (h, p')" "same_audio d d1"
        using video_round [OF inner.prems parse] by blast
      have next_round: "\<exists>r d'. send_video_loop lib pts (drop (nat n) input) b' d2 = Some (r, d') \<and> decoder_inv d' \<and> same_audio d2 d'"
        if "decoder_inv d2" "g_video_initialized d2" "g_video_parser d2 = Some (h, p')" "0 \<le> n" for b' d2
      proof (cases "n = 0")
        case True
        then have "m p' < m p" using assms False parse by (auto simp: parser_advances_def)
        with inner.hyps that True show ?thesis by simp
      next
        case False
        with that \<open>input \<noteq> []\<close> have "length (drop (nat n) input) < length input" by simp
        with outer.hyps that show ?thesis by blast
      qed
      show ?thesis
      proof (cases "n < 0")
        case True
        with d1 False show ?thesis by (subst send_video_loop.simps, simp)
      next
        case n: False
        show ?thesis
        proof (cases "out = []")
          case True
          with next_round [of d1] d1 n False send_loop_go(1) [OF False d1(1)] same_audio_trans show ?thesis by fastforce
        next
          case out: False
          obtain c d2 where d2: "send_video lib (out, pts) d1 = Some (fst (av_send lib c (out, pts)), d2)" "decoder_inv d2"
            "g_video_initialized d2" "g_video_parser d2 = g_video_parser d1" "same_audio d1 d2"
            using video_sent [OF d1(2,3)] by blast
          have go: "send_video_loop lib pts input b d = (if fst (av_send lib c (out, pts)) = AvDone
              then send_video_loop lib pts (drop (nat n) input) True d2
              else Some (send_status (fst (av_send lib c (out, pts))), d2))"
            using send_loop_go(2) [OF False d1(1) _ out d2(1)] n by simp
          show ?thesis
          proof (cases "fst (av_send lib c (out, pts)) = AvDone")
            case True
            obtain r d' where "send_video_loop lib pts (drop (nat n) input) True d2 = Some (r, d')"
              "decoder_inv d'" "same_audio d2 d'"
              using next_round [of d2 True] d1 d2 n by auto
            with True go d1 d2 same_audio_trans show ?thesis by (metis (full_types))
          next
            case False
            with go d1 d2 same_audio_trans show ?thesis by (metis (full_types))
          qed
        qed
      qed
    qed
  qed
qed

end
