(* ===== verification/DecoderMedia.thy ===== *)
theory DecoderMedia
  imports DecoderProofs
begin

text \<open>
  What the decoder glue does with the media: the bytes of a video stream on their way to the decoder,
  the samples of audio frames on their way to the page, and any sequence of calls.
\<close>

section \<open>Loops over samples\<close>

lemma float_room [simp]:
  assumes "0 \<le> n" "n < 2 ^ 30"
  shows "float_room n = nat n"
proof -
  have "(of_int n * 4 :: u32) = of_nat (4 * nat n)" using assms(1) by simp
  moreover have "unat (of_nat (4 * nat n) :: u32) = 4 * nat n" using assms by (intro unat_of_nat_word) simp
  ultimately show ?thesis by (simp add: float_room_def)
qed

text \<open>A loop that stores \<open>g 0\<close>, \<open>g 1\<close>, ... from position \<open>s\<close> on.\<close>

lemma for_upto_fill:
  assumes "\<And>i b. i < k \<Longrightarrow> length b = length buf \<Longrightarrow> body i b = Some (take (s + i * w) b @ g i @ drop (s + Suc i * w) b)"
    and "\<And>i. i < k \<Longrightarrow> length (g i) = w" and "s + k * w \<le> length buf"
  shows "for_upto k body buf = Some (take s buf @ concat (map g [0..<k]) @ drop (s + k * w) buf)"
  using assms
proof (induction k)
  case (Suc k)
  let ?b = "take s buf @ concat (map g [0..<k]) @ drop (s + k * w) buf"
  have len: "length (concat (map g [0..<k])) = k * w"
  proof -
    have "map (length \<circ> g) [0..<k] = replicate k w" using Suc.prems(2) by (auto intro: nth_equalityI)
    then show ?thesis by (simp add: length_concat sum_list_replicate comp_def)
  qed
  have le: "s + k * w \<le> length buf" using Suc.prems(3) by simp
  then have "for_upto k body buf = Some ?b" using Suc by simp
  moreover have "length ?b = length buf" using len le by simp
  moreover have "take (s + k * w) ?b = take s buf @ concat (map g [0..<k])" using len le by simp
  moreover have "drop (s + Suc k * w) ?b = drop (s + Suc k * w) buf" using len le by (simp add: ac_simps)
  ultimately show ?case using Suc.prems(1) [of k ?b] by simp
qed simp

lemma store_sample_at:
  "k < length buf \<Longrightarrow> store_sample k x buf = Some (take k buf @ [x] @ drop (Suc k) buf)"
  by (simp add: store_sample_def upd_conv_take_nth_drop)

section \<open>Audio frames\<close>

text \<open>The samples of a planar frame, one of each channel in turn.\<close>

definition interleaved :: "AVFrame \<Rightarrow> u32 list" where
  "interleaved f = concat (map (\<lambda>i. map (\<lambda>ch. av_samples f ! ch ! i) [0..<nat (av_nb_channels f)]) [0..<nat (av_nb_samples f)])"

definition planes_ok :: "AVFrame \<Rightarrow> bool" where
  "planes_ok f \<longleftrightarrow> nat (av_nb_channels f) \<le> AV_NUM_DATA_POINTERS \<and> nat (av_nb_channels f) \<le> length (av_samples f)
     \<and> list_all (\<lambda>p. nat (av_nb_samples f) \<le> length p) (take (nat (av_nb_channels f)) (av_samples f))"

lemma planes_ok_sample:
  assumes "planes_ok f" "ch < nat (av_nb_channels f)" "i < nat (av_nb_samples f)"
  shows "plane_sample f ch i = Some (av_samples f ! ch ! i)"
proof -
  have "nat (av_nb_samples f) \<le> length (take (nat (av_nb_channels f)) (av_samples f) ! ch)"
    using assms(1,2) by (simp add: planes_ok_def list_all_length)
  then show ?thesis using assms by (simp add: planes_ok_def plane_sample_def at_index_def)
qed

lemma interleave_spec:
  assumes "planes_ok f" "nat (av_nb_samples f) * nat (av_nb_channels f) \<le> length buf"
  shows "interleave f buf = Some (interleaved f @ drop (nat (av_nb_samples f) * nat (av_nb_channels f)) buf)"
proof -
  let ?ns = "nat (av_nb_samples f)" and ?nc = "nat (av_nb_channels f)"
  let ?row = "\<lambda>i. map (\<lambda>ch. av_samples f ! ch ! i) [0..<?nc]"
  have inner: "for_upto ?nc (\<lambda>ch buf. do { s \<leftarrow> plane_sample f ch i; store_sample (i * ?nc + ch) s buf }) b
      = Some (take (0 + i * ?nc) b @ ?row i @ drop (0 + Suc i * ?nc) b)"
    if "i < ?ns" "length b = length buf" for i b
  proof -
    have le: "Suc i * ?nc \<le> length b" using that assms(2) by (metis Suc_leI mult_le_mono1 order_trans)
    have "for_upto ?nc (\<lambda>ch buf. do { s \<leftarrow> plane_sample f ch i; store_sample (i * ?nc + ch) s buf }) b
      = Some (take (i * ?nc) b @ concat (map (\<lambda>ch. [av_samples f ! ch ! i]) [0..<?nc]) @ drop (i * ?nc + ?nc * 1) b)"
      by (rule for_upto_fill) (use le that in \<open>simp_all add: planes_ok_sample [OF assms(1)] store_sample_at\<close>)
    then show ?thesis by (simp add: add.commute)
  qed
  have "interleave f buf = Some (take 0 buf @ concat (map ?row [0..<?ns]) @ drop (0 + ?ns * ?nc) buf)"
    unfolding interleave_def by (rule for_upto_fill) (use inner assms(2) in simp_all)
  then show ?thesis by (simp add: interleaved_def)
qed

text \<open>
  Frames as FFmpeg documents them: as many samples as their size says, in \<open>data\<close> for up to eight channels, and
  a converter writes no more samples than it is given, for each channel of its configuration. A
  frame is smaller than the address space of WebAssembly, 2 to the 30 samples of four bytes.
\<close>

definition audio_frame_ok :: "('p, 'c) av_lib \<Rightarrow> AVFrame \<Rightarrow> bool" where
  "audio_frame_ok lib f \<longleftrightarrow> 0 \<le> av_nb_samples f \<and> 0 \<le> av_nb_channels f \<and> av_nb_samples f * av_nb_channels f < 2 ^ 30
     \<and> (case av_format f of
          AV_SAMPLE_FMT_FLT \<Rightarrow> av_samples f \<noteq> [] \<and> nat (av_nb_samples f * av_nb_channels f) \<le> length (av_samples f ! 0)
        | AV_SAMPLE_FMT_FLTP \<Rightarrow> av_nb_channels f \<le> int AV_NUM_DATA_POINTERS \<longrightarrow> planes_ok f
        | AV_SAMPLE_FMT_OTHER _ \<Rightarrow> (\<forall>cfg xs. swr_converted lib cfg f = Some xs
            \<longrightarrow> length xs \<le> nat (av_nb_samples f * swr_channels cfg)))"

text \<open>The two frames that the code cannot take: a planar one with more channels than \<open>data\<close> has pointers,
  and one with fewer channels than the converter was made for.\<close>

definition audio_overflow :: "('p, 'c) decoder \<Rightarrow> AVFrame \<Rightarrow> bool" where
  "audio_overflow d f \<longleftrightarrow> (case av_format f of
     AV_SAMPLE_FMT_FLT \<Rightarrow> False
   | AV_SAMPLE_FMT_FLTP \<Rightarrow> int AV_NUM_DATA_POINTERS < av_nb_channels f
   | AV_SAMPLE_FMT_OTHER _ \<Rightarrow> (case g_swr_ctx d of None \<Rightarrow> False | Some (h, cfg) \<Rightarrow> av_nb_channels f < swr_channels cfg))"

text \<open>The size of the buffer in bytes has not wrapped.\<close>

definition audio_ok :: "('p, 'c) decoder \<Rightarrow> bool" where
  "audio_ok d \<longleftrightarrow> g_audio_output_buf_size d < 2 ^ 30"

lemma same_video_inv:
  assumes "decoder_inv d" "same_video d d'" "owns d'" "buffer_ok d'"
    and "if g_audio_initialized d' then full_audio d' else no_audio d'"
  shows "decoder_inv d'"
  using assms unfolding decoder_inv_def same_video_def full_video_def no_video_def by simp

lemma same_audio_inv:
  assumes "decoder_inv d" "same_audio d d'" "owns d'"
    and "if g_video_initialized d' then full_video d' else no_video d'"
  shows "decoder_inv d'"
proof -
  have "buffer_ok d'" using assms(1,2) by (simp add: decoder_inv_def same_audio_def buffer_ok_def cong: option.case_cong)
  with assms show ?thesis unfolding decoder_inv_def same_audio_def full_audio_def no_audio_def by simp
qed

lemma inv_parts:
  assumes "decoder_inv d"
  shows "owns d" "buffer_ok d" "if g_video_initialized d then full_video d else no_video d"
    "if g_audio_initialized d then full_audio d else no_audio d"
  using assms by (simp_all add: decoder_inv_def)

section \<open>The output buffer\<close>

lemma grow_audio_buffer:
  assumes "decoder_inv d" "g_audio_initialized d" "audio_ok d" "n < 2 ^ 30"
  shows "\<exists>ok d'. grow_audio_buffer lib n d = Some (ok, d') \<and> decoder_inv d' \<and> g_audio_initialized d'
    \<and> audio_ok d' \<and> (ok \<longrightarrow> n \<le> g_audio_output_buf_size d') \<and> ((\<forall>k. av_mem lib k) \<longrightarrow> ok)
    \<and> g_swr_ctx d' = g_swr_ctx d"
proof (cases "n > g_audio_output_buf_size d")
  case False
  with assms show ?thesis by (auto simp: grow_audio_buffer_def)
next
  case True
  note inv = inv_parts [OF assms(1)]
  let ?p = "map_option fst (g_audio_output_buf d)"
  have "set (handle_list ?p) \<subseteq> live d" using inv(1) by (auto simp: owns_def audio_handles_def)
  then obtain d1 where d1: "release_if ?p d = Some d1" "d1 = d\<lparr>live := live d - set (handle_list ?p)\<rparr>"
    by (simp add: release_if_live)
  let ?e = "d1\<lparr>g_audio_output_buf := None, g_audio_output_buf_size := 0\<rparr>"
  have oe: "owns ?e" using inv(1) d1(2) by (auto simp: owns_def video_handles_def audio_handles_def)
  obtain q d2 where a: "av_alloc lib d1 = (q, d2)" by fastforce
  then have ae: "av_alloc lib ?e = (q, d2\<lparr>g_audio_output_buf := None, g_audio_output_buf_size := 0\<rparr>)"
    by (auto simp: av_alloc_def Let_def split: if_splits)
  note fs = av_alloc_keeps [OF a] d1(2)
  have pos: "0 \<le> n" using True inv(2) by (simp add: buffer_ok_def)
  show ?thesis
  proof (cases q)
    case None
    let ?d3 = "d2\<lparr>g_audio_output_buf := None, g_audio_output_buf_size := 0\<rparr>"
    have "owns ?d3" by (rule owns_alloc [OF oe ae]) (simp_all add: handles_eval None fs)
    then have "decoder_inv ?d3"
      by (rule same_video_inv [OF assms(1), rotated])
        (use inv(4) assms(2) in \<open>simp_all add: same_video_def fs video_handles_def buffer_ok_def full_audio_def\<close>)
    moreover have "\<not> (\<forall>k. av_mem lib k)" using a None by (auto simp: av_alloc_def Let_def split: if_splits)
    moreover have "grow_audio_buffer lib n d = Some (False, ?d3)"
      using True None a d1(1) by (simp add: grow_audio_buffer_def)
    moreover have "audio_ok ?d3" using assms(3) fs by (simp add: audio_ok_def)
    ultimately show ?thesis using fs assms(2) by auto
  next
    case (Some h)
    let ?d3 = "d2\<lparr>g_audio_output_buf := Some (h, map (av_junk lib) [0..<float_room n]), g_audio_output_buf_size := n\<rparr>"
    have "owns ?d3" by (rule owns_alloc [OF oe ae]) (simp_all add: handles_eval Some fs)
    then have "decoder_inv ?d3"
      by (rule same_video_inv [OF assms(1), rotated])
        (use inv(4) assms(2) pos in \<open>simp_all add: same_video_def fs video_handles_def buffer_ok_def full_audio_def\<close>)
    moreover have "grow_audio_buffer lib n d = Some (True, ?d3)"
      using True Some a d1(1) by (simp add: grow_audio_buffer_def)
    moreover have "audio_ok ?d3" using assms(3,4) fs by (simp add: audio_ok_def)
    ultimately show ?thesis using fs assms(2) by auto
  qed
qed

lemma audio_buffer_room:
  assumes "decoder_inv d" "audio_ok d" "n \<le> g_audio_output_buf_size d"
  shows "nat n \<le> length (audio_buffer d)"
proof -
  have "0 \<le> g_audio_output_buf_size d" "g_audio_output_buf_size d < 2 ^ 30"
    using assms(1,2) by (simp_all add: decoder_inv_def buffer_ok_def audio_ok_def)
  note room = float_room [OF this]
  then show ?thesis using assms inv_parts(2) [OF assms(1)] 
    by (auto simp: audio_buffer_def buffer_ok_def split: option.splits)
qed

section \<open>Conversion\<close>

lemma make_swr:
  assumes "decoder_inv d" "g_audio_initialized d" "audio_ok d" "av_format f = AV_SAMPLE_FMT_OTHER k" "\<not> audio_overflow d f"
  shows "\<exists>ok d'. make_swr lib f d = Some (ok, d') \<and> decoder_inv d' \<and> g_audio_initialized d' \<and> audio_ok d'
    \<and> g_audio_output_buf d' = g_audio_output_buf d
    \<and> (ok \<longrightarrow> (\<exists>h cfg. g_swr_ctx d' = Some (h, cfg) \<and> swr_channels cfg \<le> av_nb_channels f))"
proof (cases "g_swr_ctx d")
  case (Some hc)
  obtain h cfg where hc: "hc = (h, cfg)" by fastforce
  have "swr_channels cfg \<le> av_nb_channels f" using assms(4,5) Some hc by (simp add: audio_overflow_def)
  moreover have "make_swr lib f d = Some (True, d)" using Some by (simp add: make_swr_def)
  ultimately show ?thesis using assms(1-3) Some hc by (intro exI [of _ True] exI [of _ d]) simp
next
  case None
  note inv = inv_parts [OF assms(1)]
  obtain q d1 where a: "av_alloc lib d = (q, d1)" by fastforce
  note fs = av_alloc_keeps [OF a]
  let ?cfg = "\<lparr>swr_format = av_format f, swr_rate = av_sample_rate f, swr_channels = av_nb_channels f\<rparr>"
  have keeps: "decoder_inv d'" if "owns d'" "same_video d d'" "g_audio_initialized d'"
    "g_audio_ctx d' = g_audio_ctx d" "g_audio_frame d' = g_audio_frame d" "g_audio_packet d' = g_audio_packet d"
    "g_audio_output_buf d' = g_audio_output_buf d" "g_audio_output_buf_size d' = g_audio_output_buf_size d" for d'
    by (rule same_video_inv [OF assms(1) that(2,1)])
      (use inv assms(2) that in \<open>simp_all add: buffer_ok_def full_audio_def cong: option.case_cong\<close>)
  show ?thesis
  proof (cases q)
    case q: None
    have o1: "owns d1" by (rule owns_alloc [OF inv(1) a]) (simp_all add: handles_eval fs q)
    have "decoder_inv d1" by (rule keeps [OF o1]) (use assms(2) in \<open>simp_all add: fs same_video_def video_handles_def\<close>)
    with None q a fs assms show ?thesis by (auto simp: make_swr_def audio_ok_def)
  next
    case (Some h)
    let ?d2 = "d1\<lparr>g_swr_ctx := Some (h, ?cfg)\<rparr>"
    have o2: "owns ?d2" by (rule owns_alloc [OF inv(1) a]) (simp_all add: handles_eval fs Some None)
    show ?thesis
    proof (cases "swr_init_ok lib ?cfg")
      case True
      have "decoder_inv ?d2"
        by (rule keeps [OF o2]) (use assms(2) in \<open>simp_all add: fs same_video_def video_handles_def\<close>)
      with True None Some a fs assms show ?thesis by (auto simp: make_swr_def audio_ok_def)
    next
      case False
      have "h \<in> live ?d2" using o2 by (auto simp: owns_def audio_handles_def)
      then obtain d3 where r: "av_release h d1 = Some d3" by (simp add: av_release_def)
      note fs3 = av_release_keeps [OF r]
      from r have "av_release h ?d2 = Some (d3\<lparr>g_swr_ctx := Some (h, ?cfg)\<rparr>)"
        by (auto simp: av_release_def split: if_splits)
      then have o3: "owns d3" by (rule owns_release [OF o2]) (simp_all add: handles_eval fs fs3 None)
      have "decoder_inv d3"
        by (rule keeps [OF o3]) (use assms(2) in \<open>simp_all add: fs fs3 same_video_def video_handles_def\<close>)
      with False None Some a r fs fs3 assms show ?thesis by (auto simp: make_swr_def audio_ok_def)
    qed
  qed
qed

lemma overwrite_length: "overwrite xs buf = Some b \<Longrightarrow> length b = length buf"
  by (auto simp: overwrite_def split: if_splits)

lemma nat_frame_size: "0 \<le> a \<Longrightarrow> nat (a * b) = nat a * nat b"
  by (simp add: nat_mult_distrib)

lemma convert_audio:
  assumes "decoder_inv d" "g_audio_initialized d" "audio_ok d" "audio_frame_ok lib f"
    and "n = av_nb_samples f * av_nb_channels f" "nat n \<le> length (audio_buffer d)" and "\<not> audio_overflow d f"
  shows "\<exists>r d'. convert_audio lib f n (audio_buffer d) d = Some (r, d') \<and> decoder_inv d' \<and> g_audio_initialized d'
    \<and> audio_ok d' \<and> g_audio_output_buf d' = g_audio_output_buf d
    \<and> (\<forall>b. r = Some b \<longrightarrow> length b = length (audio_buffer d))"
proof -
  note ok = assms(4) [unfolded audio_frame_ok_def]
  have n: "0 \<le> n" "n < 2 ^ 30" using ok assms(5) by simp_all
  show ?thesis
  proof (cases "av_format f")
    case AV_SAMPLE_FMT_FLT
    with ok assms(5) have "av_samples f \<noteq> []" "nat n \<le> length (av_samples f ! 0)" by simp_all
    then have "copy_samples f n (audio_buffer d) = overwrite (take (nat n) (av_samples f ! 0)) (audio_buffer d)"
      using float_room [OF n] by (simp add: copy_samples_def at_index_def)
    moreover obtain b where "overwrite (take (nat n) (av_samples f ! 0)) (audio_buffer d) = Some b"
      using assms(6) by (cases "overwrite (take (nat n) (av_samples f ! 0)) (audio_buffer d)")
        (auto simp: overwrite_def split: if_splits)
    ultimately have "convert_audio lib f n (audio_buffer d) d = Some (Some b, d)" "length b = length (audio_buffer d)"
      using AV_SAMPLE_FMT_FLT overwrite_length by (auto simp: convert_audio_def)
    with assms(1-3) show ?thesis by blast
  next
    case AV_SAMPLE_FMT_FLTP
    with ok assms(5-7) have "planes_ok f" "nat (av_nb_samples f) * nat (av_nb_channels f) \<le> length (audio_buffer d)"
      by (simp_all add: nat_frame_size audio_overflow_def)
    note spec = interleave_spec [OF this]
    have "length (interleaved f) = nat (av_nb_samples f) * nat (av_nb_channels f)"
      by (simp add: interleaved_def length_concat comp_def sum_list_triv)
    with spec AV_SAMPLE_FMT_FLTP assms show ?thesis by (simp add: convert_audio_def nat_frame_size ok)
  next
    case (AV_SAMPLE_FMT_OTHER k)
    with ok have xs: "swr_converted lib cfg f = Some xs \<Longrightarrow> length xs \<le> nat (av_nb_samples f * swr_channels cfg)" for cfg xs
      by simp
    obtain okb d1 where s: "make_swr lib f d = Some (okb, d1)" "decoder_inv d1" "g_audio_initialized d1" "audio_ok d1"
      "g_audio_output_buf d1 = g_audio_output_buf d"
      "okb \<longrightarrow> (\<exists>h cfg. g_swr_ctx d1 = Some (h, cfg) \<and> swr_channels cfg \<le> av_nb_channels f)"
      using make_swr [OF assms(1-3) AV_SAMPLE_FMT_OTHER assms(7)] by blast
    show ?thesis
    proof (cases okb)
      case False
      with s AV_SAMPLE_FMT_OTHER show ?thesis by (auto simp: convert_audio_def)
    next
      case True
      with s obtain h cfg where cfg: "g_swr_ctx d1 = Some (h, cfg)" "swr_channels cfg \<le> av_nb_channels f" by auto
      have "av_nb_samples f * swr_channels cfg \<le> n" using cfg(2) ok assms(5) by (simp add: mult_left_mono)
      then have "length xs \<le> length (audio_buffer d)" if "swr_converted lib cfg f = Some xs" for xs
        using xs [OF that] assms(6) nat_mono by (meson order_trans)
      with s AV_SAMPLE_FMT_OTHER True cfg show ?thesis
        by (cases "swr_converted lib cfg f") (simp_all add: convert_audio_def overwrite_def)
    qed
  qed
qed

lemma inv_set_buffer:
  assumes "decoder_inv d" "length b = length (audio_buffer d)"
  shows "decoder_inv (set_audio_buffer b d)"
proof -
  let ?d = "set_audio_buffer b d"
  have same: "video_handles ?d = video_handles d" "audio_handles ?d = audio_handles d"
    by (simp_all add: set_audio_buffer_def video_handles_def audio_handles_def option.map_comp comp_def split_beta)
  have "buffer_ok ?d" using inv_parts(2) [OF assms(1)] assms(2)
    by (auto simp: buffer_ok_def set_audio_buffer_def audio_buffer_def split: option.splits)
  moreover have "full_video ?d = full_video d" "no_video ?d = no_video d" "full_audio ?d = full_audio d"
    "no_audio ?d = no_audio d" "owns ?d = owns d" "g_video_initialized ?d = g_video_initialized d"
    "g_audio_initialized ?d = g_audio_initialized d"
    using same by (simp_all add: owns_def full_video_def no_video_def full_audio_def no_audio_def set_audio_buffer_def)
  ultimately show ?thesis using assms(1) unfolding decoder_inv_def by simp
qed

lemma deliver_audio:
  assumes "decoder_inv d" "g_audio_initialized d" "audio_ok d" "audio_frame_ok lib f" "\<not> audio_overflow d f"
  shows "\<exists>r info d'. deliver_audio lib f d = Some (r, info, d') \<and> decoder_inv d' \<and> audio_ok d'"
proof -
  let ?n = "av_nb_samples f * av_nb_channels f"
  have n: "0 \<le> ?n" "?n < 2 ^ 30" using assms(4) by (auto simp: audio_frame_ok_def)
  then have mul: "i32_mul (av_nb_samples f) (av_nb_channels f) = Some ?n" by (simp add: i32_mul_def)
  obtain ok d1 where g: "grow_audio_buffer lib ?n d = Some (ok, d1)" "decoder_inv d1" "g_audio_initialized d1"
    "audio_ok d1" "ok \<longrightarrow> ?n \<le> g_audio_output_buf_size d1" "g_swr_ctx d1 = g_swr_ctx d"
    using grow_audio_buffer [OF assms(1-3) n(2)] by blast
  have fits: "\<not> audio_overflow d1 f" using assms(5) g(6) by (simp add: audio_overflow_def split: sample_format.splits)
  show ?thesis
  proof (cases ok)
    case False
    with mul g show ?thesis by (simp add: deliver_audio_def)
  next
    case True
    then have room: "nat ?n \<le> length (audio_buffer d1)" using audio_buffer_room g by blast
    obtain r d2 where c: "convert_audio lib f ?n (audio_buffer d1) d1 = Some (r, d2)" "decoder_inv d2" "audio_ok d2"
      "g_audio_output_buf d2 = g_audio_output_buf d1" "\<forall>b. r = Some b \<longrightarrow> length b = length (audio_buffer d1)"
      using convert_audio [OF g(2-4) assms(4) refl room fits] by blast
    have "decoder_inv (set_audio_buffer b d2)" "audio_ok (set_audio_buffer b d2)" if "r = Some b" for b
      using that c inv_set_buffer [of d2 b] by (simp_all add: audio_buffer_def audio_ok_def set_audio_buffer_def)
    with mul g True c show ?thesis by (cases r) (simp_all add: deliver_audio_def)
  qed
qed

section \<open>Calls\<close>

text \<open>FFmpeg as it is documented: parsers advance, and audio frames hold what they say.\<close>

definition sane_lib :: "('p, 'c) av_lib \<Rightarrow> ('p \<Rightarrow> nat) \<Rightarrow> bool" where
  "sane_lib lib m \<longleftrightarrow> parser_advances lib m
     \<and> (\<forall>c f c'. av_receive_audio lib c = (AvDone, f, c') \<longrightarrow> audio_frame_ok lib f)"

text \<open>The next frame the audio decoder gives out is one the code cannot take.\<close>

definition receives_overflow :: "('p, 'c) av_lib \<Rightarrow> ('p, 'c) decoder \<Rightarrow> bool" where
  "receives_overflow lib d \<longleftrightarrow> (case g_audio_ctx d of None \<Rightarrow> False
     | Some (h, c) \<Rightarrow> (case av_receive_audio lib c of (ret, f, c1) \<Rightarrow> ret = AvDone \<and> audio_overflow d f))"

definition running :: "('p, 'c) decoder \<Rightarrow> bool" where
  "running d \<longleftrightarrow> decoder_inv d \<and> audio_ok d"

lemma audio_ok_same: "audio_ok d \<Longrightarrow> same_audio d d' \<Longrightarrow> audio_ok d'"
  by (simp add: audio_ok_def same_audio_def)

lemma init_video_running:
  assumes "running d"
  shows "\<exists>r d'. decoder_init_video lib codec d = Some (r, d') \<and> running d'
    \<and> (g_video_initialized d' \<longleftrightarrow> r = 0)"
proof -
  have inv: "decoder_inv d" "audio_ok d" using assms by (simp_all add: running_def)
  obtain r d' where r: "decoder_init_video lib codec d = Some (r, d')" "owns d'" "same_audio d d'"
    "if r = 0 then g_video_initialized d' \<and> full_video d' else \<not> g_video_initialized d' \<and> no_video d'"
    using init_video_owns [OF inv_parts(1,3) [OF inv(1)]] by blast
  have "decoder_inv d'" by (rule same_audio_inv [OF inv(1) r(3,2)]) (use r(4) in \<open>auto split: if_splits\<close>)
  with r audio_ok_same [OF inv(2)] show ?thesis by (auto simp: running_def split: if_splits)
qed

lemma init_audio_running:
  assumes "running d"
  shows "\<exists>r d'. decoder_init_audio lib codec rate channels d = Some (r, d') \<and> running d'
    \<and> (g_audio_initialized d' \<longleftrightarrow> r = 0)"
proof -
  have inv: "decoder_inv d" "audio_ok d" using assms by (simp_all add: running_def)
  obtain r d' where r: "decoder_init_audio lib codec rate channels d = Some (r, d')" "owns d'" "buffer_ok d'" "same_video d d'"
    "g_swr_ctx d' = None" "g_audio_output_buf d' = None"
    "if r = 0 then g_audio_initialized d' \<and> full_audio d' else \<not> g_audio_initialized d' \<and> no_audio d'"
    using init_audio_owns [OF inv_parts(1,2,4) [OF inv(1)]] by blast
  have "decoder_inv d'" by (rule same_video_inv [OF inv(1) r(4,2,3)]) (use r(7) in \<open>auto split: if_splits\<close>)
  moreover have "audio_ok d'" using r(3,5,6) by (simp add: audio_ok_def buffer_ok_def)
  ultimately show ?thesis using r by (auto simp: running_def split: if_splits)
qed

lemma running_video_contents:
  assumes "running d" "g_video_ctx d = Some (h, c)"
  shows "running (d\<lparr>g_video_ctx := Some (h, c1)\<rparr>)" "running (d\<lparr>g_video_ctx := Some (h, c1), video_taken := l, video_refused := r\<rparr>)"
  using assms inv_video_contents [of d h c] by (auto simp: running_def audio_ok_def)

lemma running_audio_contents:
  assumes "running d" "g_audio_ctx d = Some (h, c)"
  shows "running (d\<lparr>g_audio_ctx := Some (h, c1)\<rparr>)" "running (d\<lparr>g_audio_ctx := Some (h, c1), audio_taken := l\<rparr>)"
  using assms inv_audio_contents [of d h c] by (auto simp: running_def audio_ok_def)

lemma send_video_running:
  assumes "running d" "parser_advances lib m"
  shows "\<exists>r d'. decoder_send_video_packet lib dat pts d = Some (r, d') \<and> running d'"
proof (cases "g_video_initialized d")
  case True
  have inv: "decoder_inv d" "audio_ok d" using assms by (simp_all add: running_def)
  have full: "full_video d" using inv_parts(3) [OF inv(1)] True by simp
  obtain r d' where "send_video_loop lib pts dat False d = Some (r, d')" "decoder_inv d'" "same_audio d d'"
    using send_loop_returns [OF assms(2) inv(1) True] by blast
  with full True audio_ok_same [OF inv(2)] show ?thesis
    by (auto simp: decoder_send_video_packet_def full_video_def running_def)
qed (use assms in \<open>simp add: decoder_send_video_packet_def\<close>)

lemma flush_audio_running:
  assumes "running d"
  shows "\<exists>d'. decoder_flush_audio lib d = Some d' \<and> running d'"
proof -
  define d1 where "d1 = (case g_audio_ctx d of None \<Rightarrow> d | Some (h, c) \<Rightarrow> d\<lparr>g_audio_ctx := Some (h, av_flush lib c)\<rparr>)"
  have run: "running d1"
    using assms running_audio_contents(1) [OF assms] by (auto simp: d1_def split: option.splits)
  note inv = inv_parts [of d1]
  have o: "owns d1" "decoder_inv d1" using run by (simp_all add: running_def decoder_inv_def)
  let ?p = "map_option fst (g_swr_ctx d1)"
  let ?d2 = "d1\<lparr>live := live d1 - set (handle_list ?p)\<rparr>\<lparr>g_swr_ctx := None\<rparr>"
  have "set (handle_list ?p) \<subseteq> live d1" using o by (auto simp: owns_def audio_handles_def)
  then have "decoder_flush_audio lib d = Some ?d2"
    by (simp add: decoder_flush_audio_def release_if_live flip: d1_def)
  moreover have "decoder_inv ?d2"
  proof (rule same_video_inv [OF o(2)])
    show "owns ?d2" using o(1) by (auto simp: owns_def video_handles_def audio_handles_def)
    show "buffer_ok ?d2" using inv(2) [OF o(2)] by (simp add: buffer_ok_def cong: option.case_cong)
    show "if g_audio_initialized ?d2 then full_audio ?d2 else no_audio ?d2"
      using inv(4) [OF o(2)] by (simp add: full_audio_def no_audio_def split: if_splits)
  qed (simp add: same_video_def video_handles_def)
  ultimately show ?thesis using run by (simp add: running_def audio_ok_def)
qed

lemma destroy_running:
  assumes "running d"
  shows "\<exists>d'. decoder_destroy d = Some d' \<and> running d' \<and> live d' = {}
    \<and> \<not> g_video_initialized d' \<and> \<not> g_audio_initialized d'"
proof -
  have inv: "owns d" "buffer_ok d" using assms by (simp_all add: running_def decoder_inv_def)
  note v = owns_without_video [OF inv(1)]
  note a = owns_without_audio [OF v(2)]
  let ?d = "(without_audio (without_video d))\<lparr>g_video_initialized := False, g_audio_initialized := False\<rparr>"
  have eq: "decoder_destroy d = Some ?d" by (simp add: decoder_destroy_def v(1) a(1))
  have none: "no_video ?d" "no_audio ?d" by (simp_all add: no_video_def no_audio_def without_audio_def without_video_def)
  have "owns ?d" using a(2) by (auto simp: video_handles_def audio_handles_def intro: owns_cong)
  moreover have "live ?d = {}"
    using a(2) by (simp add: owns_def) (simp add: video_handles_def audio_handles_def without_audio_def without_video_def)
  moreover have "buffer_ok ?d" "g_audio_output_buf_size ?d = 0" using inv(2)
    by (auto simp: buffer_ok_def without_audio_def without_video_def split: option.splits)
  ultimately show ?thesis using eq none by (simp add: running_def decoder_inv_def audio_ok_def no_audio_def)
qed

lemma call_running:
  assumes "running d" "sane_lib lib m" and "a = ReceiveAudio True \<Longrightarrow> \<not> receives_overflow lib d"
  shows "\<exists>d'. call_api lib a d = Some d' \<and> running d'"
proof (cases a)
  case (InitVideo codec)
  then show ?thesis using init_video_running [OF assms(1), of lib codec] by auto
next
  case (SendVideo dat pts)
  then show ?thesis using send_video_running [OF assms(1), of lib m dat pts] assms(2) by (auto simp: sane_lib_def)
next
  case (ReceiveVideo given)
  then show ?thesis using assms(1) running_video_contents(1) [OF assms(1)]
    by (auto simp: decoder_receive_video_frame_def Let_def split: option.splits prod.splits)
next
  case FlushVideo
  then show ?thesis using assms(1) running_video_contents(1) [OF assms(1)]
    by (auto simp: decoder_flush_video_def split: option.splits)
next
  case (InitAudio codec rate channels)
  then show ?thesis using init_audio_running [OF assms(1), of lib codec rate channels] by auto
next
  case (SendAudio dat pts)
  then show ?thesis using assms(1) running_audio_contents(2) [OF assms(1)]
    by (auto simp: decoder_send_audio_packet_def split: option.splits prod.splits)
next
  case (ReceiveAudio given)
  show ?thesis
  proof (cases "\<not> g_audio_initialized d \<or> g_audio_frame d = None \<or> \<not> given \<or> g_audio_ctx d = None")
    case True
    with ReceiveAudio assms(1) show ?thesis by (auto simp: decoder_receive_audio_frame_def)
  next
    case False
    then obtain h c where c: "g_audio_ctx d = Some (h, c)" by auto
    obtain ret f c1 where r: "av_receive_audio lib c = (ret, f, c1)" by (metis prod_cases3)
    let ?d1 = "d\<lparr>g_audio_ctx := Some (h, c1)\<rparr>"
    have run: "running ?d1" by (rule running_audio_contents(1) [OF assms(1) c])
    show ?thesis
    proof (cases "ret = AvDone")
      case True
      with r assms(2) have fok: "audio_frame_ok lib f" by (auto simp: sane_lib_def)
      have "\<not> audio_overflow ?d1 f"
        using assms(3) ReceiveAudio False c r True by (simp add: receives_overflow_def audio_overflow_def split: sample_format.splits)
      with run False fok obtain st info d' where "deliver_audio lib f ?d1 = Some (st, info, d')" "running d'"
        using deliver_audio [of ?d1 lib f] by (auto simp: running_def)
      with ReceiveAudio False c r True show ?thesis by (auto simp: decoder_receive_audio_frame_def)
    next
      case False
      with \<open>\<not> (_ \<or> _)\<close> ReceiveAudio c r run show ?thesis by (auto simp: decoder_receive_audio_frame_def)
    qed
  qed
next
  case FlushAudio
  then show ?thesis using flush_audio_running [OF assms(1)] by simp
next
  case Destroy
  then show ?thesis using destroy_running [OF assms(1)] by auto
qed

text \<open>Any sequence of calls returns, or it comes to a call that receives a frame the code cannot take.\<close>

lemma calls_running:
  assumes "sane_lib lib m"
  shows "running d \<Longrightarrow> (\<exists>d'. call_apis lib calls d = Some d' \<and> running d')
    \<or> (\<exists>before after d'. calls = before @ ReceiveAudio True # after \<and> call_apis lib before d = Some d' \<and> running d'
        \<and> receives_overflow lib d')"
proof (induction calls arbitrary: d)
  case (Cons a calls)
  show ?case
  proof (cases "a = ReceiveAudio True \<and> receives_overflow lib d")
    case True
    with Cons.prems show ?thesis by (intro disjI2 exI [of _ "[]"] exI [of _ calls] exI [of _ d]) simp
  next
    case False
    with call_running [OF Cons.prems assms, of a] obtain d1 where d1: "call_api lib a d = Some d1" "running d1" by blast
    from Cons.IH [OF d1(2)] show ?thesis
    proof
      assume "\<exists>before after d'. calls = before @ ReceiveAudio True # after \<and> call_apis lib before d1 = Some d' \<and> running d'
        \<and> receives_overflow lib d'"
      then obtain before after d' where "calls = before @ ReceiveAudio True # after" "call_apis lib before d1 = Some d'"
        "running d'" "receives_overflow lib d'" by blast
      with d1(1) show ?thesis by (intro disjI2 exI [of _ "a # before"] exI [of _ after] exI [of _ d']) simp
    qed (use d1(1) in auto)
  qed
qed simp

lemma initial_running: "running initial_decoder"
  using initial_inv by (simp add: running_def audio_ok_def) (simp add: initial_decoder_def)

end
