(* ===== verification/DecoderApi.thy ===== *)
theory DecoderApi
  imports DecoderMedia "HOL-Library.Sublist"
begin

text \<open>What the page may rely on when it calls the decoder glue.\<close>

section \<open>Video\<close>

text \<open>
  The units \<open>outs\<close> went to the decoder and it refused the units \<open>rs\<close>: it gets the bytes in order, and
  all of them if it refuses none.
\<close>

definition passed_on :: "('p \<Rightarrow> byte list) \<Rightarrow> byte list \<Rightarrow> int \<Rightarrow> byte list list \<Rightarrow> (byte list \<times> int) list
    \<Rightarrow> ('p, 'c) decoder \<Rightarrow> ('p, 'c) decoder \<Rightarrow> bool" where
  "passed_on pending dat pts outs rs d d' \<longleftrightarrow> (\<exists>h p p'. g_video_parser d = Some (h, p) \<and> g_video_parser d' = Some (h, p')
     \<and> subseq (concat outs @ pending p') (pending p @ dat) \<and> (rs = [] \<longrightarrow> pending p @ dat = concat outs @ pending p')
     \<and> [] \<notin> set outs \<and> video_taken d' = video_taken d @ map (\<lambda>out. (out, pts)) outs
     \<and> video_refused d' = video_refused d @ rs)"

lemma subseq_after: "subseq xs ys \<Longrightarrow> subseq (zs @ xs) (zs @ ys)"
  by (rule list_emb_append_mono [OF subseq_order.order_refl])

lemma subseq_amid: "subseq xs (ys @ xs @ zs)"
  using list_emb_append_mono [OF list_emb_Nil [of "(=)" ys] list_emb_append_mono [OF subseq_order.order_refl [of xs] list_emb_Nil [of "(=)" zs]]]
  by (simp only: append_Nil append_Nil2)

text \<open>A unit out of the parser, taken or held back, in front of what follows.\<close>

lemma passed_on_round:
  assumes "passed_on pending rest pts outs rs d1 d'" and "g_video_parser d = Some (h, p)" "g_video_parser d1 = Some (h, p1)"
    and "pending p @ dat = concat new @ pending p1 @ rest" "[] \<notin> set new"
    and "video_taken d1 = video_taken d @ map (\<lambda>out. (out, pts)) new" "video_refused d1 = video_refused d"
  shows "passed_on pending dat pts (new @ outs) rs d d'"
proof -
  from assms(1,3) obtain p' where p': "g_video_parser d' = Some (h, p')"
    "subseq (concat outs @ pending p') (pending p1 @ rest)" "rs = [] \<longrightarrow> pending p1 @ rest = concat outs @ pending p'"
    "[] \<notin> set outs" "video_taken d' = video_taken d1 @ map (\<lambda>out. (out, pts)) outs" "video_refused d' = video_refused d1 @ rs"
    by (auto simp: passed_on_def)
  have "subseq (concat new @ concat outs @ pending p') (concat new @ pending p1 @ rest)"
    by (rule subseq_after [OF p'(2)])
  with p' assms(2,4-7) show ?thesis by (simp add: passed_on_def)
qed

lemma send_loop_passes_on:
  "send_video_loop lib pts input b d = Some res \<Longrightarrow> splits_stream lib pending \<Longrightarrow> decoder_inv d \<Longrightarrow> g_video_initialized d \<Longrightarrow>
    \<exists>outs rs. passed_on pending input pts outs rs d (snd res) \<and> g_video_initialized (snd res) \<and> decoder_inv (snd res)"
proof (induction rule: send_video_loop.raw_induct [rotated, consumes 1, case_names 1])
  case (1 f lib pts input b d res)
  obtain h p where p: "g_video_parser d = Some (h, p)"
    using 1(4,5) by (auto simp: decoder_inv_def full_video_def)
  show ?case
  proof (cases "input = []")
    case True
    with 1 p have "passed_on pending input pts [] [] d (snd res)" by (auto simp: passed_on_def)
    with True 1 show ?thesis by auto
  next
    case False
    obtain n out p' where parse: "av_parse lib p input pts = (n, out, p')" by (metis prod_cases3)
    obtain d1 where d1: "parse_video lib pts input d = Some (n, out, d1)" "decoder_inv d1" "g_video_initialized d1"
      "g_video_parser d1 = Some (h, p')" "video_taken d1 = video_taken d" "video_refused d1 = video_refused d"
      using video_round [OF 1(4,5) p parse] by blast
    let ?rest = "drop (nat n) input"
    have n: "0 \<le> n" "pending p @ take (nat n) input = out @ pending p'"
      using 1(3) parse by (auto simp: splits_stream_def)
    then have bytes: "pending p @ input = out @ pending p' @ ?rest"
      by (metis append.assoc append_take_drop_id)
    show ?thesis
    proof (cases "out = []")
      case True
      then have "f lib pts ?rest b d1 = Some res" using 1(2) False d1(1) n(1) by simp
      from 1(1) [OF this 1(3) d1(2,3)] obtain outs rs where o: "passed_on pending ?rest pts outs rs d1 (snd res)"
        "g_video_initialized (snd res)" "decoder_inv (snd res)" by blast
      have "passed_on pending input pts ([] @ outs) rs d (snd res)"
        by (rule passed_on_round [OF o(1) p d1(4)]) (use bytes True d1 in simp_all)
      with o show ?thesis by blast
    next
      case out: False
      obtain c d2 where d2: "send_video lib (out, pts) d1 = Some (fst (av_send lib c (out, pts)), d2)" "decoder_inv d2"
        "g_video_initialized d2" "g_video_parser d2 = g_video_parser d1"
        "video_taken d2 = (if fst (av_send lib c (out, pts)) = AvDone then video_taken d1 @ [(out, pts)] else video_taken d1)"
        "video_refused d2 = (if fst (av_send lib c (out, pts)) = AvDone then video_refused d1 else video_refused d1 @ [(out, pts)])"
        using video_sent [OF d1(2,3)] by blast
      show ?thesis
      proof (cases "fst (av_send lib c (out, pts)) = AvDone")
        case True
        then have "f lib pts ?rest True d2 = Some res" using 1(2) False d1(1) d2(1) n(1) out by simp
        from 1(1) [OF this 1(3) d2(2,3)] obtain outs rs where o: "passed_on pending ?rest pts outs rs d2 (snd res)"
          "g_video_initialized (snd res)" "decoder_inv (snd res)" by blast
        have "passed_on pending input pts ([out] @ outs) rs d (snd res)"
          by (rule passed_on_round [OF o(1) p]) (use bytes True out d1 d2 in simp_all)
        with o show ?thesis by blast
      next
        case refused: False
        have res: "snd res = d2" using 1(2) False d1(1) d2(1) n(1) out refused by auto
        have "subseq (pending p') (pending p @ input)" unfolding bytes by (rule subseq_amid)
        then have "passed_on pending input pts [] [(out, pts)] d d2"
          using p d1(4-6) d2(4-6) refused by (simp add: passed_on_def)
        with res d2(2,3) show ?thesis by blast
      qed
    qed
  qed
qed

lemma send_video_passes_on:
  assumes "splits_stream lib pending" "decoder_inv d" "g_video_initialized d"
  shows "\<exists>outs rs r d'. decoder_send_video_packet lib dat pts d = Some (r, d')
    \<and> passed_on pending dat pts outs rs d d' \<and> g_video_initialized d' \<and> decoder_inv d'"
proof -
  have full: "full_video d" using inv_parts(3) [OF assms(2)] assms(3) by simp
  obtain r d' where r: "send_video_loop lib pts dat False d = Some (r, d')"
    using send_loop_returns [OF splits_advances [OF assms(1)] assms(2,3)] by blast
  have "decoder_send_video_packet lib dat pts d = Some (r, d')"
    using r full assms(3) by (auto simp: decoder_send_video_packet_def full_video_def)
  with send_loop_passes_on [OF r assms] show ?thesis by auto
qed

text \<open>C10: the bytes of a video stream between the page and the decoder, whatever the decoder answers: any sequence of
  calls returns; the units the decoder has taken, none of them empty, and what the parser still
  holds back are bytes sent, unchanged and in order; and when the decoder has refused no unit
  they are all of them.\<close>

theorem video_stream_reaches_decoder:
  assumes "splits_stream lib pending" "decoder_inv d" "g_video_initialized d"
    and "g_video_parser d = Some (h, p)"
  shows "\<exists>d' p' sent refused. call_apis lib (map (\<lambda>(dat, pts). SendVideo dat pts) packets) d = Some d'
    \<and> g_video_parser d' = Some (h, p') \<and> video_taken d' = video_taken d @ sent \<and> video_refused d' = video_refused d @ refused
    \<and> [] \<notin> fst ` set sent \<and> snd ` set sent \<subseteq> snd ` set packets
    \<and> subseq (concat (map fst sent) @ pending p') (pending p @ concat (map fst packets))
    \<and> (refused = [] \<longrightarrow> pending p @ concat (map fst packets) = concat (map fst sent) @ pending p')"
  using assms(2-4)
proof (induction packets arbitrary: d p)
  case (Cons x packets)
  obtain dat pts where x: "x = (dat, pts)" by fastforce
  obtain outs rs r d1 where d1: "decoder_send_video_packet lib dat pts d = Some (r, d1)"
    "passed_on pending dat pts outs rs d d1" "g_video_initialized d1" "decoder_inv d1"
    using send_video_passes_on [OF assms(1) Cons.prems(1,2)] by blast
  from d1(2) Cons.prems(3) obtain p1 where p1: "g_video_parser d1 = Some (h, p1)"
    "subseq (concat outs @ pending p1) (pending p @ dat)" "rs = [] \<longrightarrow> pending p @ dat = concat outs @ pending p1" "[] \<notin> set outs"
    "video_taken d1 = video_taken d @ map (\<lambda>out. (out, pts)) outs" "video_refused d1 = video_refused d @ rs"
    by (auto simp: passed_on_def)
  obtain d' p' sent refused where IH: "call_apis lib (map (\<lambda>(dat, pts). SendVideo dat pts) packets) d1 = Some d'"
    "g_video_parser d' = Some (h, p')" "video_taken d' = video_taken d1 @ sent" "video_refused d' = video_refused d1 @ refused"
    "[] \<notin> fst ` set sent" "snd ` set sent \<subseteq> snd ` set packets"
    "subseq (concat (map fst sent) @ pending p') (pending p1 @ concat (map fst packets))"
    "refused = [] \<longrightarrow> pending p1 @ concat (map fst packets) = concat (map fst sent) @ pending p'"
    using Cons.IH [OF d1(4,3) p1(1)] by blast
  let ?sent = "map (\<lambda>out. (out, pts)) outs @ sent"
  have outs: "concat (map fst ?sent) = concat outs @ concat (map fst sent)" by (simp add: comp_def)
  have "subseq (concat outs @ concat (map fst sent) @ pending p') (concat outs @ pending p1 @ concat (map fst packets))"
    by (rule subseq_after [OF IH(7)])
  moreover have "subseq (concat outs @ pending p1 @ concat (map fst packets)) (pending p @ dat @ concat (map fst packets))"
    using list_emb_append_mono [OF p1(2) subseq_order.order_refl] by simp
  ultimately have sub: "subseq (concat (map fst ?sent) @ pending p') (pending p @ dat @ concat (map fst packets))"
    unfolding outs append_assoc by (rule subseq_order.trans)
  have all: "rs @ refused = [] \<longrightarrow> pending p @ dat @ concat (map fst packets) = concat (map fst ?sent) @ pending p'"
    unfolding outs using p1(3) IH(8) by (metis append.assoc append_is_Nil_conv)
  have "[] \<notin> fst ` set ?sent" "snd ` set ?sent \<subseteq> snd ` set (x # packets)" using p1(4) IH(5,6) x by auto
  with sub all IH(1-4) p1(5,6) d1(1) x show ?case
    by (intro exI [of _ d'] exI [of _ p'] exI [of _ ?sent] exI [of _ "rs @ refused"]) simp
qed simp

text \<open>C40: when the decoder does not take a unit because it is full, the call says that more data are needed,
  and the unit and the rest of the input are gone: they are neither in the decoder nor held
  back by the parser, and the status is that of a call which held everything back.\<close>

theorem refused_unit_lost:
  assumes "splits_stream lib pending" "decoder_inv d" "g_video_initialized d"
    and "g_video_parser d = Some (h, p)" "g_video_ctx d = Some (hc, c)"
    and "av_parse lib p dat pts = (n, out, p')" "dat \<noteq> []" "out \<noteq> []" "av_send lib c (out, pts) = (AvAgain, c')"
  shows "\<exists>d'. decoder_send_video_packet lib dat pts d = Some (DECODE_NEED_MORE_DATA, d')
    \<and> video_taken d' = video_taken d \<and> g_video_parser d' = Some (h, p')
    \<and> pending p @ dat = out @ pending p' @ drop (nat n) dat"
proof -
  have full: "full_video d" using inv_parts(3) [OF assms(2)] assms(3) by simp
  have n: "0 \<le> n" "pending p @ take (nat n) dat = out @ pending p'"
    using assms(1,6) by (auto simp: splits_stream_def)
  have "pending p @ dat = (pending p @ take (nat n) dat) @ drop (nat n) dat" by simp
  then have bytes: "pending p @ dat = out @ pending p' @ drop (nat n) dat" using n(2) by simp
  let ?d1 = "d\<lparr>g_video_parser := Some (h, p')\<rparr>"
  have parse: "parse_video lib pts dat d = Some (n, out, ?d1)" using assms(4,6) by (simp add: parse_video_def)
  have send: "send_video lib (out, pts) ?d1 = Some (AvAgain, ?d1\<lparr>g_video_ctx := Some (hc, c'), video_taken := video_taken d, video_refused := video_refused d @ [(out, pts)]\<rparr>)"
    using assms(5,9) by (simp add: send_video_def)
  have "send_video_loop lib pts dat False d = Some (DECODE_NEED_MORE_DATA,
      ?d1\<lparr>g_video_ctx := Some (hc, c'), video_taken := video_taken d, video_refused := video_refused d @ [(out, pts)]\<rparr>)"
    using send_loop_go(2) [OF assms(7) parse n(1) assms(8) send, of False] by (simp add: send_status_def)
  with full assms(3) bytes show ?thesis by (auto simp: decoder_send_video_packet_def full_video_def)
qed

section \<open>Audio\<close>

lemma nth_concat_rows:
  "i < n \<Longrightarrow> j < w \<Longrightarrow> concat (map (\<lambda>i. map (g i) [0..<w]) [0..<n]) ! (i * w + j) = g i j"
proof (induction n)
  case (Suc n)
  have len: "length (concat (map (\<lambda>i. map (g i) [0..<w]) [0..<n])) = n * w"
    by (simp add: length_concat comp_def sum_list_triv)
  show ?case
  proof (cases "i < n")
    case True
    then have "Suc i * w \<le> n * w" by (intro mult_le_mono1) simp
    with Suc True len show ?thesis by (simp add: nth_append)
  next
    case False
    with Suc.prems have "i = n" by simp
    with Suc.prems len show ?thesis by (simp add: nth_append)
  qed
qed simp

text \<open>C26: a planar frame is delivered interleaved, whatever its number of channels up to eight and its
  length: sample \<open>i\<close> of channel \<open>ch\<close> is at \<open>i * channels + ch\<close> of the buffer the page is given, in
  a buffer large enough, with the rate, size and time of the frame.\<close>

theorem planar_audio_interleaved:
  assumes "decoder_inv d" "g_audio_initialized d" "audio_ok d" "g_audio_ctx d = Some (h, c)"
    and "av_receive_audio lib c = (AvDone, f, c')" "audio_frame_ok lib f" "av_format f = AV_SAMPLE_FMT_FLTP"
    and "av_nb_channels f \<le> int AV_NUM_DATA_POINTERS" and "\<forall>k. av_mem lib k"
  shows "\<exists>info d'. decoder_receive_audio_frame lib True d = Some (DECODE_OK, Some info, d') \<and> decoder_inv d'
    \<and> ai_sample_rate info = av_sample_rate f \<and> ai_channels info = av_nb_channels f
    \<and> ai_nb_samples info = av_nb_samples f \<and> ai_pts info = av_pts f
    \<and> nat (av_nb_samples f * av_nb_channels f) \<le> length (ai_data info)
    \<and> (\<forall>i ch. i < nat (av_nb_samples f) \<and> ch < nat (av_nb_channels f)
         \<longrightarrow> ai_data info ! (i * nat (av_nb_channels f) + ch) = av_samples f ! ch ! i)"
proof -
  let ?n = "av_nb_samples f * av_nb_channels f" and ?nc = "nat (av_nb_channels f)" and ?ns = "nat (av_nb_samples f)"
  let ?d1 = "d\<lparr>g_audio_ctx := Some (h, c')\<rparr>"
  have f: "planes_ok f" "0 \<le> ?n" "?n < 2 ^ 30" "nat ?n = ?ns * ?nc"
    using assms(6-8) by (auto simp: audio_frame_ok_def nat_frame_size)
  have run: "running ?d1" using running_audio_contents(1) [OF _ assms(4)] assms(1,3) by (simp add: running_def)
  obtain d2 where g: "grow_audio_buffer lib ?n ?d1 = Some (True, d2)" "decoder_inv d2" "g_audio_initialized d2"
    "audio_ok d2" "?n \<le> g_audio_output_buf_size d2"
    using grow_audio_buffer [of ?d1 ?n lib] run assms(2,9) f(3) by (auto simp: running_def)
  have room: "?ns * ?nc \<le> length (audio_buffer d2)" using audio_buffer_room [OF g(2,4,5)] f(4) by simp
  let ?b = "interleaved f @ drop (?ns * ?nc) (audio_buffer d2)"
  have len: "length (interleaved f) = ?ns * ?nc" by (simp add: interleaved_def length_concat comp_def sum_list_triv)
  have mul: "i32_mul (av_nb_samples f) (av_nb_channels f) = Some ?n" using f by (simp add: i32_mul_def)
  have conv: "convert_audio lib f ?n (audio_buffer d2) d2 = Some (Some ?b, d2)"
    using interleave_spec [OF f(1) room] assms(7) by (simp add: convert_audio_def)
  let ?info = "\<lparr>ai_sample_rate = av_sample_rate f, ai_channels = av_nb_channels f, ai_nb_samples = av_nb_samples f,
      ai_pts = av_pts f, ai_data = ?b\<rparr>"
  have "deliver_audio lib f ?d1 = Some (DECODE_OK, Some ?info, set_audio_buffer ?b d2)"
    using mul g(1) conv by (simp add: deliver_audio_def)
  moreover have "full_audio d" using inv_parts(4) [OF assms(1)] assms(2) by simp
  ultimately have "decoder_receive_audio_frame lib True d = Some (DECODE_OK, Some ?info, set_audio_buffer ?b d2)"
    using assms(2,4,5) by (auto simp: decoder_receive_audio_frame_def full_audio_def)
  moreover have "decoder_inv (set_audio_buffer ?b d2)"
    by (rule inv_set_buffer [OF g(2)]) (use len room in simp)
  moreover have "?b ! (i * ?nc + ch) = av_samples f ! ch ! i" if "i < ?ns" "ch < ?nc" for i ch
  proof -
    have "Suc i * ?nc \<le> ?ns * ?nc" using that(1) by (intro mult_le_mono1) simp
    then have "i * ?nc + ch < length (interleaved f)" using that(2) len by simp
    then show ?thesis using nth_concat_rows [OF that] by (simp add: nth_append interleaved_def)
  qed
  ultimately show ?thesis using len room f(4) by auto
qed

lemma grow_fresh:
  assumes "\<forall>k. av_mem lib k" "grow_audio_buffer lib n d = Some (ok, d')"
  shows "ok" "g_swr_ctx d' = g_swr_ctx d" "g_audio_output_buf_size d < n \<Longrightarrow> length (audio_buffer d') = float_room n"
  using assms
  by (auto simp: grow_audio_buffer_def av_alloc_def Let_def audio_buffer_def release_if_def av_release_def
      split: if_splits option.splits Option.bind_splits)

lemma receive_audio_delivers:
  assumes "g_audio_initialized d" "g_audio_frame d \<noteq> None" "g_audio_ctx d = Some (h, c)"
    and "av_receive_audio lib c = (AvDone, f, c')"
  shows "decoder_receive_audio_frame lib True d = deliver_audio lib f (d\<lparr>g_audio_ctx := Some (h, c')\<rparr>)"
  using assms by (auto simp: decoder_receive_audio_frame_def)

text \<open>After the number of channels of the stream has shrunk, the converter made for the earlier frames
  is used on: it writes more samples than the buffer was made for.\<close>

theorem fewer_channels_overflow:
  assumes "g_audio_initialized d" "g_audio_frame d \<noteq> None" "g_audio_ctx d = Some (h, c)"
    and "av_receive_audio lib c = (AvDone, f, c')" "av_format f = AV_SAMPLE_FMT_OTHER k"
    and "0 < av_nb_samples f" "0 < av_nb_channels f" "av_nb_samples f * av_nb_channels f < 2 ^ 30"
    and "g_audio_output_buf_size d < av_nb_samples f * av_nb_channels f" "\<forall>k. av_mem lib k"
    and "g_swr_ctx d = Some (hs, cfg)" "av_nb_channels f < swr_channels cfg"
    and "swr_converted lib cfg f = Some xs" "int (length xs) = av_nb_samples f * swr_channels cfg"
  shows "decoder_receive_audio_frame lib True d = None"
proof -
  let ?n = "av_nb_samples f * av_nb_channels f" and ?d1 = "d\<lparr>g_audio_ctx := Some (h, c')\<rparr>"
  have n: "0 \<le> ?n" using assms(6,7) by simp
  then have mul: "i32_mul (av_nb_samples f) (av_nb_channels f) = Some ?n"
    using assms(8) by (simp add: i32_mul_def)
  have "?n < av_nb_samples f * swr_channels cfg" using assms(6,12) by simp
  then have long: "nat ?n < length xs" using assms(14) nat_less_iff [OF n, of "length xs"] by metis
  show ?thesis
  proof (cases "grow_audio_buffer lib ?n ?d1")
    case None
    then show ?thesis using mul by (simp add: receive_audio_delivers [OF assms(1-4)] deliver_audio_def)
  next
    case (Some r)
    then obtain d2 where g: "grow_audio_buffer lib ?n ?d1 = Some (True, d2)"
      using grow_fresh(1) [OF assms(10)] by (cases r) (metis (full_types))
    have "length (audio_buffer d2) = nat ?n" "g_swr_ctx d2 = Some (hs, cfg)"
      using grow_fresh(2,3) [OF assms(10) g] assms(9,11) float_room [OF n assms(8)] by simp_all
    then have "convert_audio lib f ?n (audio_buffer d2) d2 = None"
      using assms(5,13) long by (simp add: convert_audio_def make_swr_def overwrite_def)
    with mul g show ?thesis by (simp add: receive_audio_delivers [OF assms(1-4)] deliver_audio_def)
  qed
qed

lemma for_upto_undefined: "for_upto k body s = None \<Longrightarrow> k \<le> m \<Longrightarrow> for_upto m body s = None"
  by (induction m) (auto simp: le_Suc_eq)

text \<open>A planar frame of more than eight channels is read behind the end of \<open>AVFrame.data\<close>.\<close>

theorem ninth_channel_undefined:
  assumes "g_audio_initialized d" "g_audio_frame d \<noteq> None" "g_audio_ctx d = Some (h, c)"
    and "av_receive_audio lib c = (AvDone, f, c')" "av_format f = AV_SAMPLE_FMT_FLTP"
    and "8 < av_nb_channels f" "0 < av_nb_samples f" "\<forall>k. av_mem lib k"
  shows "decoder_receive_audio_frame lib True d = None"
proof -
  have "interleave f buf = None" for buf
  proof -
    let ?row = "\<lambda>i. for_upto (nat (av_nb_channels f)) (\<lambda>ch buf. do {
      s \<leftarrow> plane_sample f ch i;
      store_sample (i * nat (av_nb_channels f) + ch) s buf })"
    have "plane_sample f 8 0 = None" by (simp add: plane_sample_def AV_NUM_DATA_POINTERS_def)
    then have "for_upto (Suc 8) (\<lambda>ch buf. do {
      s \<leftarrow> plane_sample f ch 0;
      store_sample (0 * nat (av_nb_channels f) + ch) s buf }) buf = None"
      by (simp only: for_upto.simps) (cases "for_upto 8 (\<lambda>ch buf. do {
        s \<leftarrow> plane_sample f ch 0;
        store_sample (0 * nat (av_nb_channels f) + ch) s buf }) buf"; simp)
    then have "?row 0 buf = None" by (rule for_upto_undefined) (use assms(6) in simp)
    then have "for_upto (Suc 0) ?row buf = None" by simp
    then show ?thesis unfolding interleave_def by (rule for_upto_undefined) (use assms(7) in simp)
  qed
  then have "convert_audio lib f n b e = None" for n b e using assms(5) by (simp add: convert_audio_def)
  then show ?thesis using grow_fresh(1) [OF assms(8)]
    by (auto simp: receive_audio_delivers [OF assms(1-4)] deliver_audio_def split: Option.bind_splits)
qed

section \<open>Any sequence of calls\<close>

text \<open>C9: the objects of FFmpeg, for any sequence of calls by the page and any answers of FFmpeg within its
  documentation (memory running out, decoders and parsers not to be had, packets refused, any
  format, size and number of channels, changing as they like): either every call is defined,
  so that no object is freed twice or used after it was freed, every object that lives is owned by one
  of the global pointers, and \<open>decoder_destroy\<close> frees all of them; or the calls come, in a state of which all
  this is true, to one that receives an audio frame the code cannot take, a planar one of more than eight channels
  or one with fewer channels than the converter was made for.\<close>

theorem decoder_objects_owned:
  assumes "sane_lib lib m"
  shows "(\<exists>d d'. call_apis lib calls initial_decoder = Some d \<and> decoder_inv d
      \<and> decoder_destroy d = Some d' \<and> live d' = {})
    \<or> (\<exists>before after d d'. calls = before @ ReceiveAudio True # after \<and> call_apis lib before initial_decoder = Some d
      \<and> decoder_inv d \<and> decoder_destroy d = Some d' \<and> live d' = {} \<and> receives_overflow lib d)"
proof -
  have destroy: "running d \<Longrightarrow> decoder_inv d \<and> (\<exists>d'. decoder_destroy d = Some d' \<and> live d' = {})" for d :: "('a, 'b) decoder"
    using destroy_running by (auto simp: running_def)
  from calls_running [OF assms initial_running, of calls] show ?thesis
  proof
    assume "\<exists>d. call_apis lib calls initial_decoder = Some d \<and> running d"
    with destroy show ?thesis by blast
  next
    assume "\<exists>before after d. calls = before @ ReceiveAudio True # after \<and> call_apis lib before initial_decoder = Some d
      \<and> running d \<and> receives_overflow lib d"
    with destroy show ?thesis by blast
  qed
qed

section \<open>Witnesses\<close>

text \<open>A parser that starts a unit at every zero byte, and a decoder that always gives the same answers.\<close>

definition sample_parse :: "byte list \<Rightarrow> byte list \<Rightarrow> int \<Rightarrow> int \<times> byte list \<times> byte list" where
  "sample_parse p input pts =
    (case input of [] \<Rightarrow> (0, [], p)
     | b # rest \<Rightarrow> if p \<noteq> [] \<and> b = 0 then (1, p, [b]) else (1, [], p @ [b]))"

definition sample_lib :: "av_result \<Rightarrow> AVFrame \<Rightarrow> (byte list, nat) av_lib" where
  "sample_lib answer frame = \<lparr>av_mem = (\<lambda>_. True), av_junk = (\<lambda>_. 0), av_find_decoder = (\<lambda>_. True),
     av_new_context = (\<lambda>_. 0), av_set_audio = (\<lambda>_ _ _ c. c), av_open2 = (\<lambda>_ c. (True, c)),
     av_new_parser = (\<lambda>_. []), av_parse = sample_parse, av_send = (\<lambda>c _. (answer, c + 1)),
     av_receive_video = (\<lambda>c. (AvAgain, frame, c)), av_receive_audio = (\<lambda>c. (AvDone, frame, c)),
     av_flush = (\<lambda>c. c), swr_init_ok = (\<lambda>_. True),
     swr_converted = (\<lambda>cfg f. Some (replicate (nat (av_nb_samples f * swr_channels cfg)) 0))\<rparr>"

definition sample_frame :: "sample_format \<Rightarrow> int \<Rightarrow> AVFrame" where
  "sample_frame fmt channels = \<lparr>av_width = 0, av_height = 0, av_pts = 40, av_duration = 0, av_data = [],
     av_linesize = [], av_format = fmt, av_nb_samples = 2, av_nb_channels = channels, av_sample_rate = 8000,
     av_samples = [[1, 2], [3, 4]]\<rparr>"

definition sample_video :: "(byte list, nat) decoder" where
  "sample_video = initial_decoder\<lparr>live := {0, 1, 2, 3}, allocated := 4, g_video_ctx := Some (0, 0),
     g_video_frame := Some 1, g_video_packet := Some 2, g_video_codec := Some AV_CODEC_ID_H264,
     g_video_parser := Some (3, []), g_video_initialized := True\<rparr>"

definition sample_audio :: "(byte list, nat) decoder" where
  "sample_audio = initial_decoder\<lparr>live := {0, 1, 2}, allocated := 3, g_audio_ctx := Some (0, 0),
     g_audio_frame := Some 1, g_audio_packet := Some 2, g_audio_codec := Some AV_CODEC_ID_AAC,
     g_audio_initialized := True\<rparr>"

lemma sample_splits: "splits_stream (sample_lib answer frame) (\<lambda>p. p)"
  by (auto simp: splits_stream_def sample_lib_def sample_parse_def split: list.splits if_splits)

lemma sample_decoder_inv: "decoder_inv sample_video" "decoder_inv sample_audio" "audio_ok sample_audio"
  by (auto simp: decoder_inv_def handle_defs sample_video_def sample_audio_def initial_decoder_def buffer_ok_def
      full_video_def full_audio_def no_video_def no_audio_def audio_ok_def)

lemma sample_frame_ok: "audio_frame_ok (sample_lib answer frame) (sample_frame AV_SAMPLE_FMT_FLTP 2)"
  "audio_frame_ok (sample_lib answer frame) (sample_frame (AV_SAMPLE_FMT_OTHER 1) 2)"
  by (auto simp: audio_frame_ok_def sample_frame_def planes_ok_def AV_NUM_DATA_POINTERS_def sample_lib_def numeral_2_eq_2)

theorem video_stream_reaches_decoder_witness:
  "\<exists>d' p' sent. call_apis (sample_lib AvDone (sample_frame AV_SAMPLE_FMT_FLTP 2))
      (map (\<lambda>(dat, pts). SendVideo dat pts) [([0, 1, 2, 0], 0), ([3, 0, 4], 40)]) sample_video = Some d'
    \<and> g_video_parser d' = Some (3, p') \<and> video_taken d' = sent
    \<and> subseq (concat (map fst sent) @ p') [0, 1, 2, 0, 3, 0, 4]"
  using video_stream_reaches_decoder [OF sample_splits sample_decoder_inv(1), of 3 "[]" AvDone "sample_frame AV_SAMPLE_FMT_FLTP 2"
      "[([0, 1, 2, 0], 0), ([3, 0, 4], 40)]"]
  by (fastforce simp: sample_video_def initial_decoder_def)

theorem refused_unit_lost_witness:
  "\<exists>d'. decoder_send_video_packet (sample_lib AvAgain (sample_frame AV_SAMPLE_FMT_FLTP 2)) [0, 3] 40
      (sample_video\<lparr>g_video_parser := Some (3, [0, 1, 2])\<rparr>) = Some (DECODE_NEED_MORE_DATA, d')
    \<and> video_taken d' = [] \<and> g_video_parser d' = Some (3, [0])
    \<and> [0, 1, 2] @ [0, 3] = [0, 1, 2] @ [0] @ ([3] :: byte list)"
proof -
  have inv: "decoder_inv (sample_video\<lparr>g_video_parser := Some (3, [0, 1, 2])\<rparr>)"
    by (rule inv_parser_contents [OF sample_decoder_inv(1)]) (simp add: sample_video_def)
  note splits = sample_splits [of AvAgain "sample_frame AV_SAMPLE_FMT_FLTP 2"]
  have parse: "av_parse (sample_lib AvAgain (sample_frame AV_SAMPLE_FMT_FLTP 2)) [0, 1, 2] [0, 3] 40 = (1, [0, 1, 2], [0])"
    by (simp add: sample_lib_def sample_parse_def)
  show ?thesis
    using refused_unit_lost [OF splits inv _ _ _ parse, of 3 0 0 1]
    by (auto simp: sample_video_def initial_decoder_def sample_lib_def)
qed

theorem planar_audio_interleaved_witness:
  "\<exists>info d'. decoder_receive_audio_frame (sample_lib AvDone (sample_frame AV_SAMPLE_FMT_FLTP 2)) True sample_audio
      = Some (DECODE_OK, Some info, d') \<and> decoder_inv d' \<and> ai_data info ! (1 * 2 + 0) = 2 \<and> ai_data info ! (0 * 2 + 1) = 3"
proof -
  let ?f = "sample_frame AV_SAMPLE_FMT_FLTP 2"
  have fields: "g_audio_initialized sample_audio" "g_audio_ctx sample_audio = Some (0, 0)"
    "av_receive_audio (sample_lib AvDone ?f) 0 = (AvDone, ?f, 0)" "av_format ?f = AV_SAMPLE_FMT_FLTP"
    "\<forall>k. av_mem (sample_lib AvDone ?f) k" "nat (av_nb_samples ?f) = 2" "nat (av_nb_channels ?f) = 2"
    "av_samples ?f = [[1, 2], [3, 4]]"
    by (simp_all add: sample_audio_def sample_lib_def sample_frame_def)
  have few: "av_nb_channels ?f \<le> int AV_NUM_DATA_POINTERS" by (simp add: sample_frame_def AV_NUM_DATA_POINTERS_def)
  from planar_audio_interleaved [OF sample_decoder_inv(2) fields(1) sample_decoder_inv(3) fields(2,3) sample_frame_ok(1) fields(4) few fields(5)]
  obtain info d' where "decoder_receive_audio_frame (sample_lib AvDone ?f) True sample_audio = Some (DECODE_OK, Some info, d')"
    "decoder_inv d'" "\<forall>i ch. i < 2 \<and> ch < 2 \<longrightarrow> ai_data info ! (i * 2 + ch) = [[1, 2], [3, 4]] ! ch ! i"
    unfolding fields by blast
  moreover from this(3) have "ai_data info ! (1 * 2 + 0) = [[1, 2], [3, 4]] ! 0 ! 1"
    "ai_data info ! (0 * 2 + 1) = [[1, 2], [3, 4]] ! 1 ! 0" by (metis one_less_numeral_iff semiring_norm(76) zero_less_numeral)+
  ultimately show ?thesis by auto
qed

theorem fewer_channels_overflow_witness:
  "decoder_receive_audio_frame (sample_lib AvDone (sample_frame (AV_SAMPLE_FMT_OTHER 1) 1)) True
     (sample_audio\<lparr>g_swr_ctx := Some (3, \<lparr>swr_format = AV_SAMPLE_FMT_OTHER 1, swr_rate = 8000, swr_channels = 2\<rparr>)\<rparr>) = None"
  by (rule fewer_channels_overflow [where h = 0 and c = 0 and f = "sample_frame (AV_SAMPLE_FMT_OTHER 1) 1" and c' = 0
        and k = 1 and hs = 3 and cfg = "\<lparr>swr_format = AV_SAMPLE_FMT_OTHER 1, swr_rate = 8000, swr_channels = 2\<rparr>"
        and xs = "replicate 4 0"])
    (simp_all add: sample_audio_def sample_lib_def sample_frame_def initial_decoder_def)

theorem ninth_channel_undefined_witness:
  "decoder_receive_audio_frame (sample_lib AvDone (sample_frame AV_SAMPLE_FMT_FLTP 9)) True sample_audio = None"
  by (rule ninth_channel_undefined [where h = 0 and c = 0 and f = "sample_frame AV_SAMPLE_FMT_FLTP 9" and c' = 0])
    (simp_all add: sample_audio_def sample_lib_def sample_frame_def)

theorem decoder_objects_owned_witness:
  "(\<exists>d d'. call_apis (sample_lib AvDone (sample_frame AV_SAMPLE_FMT_FLT 1))
        [InitVideo 0, InitAudio 13 8000 1, ReceiveAudio True, InitVideo 7, SendVideo [0, 1, 0] 40, ReceiveAudio True, FlushAudio]
        initial_decoder = Some d
      \<and> decoder_inv d \<and> decoder_destroy d = Some d' \<and> live d' = {})"
proof -
  let ?lib = "sample_lib AvDone (sample_frame AV_SAMPLE_FMT_FLT 1)"
  let ?calls = "[InitVideo 0, InitAudio 13 8000 1, ReceiveAudio True, InitVideo 7, SendVideo [0, 1, 0] 40, ReceiveAudio True, FlushAudio]"
  have "parser_advances ?lib (length \<circ> (\<lambda>p. p))" by (rule splits_advances [OF sample_splits])
  moreover have "audio_frame_ok ?lib f" if "av_receive_audio ?lib c = (AvDone, f, c')" for c f c'
    using that by (auto simp: sample_lib_def audio_frame_ok_def sample_frame_def)
  ultimately have "sane_lib ?lib (length \<circ> (\<lambda>p. p))" by (auto simp: sane_lib_def)
  moreover have "\<not> receives_overflow ?lib d" for d
    by (simp add: receives_overflow_def audio_overflow_def sample_lib_def sample_frame_def split: option.splits)
  ultimately show ?thesis using decoder_objects_owned [of ?lib "length \<circ> (\<lambda>p. p)" ?calls] by blast
qed

end
