(* ===== verification/Json.thy ===== *)
theory Json
  imports Complex_Main Decimals
begin

text \<open>
  The parts of JavaScript's library the browser side uses on texts: \<open>JSON.parse\<close>, the texts that
  \<open>JSON.stringify\<close> makes of objects of strings and booleans, and UTF-8. A JavaScript string is its
  list of UTF-16 code units; \<open>js\<close> writes a literal. A number is a rational, exact where the
  interpreter rounds to a \<open>double\<close>.
\<close>

type_synonym js_string = "nat list"

definition js :: "string \<Rightarrow> js_string" where
  "js s = map of_char s"

datatype json = JNull | JBool bool | JNumber rat | JString js_string | JArray "json list"
  | JObject "(js_string \<times> json) list"

section \<open>\<open>JSON.parse\<close>\<close>

definition is_ws :: "nat \<Rightarrow> bool" where
  "is_ws c \<longleftrightarrow> c = 32 \<or> c = 9 \<or> c = 10 \<or> c = 13"

definition skip_ws :: "js_string \<Rightarrow> js_string" where
  "skip_ws = dropWhile is_ws"

text \<open>The next token, if it is this character.\<close>

definition token :: "nat \<Rightarrow> js_string \<Rightarrow> js_string option" where
  "token c s = (case skip_ws s of [] \<Rightarrow> None | d # r \<Rightarrow> if d = c then Some r else None)"

definition is_dec :: "nat \<Rightarrow> bool" where
  "is_dec c \<longleftrightarrow> 48 \<le> c \<and> c \<le> 57"

definition dec_value :: "js_string \<Rightarrow> nat" where
  "dec_value = foldl (\<lambda>v c. 10 * v + (c - 48)) 0"

definition hex_value :: "nat \<Rightarrow> nat option" where
  "hex_value c = (if 48 \<le> c \<and> c \<le> 57 then Some (c - 48) else if 97 \<le> c \<and> c \<le> 102 then Some (c - 87)
     else if 65 \<le> c \<and> c \<le> 70 then Some (c - 55) else None)"

definition simple_escape :: "nat \<Rightarrow> nat option" where
  "simple_escape = map_of [(34, 34), (92, 92), (47, 47), (98, 8), (102, 12), (110, 10), (114, 13), (116, 9)]"

text \<open>A string behind its opening quote.\<close>

fun json_chars :: "js_string \<Rightarrow> (js_string \<times> js_string) option" where
  "json_chars [] = None"
| "json_chars (c # cs) =
    (if c = 34 then Some ([], cs)
     else if c < 32 then None
     else if c = 92 then
       (case cs of [] \<Rightarrow> None
        | e # ds \<Rightarrow>
            if e = 117 then
              (case ds of d1 # d2 # d3 # d4 # es \<Rightarrow> do {
                   h1 \<leftarrow> hex_value d1;
                   h2 \<leftarrow> hex_value d2;
                   h3 \<leftarrow> hex_value d3;
                   h4 \<leftarrow> hex_value d4;
                   (s, r) \<leftarrow> json_chars es;
                   Some ((h1 * 4096 + h2 * 256 + h3 * 16 + h4) # s, r)
                 }
               | _ \<Rightarrow> None)
            else do {
              u \<leftarrow> simple_escape e;
              (s, r) \<leftarrow> json_chars ds;
              Some (u # s, r)
            })
     else do {
       (s, r) \<leftarrow> json_chars cs;
       Some (c # s, r)
     })"

text \<open>The three parts of a number: its digits, a fraction and an exponent. An integer part of
  several digits that begins with 0 is an error of the token behind the 0.\<close>

definition json_fraction :: "js_string \<Rightarrow> (rat \<times> js_string) option" where
  "json_fraction s =
    (if s \<noteq> [] \<and> hd s = 46 then
       let fs = takeWhile is_dec (tl s)
       in if fs = [] then None else Some (of_nat (dec_value fs) / 10 ^ length fs, drop (length fs) (tl s))
     else Some (0, s))"

definition json_exponent :: "js_string \<Rightarrow> (rat \<times> js_string) option" where
  "json_exponent s =
    (if s \<noteq> [] \<and> (hd s = 101 \<or> hd s = 69) then
       let t = tl s;
           negative = (t \<noteq> [] \<and> hd t = 45);
           u = (if t \<noteq> [] \<and> (hd t = 45 \<or> hd t = 43) then tl t else t);
           es = takeWhile is_dec u
       in if es = [] then None
          else Some (if negative then 1 / 10 ^ dec_value es else 10 ^ dec_value es, drop (length es) u)
     else Some (1, s))"

definition json_number :: "js_string \<Rightarrow> (rat \<times> js_string) option" where
  "json_number s =
    (let negative = (s \<noteq> [] \<and> hd s = 45);
         s = (if negative then tl s else s);
         ds = takeWhile is_dec s
     in if ds = [] \<or> (length ds > 1 \<and> hd ds = 48) then None
        else do {
          (f, s) \<leftarrow> json_fraction (drop (length ds) s);
          (e, s) \<leftarrow> json_exponent s;
          let v = (of_nat (dec_value ds) + f) * e;
          Some (if negative then - v else v, s)
        })"

definition json_literal :: "js_string \<Rightarrow> (json \<times> js_string) option" where
  "json_literal s =
    (if take 4 s = js ''true'' then Some (JBool True, drop 4 s)
     else if take 5 s = js ''false'' then Some (JBool False, drop 5 s)
     else if take 4 s = js ''null'' then Some (JNull, drop 4 s)
     else do { (v, r) \<leftarrow> json_number s; Some (JNumber v, r) })"

text \<open>Values, the elements of an array and the members of an object; the first argument bounds the
  depth of the recursion.\<close>

fun json_value :: "nat \<Rightarrow> js_string \<Rightarrow> (json \<times> js_string) option"
  and json_elements :: "nat \<Rightarrow> js_string \<Rightarrow> (json list \<times> js_string) option"
  and json_members :: "nat \<Rightarrow> js_string \<Rightarrow> ((js_string \<times> json) list \<times> js_string) option" where
  "json_value 0 s = None"
| "json_value (Suc n) s =
    (case token 34 s of Some t \<Rightarrow> do { (v, r) \<leftarrow> json_chars t; Some (JString v, r) }
     | None \<Rightarrow> case token 123 s of
         Some t \<Rightarrow> (case token 125 t of Some r \<Rightarrow> Some (JObject [], r)
           | None \<Rightarrow> do { (ms, r) \<leftarrow> json_members n t; Some (JObject ms, r) })
       | None \<Rightarrow> case token 91 s of
           Some t \<Rightarrow> (case token 93 t of Some r \<Rightarrow> Some (JArray [], r)
             | None \<Rightarrow> do { (vs, r) \<leftarrow> json_elements n t; Some (JArray vs, r) })
         | None \<Rightarrow> json_literal (skip_ws s))"
| "json_elements 0 s = None"
| "json_elements (Suc n) s = do {
     (v, r) \<leftarrow> json_value n s;
     case token 93 r of Some r \<Rightarrow> Some ([v], r)
     | None \<Rightarrow> do {
         t \<leftarrow> token 44 r;
         (vs, r) \<leftarrow> json_elements n t;
         Some (v # vs, r)
       }
   }"
| "json_members 0 s = None"
| "json_members (Suc n) s = do {
     t \<leftarrow> token 34 s;
     (k, r) \<leftarrow> json_chars t;
     t \<leftarrow> token 58 r;
     (v, r) \<leftarrow> json_value n t;
     case token 125 r of Some r \<Rightarrow> Some ([(k, v)], r)
     | None \<Rightarrow> do {
         t \<leftarrow> token 44 r;
         (ms, r) \<leftarrow> json_members n t;
         Some ((k, v) # ms, r)
       }
   }"

definition JSON_parse :: "js_string \<Rightarrow> json option" where
  "JSON_parse s = do {
     (v, r) \<leftarrow> json_value (2 * length s + 1) s;
     if skip_ws r = [] then Some v else None
   }"

section \<open>The fuel is enough\<close>

lemma length_token: "token c s = Some r \<Longrightarrow> length r < length s"
proof -
  assume t: "token c s = Some r"
  then have "skip_ws s = c # r" by (auto simp: token_def split: list.splits if_splits)
  then have "length (c # r) \<le> length s" using length_dropWhile_le [of is_ws s] by (simp add: skip_ws_def)
  then show ?thesis by simp
qed

lemma length_json_chars: "json_chars s = Some (v, r) \<Longrightarrow> length r < length s"
proof (induction s arbitrary: v r rule: json_chars.induct)
  case (2 c cs)
  then show ?case
    by (fastforce split: if_splits list.splits option.splits prod.splits bind_splits)
qed simp

lemma length_json_literal:
  assumes "json_literal s = Some (v, r)"
  shows "length r \<le> length s"
proof -
  have f: "length r \<le> length s" if "json_fraction s = Some (x, r)" for s x r
    using that by (auto simp: json_fraction_def Let_def split: if_splits)
  have e: "length r \<le> length s" if "json_exponent s = Some (x, r)" for s x r
    using that by (auto simp: json_exponent_def Let_def split: if_splits)
  have n: "length r \<le> length s" if "json_number s = Some (x, r)" for s x r
    using that by (auto simp: json_number_def Let_def dest!: f e split: if_splits bind_splits)
  show ?thesis using assms by (auto simp: json_literal_def dest!: n split: if_splits bind_splits)
qed

lemma json_lengths:
  "(json_value n s = Some (v, r) \<longrightarrow> length r \<le> length s)
    \<and> (json_elements n s = Some (vs, r) \<longrightarrow> length r \<le> length s)
    \<and> (json_members n s = Some (ms, r) \<longrightarrow> length r \<le> length s)"
proof (induction n arbitrary: s v vs ms r)
  case 0
  then show ?case by simp
next
  case (Suc n)
  have v: "length r \<le> length s" if "json_value n s = Some (v, r)" for s v r using Suc.IH that by blast
  have e: "length r \<le> length s" if "json_elements n s = Some (v, r)" for s v r using Suc.IH that by blast
  have m: "length r \<le> length s" if "json_members n s = Some (v, r)" for s v r using Suc.IH that by blast
  have w: "length (skip_ws s) \<le> length s" for s by (simp add: skip_ws_def length_dropWhile_le)
  have l: "length r \<le> length s" if "json_literal (skip_ws s) = Some (v, r)" for s v r
    using length_json_literal [OF that] w [of s] by simp
  have "json_value (Suc n) s = Some (v, r) \<longrightarrow> length r \<le> length s"
    by (auto split: option.splits bind_splits prod.splits dest!: length_token length_json_chars e m l)
  moreover have "json_elements (Suc n) s = Some (vs, r) \<longrightarrow> length r \<le> length s"
    by (auto split: option.splits bind_splits prod.splits dest!: length_token v e)
  moreover have "json_members (Suc n) s = Some (ms, r) \<longrightarrow> length r \<le> length s"
    by (auto split: option.splits bind_splits prod.splits dest!: length_token length_json_chars v m)
  ultimately show ?case by blast
qed

declare json_value.simps [simp del] json_elements.simps [simp del] json_members.simps [simp del]

text \<open>From twice the length on, more fuel does not change the result.\<close>

lemma json_fuel_step:
  "(2 * length s + 1 \<le> n \<longrightarrow> json_value (Suc n) s = json_value n s)
    \<and> (2 * length s + 2 \<le> n \<longrightarrow> json_elements (Suc n) s = json_elements n s)
    \<and> (2 * length s + 1 \<le> n \<longrightarrow> json_members (Suc n) s = json_members n s)"
proof (induction n arbitrary: s)
  case 0
  then show ?case by simp
next
  case (Suc n)
  have v: "json_value (Suc n) t = json_value n t" if "2 * length t + 1 \<le> n" for t using Suc.IH that by blast
  have e: "json_elements (Suc n) t = json_elements n t" if "2 * length t + 2 \<le> n" for t using Suc.IH that by blast
  have m: "json_members (Suc n) t = json_members n t" if "2 * length t + 1 \<le> n" for t using Suc.IH that by blast
  have "json_value (Suc (Suc n)) s = json_value (Suc n) s" if "2 * length s + 1 \<le> Suc n"
  proof -
    have "json_elements (Suc n) t = json_elements n t" if "token c s = Some t" for c t
      using length_token [OF that] \<open>2 * length s + 1 \<le> Suc n\<close> by (intro e) simp
    moreover have "json_members (Suc n) t = json_members n t" if "token c s = Some t" for c t
      using length_token [OF that] \<open>2 * length s + 1 \<le> Suc n\<close> by (intro m) simp
    ultimately show ?thesis
      unfolding json_value.simps(2) [of "Suc n" s] json_value.simps(2) [of n s] by (auto split: option.splits)
  qed
  moreover have "json_elements (Suc (Suc n)) s = json_elements (Suc n) s" if n: "2 * length s + 2 \<le> Suc n"
  proof -
    have "json_elements (Suc n) t = json_elements n t" if "json_value n s = Some (x, r)" "token c r = Some t" for x r c t
      using json_lengths [of n s x r] that length_token n by (intro e) fastforce
    moreover have "json_value (Suc n) s = json_value n s" using n by (intro v) simp
    ultimately show ?thesis
      unfolding json_elements.simps(2) [of "Suc n" s] json_elements.simps(2) [of n s]
      by (cases "json_value n s") (auto split: option.splits intro!: Option.bind_cong)
  qed
  moreover have "json_members (Suc (Suc n)) s = json_members (Suc n) s" if n: "2 * length s + 1 \<le> Suc n"
  proof -
    have v': "json_value (Suc n) u = json_value n u"
      if "token c s = Some t" "json_chars t = Some (k, r)" "token d r = Some u" for c d t k r u
      using length_token [OF that(1)] length_json_chars [OF that(2)] length_token [OF that(3)] n by (intro v) simp
    have m': "json_members (Suc n) x = json_members n x"
      if "token c s = Some t" "json_chars t = Some (k, r)" "token d r = Some u" "json_value n u = Some (y, q)"
        "token e q = Some x" for c d e t k r u y q x
    proof -
      have "length q \<le> length u" using json_lengths that(4) by blast
      then show ?thesis
        using length_token [OF that(1)] length_json_chars [OF that(2)] length_token [OF that(3)]
          length_token [OF that(5)] n by (intro m) simp
    qed
    show ?thesis
      unfolding json_members.simps(2) [of "Suc n" s] json_members.simps(2) [of n s]
      by (auto split: option.splits prod.splits intro!: Option.bind_cong simp: v' m')
  qed
  ultimately show ?case by blast
qed

lemma json_fuel: "2 * length s + 1 \<le> n \<Longrightarrow> json_value n s = json_value (2 * length s + 1) s"
proof (induction n rule: dec_induct)
  case (step n)
  then show ?case using json_fuel_step [of s n] by simp
qed simp

section \<open>Texts of values\<close>

definition plain :: "js_string \<Rightarrow> bool" where
  "plain = list_all (\<lambda>c. 32 \<le> c \<and> c \<noteq> 34 \<and> c \<noteq> 92)"

definition quoted :: "js_string \<Rightarrow> js_string" where
  "quoted k = 34 # k @ [34]"

text \<open>Members and elements up to the closing bracket.\<close>

fun members_text :: "(js_string \<times> js_string) list \<Rightarrow> js_string" where
  "members_text [] = [125]"
| "members_text [(k, s)] = quoted k @ [58] @ s @ [125]"
| "members_text ((k, s) # m # ms) = quoted k @ [58] @ s @ [44] @ members_text (m # ms)"

fun elements_text :: "js_string list \<Rightarrow> js_string" where
  "elements_text [] = [93]"
| "elements_text [s] = s @ [93]"
| "elements_text (s # t # ts) = s @ [44] @ elements_text (t # ts)"

definition object_text :: "(js_string \<times> js_string) list \<Rightarrow> js_string" where
  "object_text ms = 123 # members_text ms"

definition array_text :: "js_string list \<Rightarrow> js_string" where
  "array_text ts = 91 # elements_text ts"

text \<open>A text that is read as a value wherever a value may end behind it.\<close>

definition stops :: "js_string \<Rightarrow> bool" where
  "stops rest \<longleftrightarrow> rest = [] \<or> hd rest = 44 \<or> hd rest = 93 \<or> hd rest = 125"

definition reads_as :: "js_string \<Rightarrow> json \<Rightarrow> bool" where
  "reads_as s v \<longleftrightarrow> s \<noteq> [] \<and> \<not> is_ws (hd s) \<and> hd s \<noteq> 93 \<and> hd s \<noteq> 125
     \<and> (\<forall>n rest. 2 * length s \<le> n \<longrightarrow> stops rest \<longrightarrow> json_value n (s @ rest) = Some (v, rest))"

lemma token_simps [simp]:
  "token c [] = None"
  "\<not> is_ws d \<Longrightarrow> token c (d # r) = (if d = c then Some r else None)"
  by (simp_all add: token_def skip_ws_def)

lemma is_ws_simps [simp]:
  "\<not> is_ws 34" "\<not> is_ws 44" "\<not> is_ws 58" "\<not> is_ws 91" "\<not> is_ws 93" "\<not> is_ws 123" "\<not> is_ws 125"
  by (simp_all add: is_ws_def)

lemma json_chars_plain: "plain k \<Longrightarrow> json_chars (k @ 34 # rest) = Some (k, rest)"
  by (induction k) (auto simp: plain_def)

lemma JSON_parse_text:
  assumes "reads_as s v"
  shows "JSON_parse s = Some v"
proof -
  have "json_value (2 * length s + 1) (s @ []) = Some (v, [])"
    using assms unfolding reads_as_def by (elim conjE allE [of _ "2 * length s + 1"] allE [of _ "[]"]) (simp add: stops_def)
  then show ?thesis by (simp add: JSON_parse_def skip_ws_def)
qed

lemma reads_quoted: "plain k \<Longrightarrow> reads_as (quoted k) (JString k)"
  by (auto simp: reads_as_def quoted_def json_chars_plain json_value.simps(2) elim!: less_natE dest!: Suc_le_D)

lemma value_other:
  assumes "s \<noteq> []" and "\<not> is_ws (hd s)" and "hd s \<noteq> 34" and "hd s \<noteq> 123" and "hd s \<noteq> 91"
  shows "json_value (Suc n) s = json_literal s"
proof -
  obtain c cs where "s = c # cs" using assms(1) by (cases s) auto
  then show ?thesis using assms by (simp add: json_value.simps(2) skip_ws_def)
qed

lemma members_read:
  assumes "ms \<noteq> []" and "list_all (\<lambda>(k, s, v). plain k \<and> reads_as s v) ms"
    and "2 * length (members_text (map (\<lambda>(k, s, v). (k, s)) ms)) + 1 \<le> n"
  shows "json_members n (members_text (map (\<lambda>(k, s, v). (k, s)) ms) @ rest)
    = Some (map (\<lambda>(k, s, v). (k, v)) ms, rest)"
  using assms
proof (induction ms arbitrary: n)
  case Nil
  then show ?case by simp
next
  case (Cons m ms)
  obtain k s v where m: "m = (k, s, v)" by (cases m)
  obtain n' where n: "n = Suc n'" using Cons.prems(3) by (cases n) simp_all
  have k: "plain k" and sv: "reads_as s v" using Cons.prems(2) m by simp_all
  show ?case
  proof (cases ms)
    case Nil
    have "json_value n' (s @ 125 # rest) = Some (v, 125 # rest)"
      using sv Cons.prems(3) unfolding reads_as_def by (simp add: m n Nil quoted_def stops_def)
    then show ?thesis using k by (simp add: m n Nil quoted_def json_members.simps(2) json_chars_plain)
  next
    case (Cons m' ms')
    obtain k' s' v' where m': "m' = (k', s', v')" by (cases m')
    let ?t = "members_text (map (\<lambda>(k, s, v). (k, s)) ms)"
    have len: "2 * length s + 2 * length ?t + 6 \<le> n'"
      using Cons.prems(3) by (simp add: m m' n Cons quoted_def)
    have "json_value n' (s @ 44 # ?t @ rest) = Some (v, 44 # ?t @ rest)"
      using sv len unfolding reads_as_def by (simp add: stops_def)
    moreover have "json_members n' (?t @ rest) = Some (map (\<lambda>(k, s, v). (k, v)) ms, rest)"
      using Cons.IH [of n'] Cons.prems(2) len Cons by simp
    ultimately show ?thesis using k by (simp add: m m' n Cons quoted_def json_members.simps(2) json_chars_plain)
  qed
qed

lemma members_start: "ms \<noteq> [] \<Longrightarrow> \<exists>t. members_text ms = 34 # t"
  by (cases ms rule: members_text.cases) (auto simp: quoted_def)

lemma reads_object:
  assumes "list_all (\<lambda>(k, s, v). plain k \<and> reads_as s v) ms"
  shows "reads_as (object_text (map (\<lambda>(k, s, v). (k, s)) ms)) (JObject (map (\<lambda>(k, s, v). (k, v)) ms))"
proof -
  let ?t = "members_text (map (\<lambda>(k, s, v). (k, s)) ms)"
  have "json_value n (123 # ?t @ rest) = Some (JObject (map (\<lambda>(k, s, v). (k, v)) ms), rest)"
    if n: "2 * length (123 # ?t) \<le> n" for n rest
  proof -
    obtain n' where n': "n = Suc n'" using n by (cases n) simp_all
    show ?thesis
    proof (cases "ms = []")
      case True
      then show ?thesis by (simp add: n' json_value.simps(2))
    next
      case False
      then obtain t where t: "?t = 34 # t" using members_start by fastforce
      have "json_members n' (?t @ rest) = Some (map (\<lambda>(k, s, v). (k, v)) ms, rest)"
        using members_read [OF False assms] n n' by simp
      then show ?thesis using t by (simp add: n' json_value.simps(2))
    qed
  qed
  then show ?thesis by (simp add: reads_as_def object_text_def is_ws_def)
qed

lemma elements_read:
  assumes "es \<noteq> []" and "list_all (\<lambda>(s, v). reads_as s v) es"
    and "2 * length (elements_text (map fst es)) + 1 \<le> n"
  shows "json_elements n (elements_text (map fst es) @ rest) = Some (map snd es, rest)"
  using assms
proof (induction es arbitrary: n)
  case Nil
  then show ?case by simp
next
  case (Cons e es)
  obtain s v where e: "e = (s, v)" by (cases e)
  obtain n' where n: "n = Suc n'" using Cons.prems(3) by (cases n) simp_all
  have sv: "reads_as s v" using Cons.prems(2) e by simp
  show ?case
  proof (cases es)
    case Nil
    have "json_value n' (s @ 93 # rest) = Some (v, 93 # rest)"
      using sv Cons.prems(3) unfolding reads_as_def by (simp add: e n Nil stops_def)
    then show ?thesis by (simp add: e n Nil json_elements.simps(2))
  next
    case (Cons e' es')
    let ?t = "elements_text (map fst es)"
    have len: "2 * length s + 2 * length ?t + 1 \<le> n'"
      using Cons.prems(3) by (simp add: e n Cons)
    have "json_value n' (s @ 44 # ?t @ rest) = Some (v, 44 # ?t @ rest)"
      using sv len unfolding reads_as_def by (simp add: stops_def)
    moreover have "json_elements n' (?t @ rest) = Some (map snd es, rest)"
      using Cons.IH [of n'] Cons.prems(2) len Cons by simp
    ultimately show ?thesis by (simp add: e n Cons json_elements.simps(2))
  qed
qed

lemma reads_array:
  assumes "list_all (\<lambda>(s, v). reads_as s v) es"
  shows "reads_as (array_text (map fst es)) (JArray (map snd es))"
proof -
  let ?t = "elements_text (map fst es)"
  have "json_value n (91 # ?t @ rest) = Some (JArray (map snd es), rest)" if n: "2 * length (91 # ?t) \<le> n" for n rest
  proof -
    obtain n' where n': "n = Suc n'" using n by (cases n) simp_all
    show ?thesis
    proof (cases es)
      case Nil
      then show ?thesis by (simp add: n' json_value.simps(2))
    next
      case (Cons e es')
      obtain c t where s: "fst e = c # t" and c: "\<not> is_ws c" "c \<noteq> 93"
        using assms Cons by (cases "fst e") (auto simp: reads_as_def case_prod_beta)
      obtain u where t: "?t = c # u" using s Cons by (cases es') auto
      have "json_elements n' (?t @ rest) = Some (map snd es, rest)"
        using elements_read [OF _ assms, of n'] n n' Cons by simp
      then show ?thesis using t c by (simp add: n' json_value.simps(2))
    qed
  qed
  then show ?thesis by (simp add: reads_as_def array_text_def is_ws_def)
qed

section \<open>Numbers\<close>

definition decimals :: "nat \<Rightarrow> js_string" where
  "decimals n = map unat (digits n)"

lemma is_dec_unat: "is_dec (unat (c :: byte)) \<longleftrightarrow> is_digit c"
  by (simp add: is_dec_def is_digit_def word_le_nat_alt)

lemma decimals_dec: "list_all is_dec (decimals n)"
  using digits_are_digits [of n] by (simp add: decimals_def list_all_iff is_dec_unat)

lemma takeWhile_dec: "list_all is_dec ds \<Longrightarrow> rest = [] \<or> \<not> is_dec (hd rest) \<Longrightarrow> takeWhile is_dec (ds @ rest) = ds"
  by (cases rest) (auto simp: list_all_iff takeWhile_append)

lemma dec_value_digits:
  assumes "list_all is_digit ds"
  shows "foldl (\<lambda>v c. 10 * v + (c - 48)) acc (map unat ds) = read_digits acc ds"
  using assms
proof (induction ds arbitrary: acc)
  case (Cons c ds)
  then have "(48 :: byte) \<le> c" by (simp add: is_digit_def)
  then have "unat (c - 48) = unat c - 48" by (simp add: unat_sub)
  then show ?case using Cons by (simp add: mult.commute)
qed simp

lemma dec_value_decimals: "dec_value (decimals n) = n"
  by (simp add: dec_value_def decimals_def dec_value_digits digits_are_digits read_digits_digits)

lemma digits_first_nonzero: "0 < n \<Longrightarrow> hd (digits n) \<noteq> 48"
proof (induction n rule: digits.induct)
  case (1 n)
  show ?case
  proof (cases "n < 10")
    case True
    then have "unat (of_nat (48 + n) :: byte) = 48 + n" by (rule unat_digit)
    then have "(of_nat (48 + n) :: byte) \<noteq> 48" using 1(2) by (auto simp: word_unat_eq_iff)
    then show ?thesis using True by (subst digits.simps) simp
  next
    case False
    then have "digits n = digits (n div 10) @ [of_nat (48 + n mod 10)]" by (simp add: digits.simps [of n])
    moreover have "0 < n div 10" using False by (simp add: div_greater_zero_iff)
    ultimately show ?thesis using 1(1) [OF False] by simp
  qed
qed

lemma decimals_shape: "decimals n \<noteq> []" "\<not> (length (decimals n) > 1 \<and> hd (decimals n) = 48)"
proof -
  show "decimals n \<noteq> []" by (simp add: decimals_def)
  have "length (digits n) = 1" if "n = 0" using that by (simp add: digits.simps)
  moreover have "unat (hd (digits n)) \<noteq> 48" if "0 < n"
    using digits_first_nonzero [OF that] by (simp add: word_unat_eq_iff)
  ultimately show "\<not> (length (decimals n) > 1 \<and> hd (decimals n) = 48)"
    by (cases "n = 0") (simp_all add: decimals_def hd_map)
qed

lemma decimals_first: "is_dec (hd (decimals n))"
  using decimals_dec [of n] decimals_shape(1) [of n] by (cases "decimals n") auto

lemma json_literal_number:
  assumes "s \<noteq> []" and "is_dec (hd s) \<or> hd s = 45"
  shows "json_literal s = do { (v, r) \<leftarrow> json_number s; Some (JNumber v, r) }"
  using assms by (cases s) (auto simp: json_literal_def js_def is_dec_def)

lemma stops_not_number:
  "stops rest \<Longrightarrow> rest = [] \<or> (\<not> is_dec (hd rest) \<and> hd rest \<noteq> 46 \<and> hd rest \<noteq> 101 \<and> hd rest \<noteq> 69)"
  by (auto simp: stops_def is_dec_def)

lemma reads_number:
  assumes "s \<noteq> []" and "is_dec (hd s)"
    and "\<And>rest. stops rest \<Longrightarrow> json_number (s @ rest) = Some (v, rest)"
  shows "reads_as s (JNumber v)"
proof -
  have "json_value n (s @ rest) = Some (JNumber v, rest)" if n: "2 * length s \<le> n" and r: "stops rest" for n rest
  proof -
    obtain n' where n': "n = Suc n'" using n assms(1) by (cases n) simp_all
    have h: "hd (s @ rest) = hd s" using assms(1) by simp
    have "json_value n (s @ rest) = json_literal (s @ rest)"
      unfolding n' using assms(1,2) by (intro value_other) (auto simp: h is_dec_def is_ws_def)
    also have "\<dots> = Some (JNumber v, rest)"
      using json_literal_number [of "s @ rest"] assms h r by simp
    finally show ?thesis .
  qed
  then show ?thesis using assms(1,2) by (auto simp: reads_as_def is_dec_def is_ws_def)
qed

lemma reads_decimals: "reads_as (decimals n) (JNumber (of_nat n))"
proof (rule reads_number [OF decimals_shape(1) decimals_first])
  fix rest
  assume "stops rest"
  then have r: "rest = [] \<or> (\<not> is_dec (hd rest) \<and> hd rest \<noteq> 46 \<and> hd rest \<noteq> 101 \<and> hd rest \<noteq> 69)"
    by (rule stops_not_number)
  have "hd (decimals n) \<noteq> 45" using decimals_first [of n] by (auto simp: is_dec_def)
  moreover have "takeWhile is_dec (decimals n @ rest) = decimals n"
    using r by (intro takeWhile_dec decimals_dec) auto
  ultimately show "json_number (decimals n @ rest) = Some (of_nat n, rest)"
    using r decimals_shape [of n]
    by (auto simp: json_number_def Let_def json_fraction_def json_exponent_def dec_value_decimals)
qed

lemma reads_fraction:
  assumes "list_all is_dec fs" and "fs \<noteq> []"
  shows "reads_as (decimals n @ 46 # fs) (JNumber (of_nat n + of_nat (dec_value fs) / 10 ^ length fs))"
proof (rule reads_number)
  show "decimals n @ 46 # fs \<noteq> []" by simp
  show "is_dec (hd (decimals n @ 46 # fs))" using decimals_first decimals_shape(1) by simp
  fix rest
  assume "stops rest"
  then have r: "rest = [] \<or> (\<not> is_dec (hd rest) \<and> hd rest \<noteq> 46 \<and> hd rest \<noteq> 101 \<and> hd rest \<noteq> 69)"
    by (rule stops_not_number)
  have "hd (decimals n) \<noteq> 45" using decimals_first [of n] by (auto simp: is_dec_def)
  moreover have "takeWhile is_dec (decimals n @ 46 # fs @ rest) = decimals n"
    by (intro takeWhile_dec decimals_dec) (simp add: is_dec_def)
  moreover have "takeWhile is_dec (fs @ rest) = fs" using r by (intro takeWhile_dec assms(1)) auto
  ultimately show "json_number ((decimals n @ 46 # fs) @ rest)
      = Some (of_nat n + of_nat (dec_value fs) / 10 ^ length fs, rest)"
    using r decimals_shape [of n] assms(2)
    by (auto simp: json_number_def Let_def json_fraction_def json_exponent_def dec_value_decimals)
qed

section \<open>UTF-8\<close>

definition is_lead :: "nat \<Rightarrow> bool" where
  "is_lead c \<longleftrightarrow> 0xD800 \<le> c \<and> c \<le> 0xDBFF"

definition is_trail :: "nat \<Rightarrow> bool" where
  "is_trail c \<longleftrightarrow> 0xDC00 \<le> c \<and> c \<le> 0xDFFF"

definition utf8_point :: "nat \<Rightarrow> byte list" where
  "utf8_point p =
    (if p < 0x80 then [of_nat p]
     else if p < 0x800 then [of_nat (0xC0 + p div 64), of_nat (0x80 + p mod 64)]
     else if p < 0x10000 then
       [of_nat (0xE0 + p div 4096), of_nat (0x80 + p div 64 mod 64), of_nat (0x80 + p mod 64)]
     else [of_nat (0xF0 + p div 262144), of_nat (0x80 + p div 4096 mod 64),
           of_nat (0x80 + p div 64 mod 64), of_nat (0x80 + p mod 64)])"

text \<open>A surrogate without its partner becomes U+FFFD.\<close>

fun utf8_encode :: "js_string \<Rightarrow> byte list" where
  "utf8_encode [] = []"
| "utf8_encode [c] = utf8_point (if is_lead c \<or> is_trail c then 0xFFFD else c)"
| "utf8_encode (c # d # cs) =
    (if is_lead c \<and> is_trail d then utf8_point (0x10000 + (c - 0xD800) * 1024 + (d - 0xDC00)) @ utf8_encode cs
     else utf8_point (if is_lead c \<or> is_trail c then 0xFFFD else c) @ utf8_encode (d # cs))"

lemma utf8_ascii_Cons: "c < 128 \<Longrightarrow> utf8_encode (c # cs) = of_nat c # utf8_encode cs"
  by (cases cs) (simp_all add: is_lead_def is_trail_def utf8_point_def)

lemma utf8_ascii: "list_all (\<lambda>c. c < 128) s \<Longrightarrow> utf8_encode (s @ t) = map of_nat s @ utf8_encode t"
  by (induction s) (simp_all add: utf8_ascii_Cons)

text \<open>Only an ASCII text is encoded as ASCII bytes.\<close>

lemma utf8_point_first:
  assumes "128 \<le> p" "p < 0x110000"
  shows "\<exists>b bs. utf8_point p = b # bs \<and> 128 \<le> unat b"
proof -
  have first: "128 \<le> unat (of_nat k :: byte)" if "128 \<le> k" "k < 256" for k
    using that unat_of_nat_word [where 'a = 8, of k] by simp
  consider (two) "p < 0x800" | (three) "0x800 \<le> p" "p < 0x10000" | (four) "0x10000 \<le> p" by linarith
  then show ?thesis
  proof cases
    case two
    then have "p div 64 < 32" by (simp add: less_mult_imp_div_less)
    with first [of "0xC0 + p div 64"] two assms(1) show ?thesis by (simp add: utf8_point_def del: of_nat_add)
  next
    case three
    then have "p div 4096 < 16" by (simp add: less_mult_imp_div_less)
    with first [of "0xE0 + p div 4096"] three show ?thesis by (simp add: utf8_point_def del: of_nat_add)
  next
    case four
    then have "p div 262144 < 5" using assms(2) by (simp add: less_mult_imp_div_less)
    with first [of "0xF0 + p div 262144"] four show ?thesis by (simp add: utf8_point_def del: of_nat_add)
  qed
qed

lemma utf8_first_high:
  assumes "128 \<le> c" "c < 65536"
  shows "\<exists>b bs. utf8_encode (c # cs) = b # bs \<and> 128 \<le> unat b"
proof -
  have single: "\<exists>b bs. utf8_point (if is_lead c \<or> is_trail c then 0xFFFD else c) = b # bs \<and> 128 \<le> unat b"
    using assms by (intro utf8_point_first) auto
  have pair: "\<exists>b bs. utf8_point (0x10000 + (c - 0xD800) * 1024 + (d - 0xDC00)) = b # bs \<and> 128 \<le> unat b"
    if "is_lead c" "is_trail d" for d
    using that by (intro utf8_point_first) (auto simp: is_lead_def is_trail_def)
  show ?thesis
  proof (cases cs)
    case Nil
    then show ?thesis using single by simp
  next
    case (Cons d ds)
    have app: "\<exists>b bs. x @ y = b # bs \<and> 128 \<le> unat b" if "\<exists>b bs. x = b # bs \<and> 128 \<le> unat b" for x y :: "byte list"
      using that by auto
    show ?thesis
    proof (cases "is_lead c \<and> is_trail d")
      case True
      then show ?thesis unfolding Cons utf8_encode.simps if_P [OF True] by (intro app pair) simp_all
    next
      case False
      then show ?thesis unfolding Cons utf8_encode.simps if_not_P [OF False] by (intro app single)
    qed
  qed
qed

lemma utf8_ascii_inverse:
  assumes "utf8_encode t = bs" and "list_all (\<lambda>b. unat b < 128) bs" and "list_all (\<lambda>c. c < 65536) t"
  shows "t = map unat bs"
  using assms
proof (induction t arbitrary: bs)
  case Nil
  then show ?case by simp
next
  case (Cons c cs)
  have "c < 128"
  proof (rule ccontr)
    assume "\<not> c < 128"
    then obtain b bs' where "utf8_encode (c # cs) = b # bs'" "128 \<le> unat b"
      using utf8_first_high [of c cs] Cons.prems(3) by auto
    then show False using Cons.prems(1,2) by auto
  qed
  then have bs: "bs = of_nat c # utf8_encode cs" using Cons.prems(1) by (simp add: utf8_ascii_Cons)
  then have "cs = map unat (utf8_encode cs)" using Cons by simp
  moreover have "unat (of_nat c :: byte) = c" using \<open>c < 128\<close> by (simp add: unat_of_nat)
  ultimately show ?case using bs by simp
qed

end
