(* ===== verification/Offer.thy ===== *)
theory Offer
  imports Json
begin

text \<open>
  The negotiation seen from the browser: how \<open>connectWebSocket\<close> of src/js/stream/StreamInstance.ts
  reads the media offer of the server, and the two answers it gives. A value that may be \<open>undefined\<close> is an \<open>option\<close>. The codec names
  that \<open>Object.prototype\<close> has as properties are outside the model.
\<close>

section \<open>Reading an offer\<close>

text \<open>A property of a value that is neither \<open>null\<close> nor \<open>undefined\<close>; of the keys used here only objects
  have any.\<close>

definition get_prop :: "json \<Rightarrow> js_string \<Rightarrow> json option" where
  "get_prop v k = (case v of JObject ms \<Rightarrow> map_of (rev ms) k | _ \<Rightarrow> None)"

definition truthy :: "json option \<Rightarrow> bool" where
  "truthy x \<longleftrightarrow> (case x of None \<Rightarrow> False | Some JNull \<Rightarrow> False | Some (JBool b) \<Rightarrow> b
     | Some (JNumber n) \<Rightarrow> n \<noteq> 0 | Some (JString s) \<Rightarrow> s \<noteq> [] | Some _ \<Rightarrow> True)"

text \<open>\<open>x || y\<close>\<close>

definition or_else :: "json option \<Rightarrow> json \<Rightarrow> json" where
  "or_else x y = (if truthy x then the x else y)"

text \<open>\<open>streams.find((s) => s.type === kind)\<close>; the outer \<open>None\<close> is a \<open>TypeError\<close>, the inner one
  \<open>undefined\<close>.\<close>

fun find_stream :: "js_string \<Rightarrow> json list \<Rightarrow> json option option" where
  "find_stream kind [] = Some None"
| "find_stream kind (s # ss) =
    (if s = JNull then None
     else if get_prop s (js ''type'') = Some (JString kind) then Some (Some s)
     else find_stream kind ss)"

text \<open>\<open>msg.payload?.streams || []\<close>; \<open>None\<close> if that is no array, which has no \<open>find\<close>.\<close>

definition offer_streams :: "json \<Rightarrow> json list option" where
  "offer_streams msg =
    (let streams = (case get_prop msg (js ''payload'') of None \<Rightarrow> None | Some JNull \<Rightarrow> None
                    | Some p \<Rightarrow> get_prop p (js ''streams''))
     in case or_else streams (JArray []) of JArray ss \<Rightarrow> Some ss | _ \<Rightarrow> None)"

text \<open>The key that \<open>audioCodecMap[codec]\<close> looks up: strings, and arrays of one, which JavaScript turns
  into the string of their element. No other value is turned into one of the keys.\<close>

fun codec_key :: "json \<Rightarrow> js_string option" where
  "codec_key (JString s) = Some s"
| "codec_key (JArray [v]) = codec_key v"
| "codec_key _ = None"

definition audioCodecMap :: "js_string \<Rightarrow> js_string option" where
  "audioCodecMap = map_of [(js ''aac'', js ''aac''), (js ''pcm_alaw'', js ''g711a''),
     (js ''pcm_mulaw'', js ''g711u''), (js ''g726'', js ''g726'')]"

record audio_config =
  audioCodecType :: js_string
  ac_sampleRate :: json
  ac_channels :: json

definition audio_config_of :: "json \<Rightarrow> audio_config option" where
  "audio_config_of audioStream = do {
     codec \<leftarrow> get_prop audioStream (js ''codec'');
     key \<leftarrow> codec_key codec;
     codecType \<leftarrow> audioCodecMap key;
     Some \<lparr>audioCodecType = codecType,
           ac_sampleRate = or_else (get_prop audioStream (js ''sampleRate'')) (JNumber 44100),
           ac_channels = or_else (get_prop audioStream (js ''channels'')) (JNumber 2)\<rparr>
   }"

text \<open>The reaction to a text that arrives before the negotiation is over: nothing, a \<open>TypeError\<close>, or
  the start of the decoders with a video codec and the audio configuration.\<close>

datatype offer_reaction = Ignored | Thrown | Offered json "audio_config option"

definition read_offer :: "js_string \<Rightarrow> offer_reaction" where
  "read_offer dat =
    (case JSON_parse dat of None \<Rightarrow> Ignored
     | Some msg \<Rightarrow>
        if msg = JNull then Thrown
        else if get_prop msg (js ''type'') \<noteq> Some (JString (js ''media-offer'')) then Ignored
        else (case offer_streams msg of None \<Rightarrow> Thrown
          | Some streams \<Rightarrow>
             (case (find_stream (js ''video'') streams, find_stream (js ''audio'') streams) of
                (Some videoStream, Some audioStream) \<Rightarrow>
                  Offered (or_else (Option.bind videoStream (\<lambda>s. get_prop s (js ''codec''))) (JString (js ''h264'')))
                    (Option.bind audioStream audio_config_of)
              | _ \<Rightarrow> Thrown)))"

section \<open>The answers\<close>

text \<open>\<open>JSON.stringify\<close> of a string: the escapes with a letter, control characters and surrogates
  without a partner as the letter u escaped and four hexadecimal digits.\<close>

definition hex_char :: "nat \<Rightarrow> nat" where
  "hex_char d = (if d < 10 then 48 + d else 87 + d)"

definition unicode_escape :: "nat \<Rightarrow> js_string" where
  "unicode_escape c = [92, 117, hex_char (c div 4096 mod 16), hex_char (c div 256 mod 16),
     hex_char (c div 16 mod 16), hex_char (c mod 16)]"

definition quote_char :: "nat \<Rightarrow> js_string" where
  "quote_char c = (case map_of [(8, 98), (9, 116), (10, 110), (12, 102), (13, 114), (34, 34), (92, 92)] c of
       Some e \<Rightarrow> [92, e]
     | None \<Rightarrow> if c < 32 \<or> is_lead c \<or> is_trail c then unicode_escape c else [c])"

fun quote_chars :: "js_string \<Rightarrow> js_string" where
  "quote_chars [] = []"
| "quote_chars [c] = quote_char c"
| "quote_chars (c # d # cs) =
    (if is_lead c \<and> is_trail d then c # d # quote_chars cs else quote_char c @ quote_chars (d # cs))"

definition json_quote :: "js_string \<Rightarrow> js_string" where
  "json_quote s = 34 # quote_chars s @ [34]"

definition accepting_answer :: js_string where
  "accepting_answer = object_text [(js ''type'', json_quote (js ''media-answer'')),
     (js ''payload'', object_text [(js ''accepted'', js ''true'')])]"

definition rejecting_answer :: "js_string \<Rightarrow> js_string" where
  "rejecting_answer reason = object_text [(js ''type'', json_quote (js ''media-answer'')),
     (js ''payload'', object_text [(js ''accepted'', js ''false''), (js ''reason'', json_quote reason)])]"

lemma quote_plain:
  assumes "list_all (\<lambda>c. 32 \<le> c \<and> c < 128 \<and> c \<noteq> 34 \<and> c \<noteq> 92) s"
  shows "json_quote s = quoted s"
proof -
  have "quote_chars s = s"
    using assms by (induction s rule: quote_chars.induct) (auto simp: quote_char_def is_lead_def is_trail_def)
  then show ?thesis by (simp add: json_quote_def quoted_def)
qed

lemma answer_type: "json_quote (js ''media-answer'') = quoted (js ''media-answer'')"
  by (rule quote_plain) (simp add: js_def)

lemma accepting_text: "accepting_answer = js ''{\"type\":\"media-answer\",\"payload\":{\"accepted\":true}}''"
  unfolding accepting_answer_def answer_type by (simp add: object_text_def quoted_def js_def)

lemma rejecting_text: "rejecting_answer reason =
    js ''{\"type\":\"media-answer\",\"payload\":{\"accepted\":false,\"reason\":'' @ json_quote reason @ js ''}}''"
  unfolding rejecting_answer_def answer_type by (simp add: object_text_def quoted_def js_def)

lemma utf8_literal: "list_all (\<lambda>c. of_char c < (128 :: nat)) s \<Longrightarrow> utf8_encode (js s @ t) = str s @ utf8_encode t"
  by (simp add: utf8_ascii js_def str_def list_all_iff of_nat_of_char)

lemma accepting_bytes: "utf8_encode accepting_answer = str ''{\"type\":\"media-answer\",\"payload\":{\"accepted\":true}}''"
  using utf8_literal [of "''{\"type\":\"media-answer\",\"payload\":{\"accepted\":true}}''" "[]"]
  by (simp add: accepting_text)

lemma rejecting_bytes: "\<exists>rest. utf8_encode (rejecting_answer reason)
    = str ''{\"type\":\"media-answer\",\"payload\":{\"accepted\":false,\"reason\":'' @ rest"
  using utf8_literal [of "''{\"type\":\"media-answer\",\"payload\":{\"accepted\":false,\"reason\":''"]
  by (simp add: rejecting_text)

text \<open>How the server reads the answers.\<close>

lemma accepting_read:
  "ExtractJsonString (utf8_encode accepting_answer) (str ''type'') = str ''media-answer''"
  "ExtractJsonBool (utf8_encode accepting_answer) (str ''accepted'') False"
  unfolding accepting_bytes by code_simp+

lemma rejecting_read:
  "ExtractJsonString (utf8_encode (rejecting_answer reason)) (str ''type'') = str ''media-answer''"
  "\<not> ExtractJsonBool (utf8_encode (rejecting_answer reason)) (str ''accepted'') False"
proof -
  obtain rest where r: "utf8_encode (rejecting_answer reason)
    = str ''{\"type\":\"media-answer\",\"payload\":{\"accepted\":false,\"reason\":'' @ rest"
    using rejecting_bytes by blast
  have s: "first_at (str ''{'') ([quote] @ str ''type'' @ [quote]) ([] @ [colon] @ [] @ [quote] @ str ''media-answer''
      @ [quote] @ (str '',\"payload\":{\"accepted\":false,\"reason\":'' @ rest))"
    by (simp add: first_at_def str_def quote_def colon_def)
  show "ExtractJsonString (utf8_encode (rejecting_answer reason)) (str ''type'') = str ''media-answer''"
    using ExtractJsonString_field [OF s] unfolding r by (simp add: str_def quote_def colon_def)
  have b: "first_at (str ''{\"type\":\"media-answer\",\"payload\":{'') ([quote] @ str ''accepted'' @ [quote])
      ([] @ [colon] @ [] @ str (if False then ''true'' else ''false'') @ (str '',\"reason\":'' @ rest))"
    by (simp add: first_at_def str_def quote_def colon_def)
  show "\<not> ExtractJsonBool (utf8_encode (rejecting_answer reason)) (str ''accepted'') False"
    using ExtractJsonBool_field [OF b, of False] unfolding r by (simp add: str_def quote_def colon_def)
qed

text \<open>The smallest offer that is one.\<close>

definition small_offer :: js_string where
  "small_offer = js ''{\"type\":\"media-offer\"}''"

lemma small_offer_read: "read_offer small_offer = Offered (JString (js ''h264'')) None"
proof -
  have "JSON_parse small_offer = Some (JObject [(js ''type'', JString (js ''media-offer''))])"
  proof (rule JSON_parse_text)
    have "reads_as (object_text (map (\<lambda>(k, s, v). (k, s)) [(js ''type'', quoted (js ''media-offer''), JString (js ''media-offer''))]))
      (JObject (map (\<lambda>(k, s, v). (k, v)) [(js ''type'', quoted (js ''media-offer''), JString (js ''media-offer''))]))"
      by (rule reads_object) (simp add: reads_quoted plain_def js_def)
    then show "reads_as small_offer (JObject [(js ''type'', JString (js ''media-offer''))])"
      by (simp add: small_offer_def object_text_def quoted_def js_def)
  qed
  then show ?thesis
    by (simp add: read_offer_def get_prop_def offer_streams_def or_else_def truthy_def js_def)
qed

end
