(* ===== verification/BufferQueue.thy ===== *)
theory BufferQueue
  imports Prelude "HOL-Library.Sublist"
begin

text \<open>
  The queue between the socket of the browser and its decoder: src/js/buffer/DataBufferQueue.ts.
  Times are milliseconds of \<open>Date.now()\<close>. The usage percentages are not modelled.
\<close>

datatype message_data = ArrayBuffer "byte list" | Blob "byte list"

fun data_bytes :: "message_data \<Rightarrow> byte list" where
  "data_bytes (ArrayBuffer b) = b"
| "data_bytes (Blob b) = b"

definition data_size :: "message_data \<Rightarrow> int" where
  "data_size d = int (length (data_bytes d))"

record data_packet =
  pk_data :: message_data
  pk_timestamp :: int
  pk_size :: int

record queue_stats =
  totalEnqueued :: int
  totalDequeued :: int
  totalOverflows :: int
  totalBytesEnqueued :: int
  totalBytesDequeued :: int
  totalBytesDropped :: int

record buffer_queue =
  maxSize :: int
  maxBytes :: int
  queue :: "data_packet list"
  currentBytes :: int
  q_stats :: queue_stats

text \<open>\<open>config.maxSize || 100\<close>: 0 and \<open>undefined\<close> mean the default.\<close>

definition or_default :: "int option \<Rightarrow> int \<Rightarrow> int" where
  "or_default x d = (case x of None \<Rightarrow> d | Some n \<Rightarrow> if n = 0 then d else n)"

definition new_queue :: "int option \<Rightarrow> int option \<Rightarrow> buffer_queue" where
  "new_queue ms mb = \<lparr>maxSize = or_default ms 100, maxBytes = or_default mb (10 * 1024 * 1024),
     queue = [], currentBytes = 0,
     q_stats = \<lparr>totalEnqueued = 0, totalDequeued = 0, totalOverflows = 0, totalBytesEnqueued = 0,
       totalBytesDequeued = 0, totalBytesDropped = 0\<rparr>\<rparr>"

definition drop_oldest :: "buffer_queue \<Rightarrow> buffer_queue" where
  "drop_oldest q = (case queue q of [] \<Rightarrow> q
     | dropped # rest \<Rightarrow>
        let droppedSize = data_size (pk_data dropped)
        in q\<lparr>queue := rest, currentBytes := currentBytes q - droppedSize,
             q_stats := (q_stats q)\<lparr>totalOverflows := totalOverflows (q_stats q) + 1,
               totalBytesDropped := totalBytesDropped (q_stats q) + droppedSize\<rparr>\<rparr>)"

definition enqueue :: "int \<Rightarrow> message_data \<Rightarrow> buffer_queue \<Rightarrow> buffer_queue" where
  "enqueue now d q =
    (let dataSize = data_size d;
         q1 = (if int (length (queue q)) \<ge> maxSize q \<or> currentBytes q + dataSize > maxBytes q
               then drop_oldest q else q)
     in q1\<lparr>queue := queue q1 @ [\<lparr>pk_data = d, pk_timestamp = now, pk_size = dataSize\<rparr>],
           currentBytes := currentBytes q1 + dataSize,
           q_stats := (q_stats q1)\<lparr>totalEnqueued := totalEnqueued (q_stats q1) + 1,
             totalBytesEnqueued := totalBytesEnqueued (q_stats q1) + dataSize\<rparr>\<rparr>)"

definition dequeue :: "buffer_queue \<Rightarrow> data_packet option \<times> buffer_queue" where
  "dequeue q = (case queue q of [] \<Rightarrow> (None, q)
     | packet # rest \<Rightarrow>
        (Some packet, q\<lparr>queue := rest, currentBytes := currentBytes q - pk_size packet,
           q_stats := (q_stats q)\<lparr>totalDequeued := totalDequeued (q_stats q) + 1,
             totalBytesDequeued := totalBytesDequeued (q_stats q) + pk_size packet\<rparr>\<rparr>))"

definition peek :: "buffer_queue \<Rightarrow> data_packet option" where
  "peek q = (case queue q of [] \<Rightarrow> None | packet # rest \<Rightarrow> Some packet)"

definition clear_queue :: "buffer_queue \<Rightarrow> buffer_queue" where
  "clear_queue q = q\<lparr>queue := [], currentBytes := 0\<rparr>"

definition isEmpty :: "buffer_queue \<Rightarrow> bool" where
  "isEmpty q \<longleftrightarrow> queue q = []"

definition isFull :: "buffer_queue \<Rightarrow> bool" where
  "isFull q \<longleftrightarrow> int (length (queue q)) \<ge> maxSize q \<or> currentBytes q \<ge> maxBytes q"

section \<open>What a queue promises\<close>

text \<open>
  A buffer that may forget its oldest packet when one is added, as the pump of the player sees it:
  \<open>contents\<close> are the packets it holds, oldest first.
\<close>

locale lossy_queue =
  fixes enq :: "int \<Rightarrow> 'd \<Rightarrow> 'q \<Rightarrow> 'q"
    and deq :: "'q \<Rightarrow> 'p option \<times> 'q"
    and make :: "int \<Rightarrow> 'd \<Rightarrow> 'p"
    and contents :: "'q \<Rightarrow> 'p list"
    and inv :: "'q \<Rightarrow> bool"
  assumes enq_inv: "inv q \<Longrightarrow> inv (enq t d q)"
    and deq_inv: "inv q \<Longrightarrow> inv (snd (deq q))"
    and enq_contents: "inv q \<Longrightarrow> \<exists>k\<le>1. contents (enq t d q) = drop k (contents q) @ [make t d]"
    and deq_none: "inv q \<Longrightarrow> contents q = [] \<Longrightarrow> fst (deq q) = None \<and> contents (snd (deq q)) = []"
    and deq_some: "inv q \<Longrightarrow> contents q = p # ps \<Longrightarrow> fst (deq q) = Some p \<and> contents (snd (deq q)) = ps"

datatype 'd queue_op = Put int 'd | Take

context lossy_queue
begin

fun run_op :: "'d queue_op \<Rightarrow> 'p list \<times> 'q \<Rightarrow> 'p list \<times> 'q" where
  "run_op (Put t d) (out, q) = (out, enq t d q)"
| "run_op Take (out, q) = (case deq q of (None, q') \<Rightarrow> (out, q') | (Some p, q') \<Rightarrow> (out @ [p], q'))"

fun put_packets :: "'d queue_op list \<Rightarrow> 'p list" where
  "put_packets [] = []"
| "put_packets (Put t d # os) = make t d # put_packets os"
| "put_packets (Take # os) = put_packets os"

lemma run_op_ordered:
  assumes "inv q"
  shows "inv (snd (run_op op (out, q)))"
    and "subseq (fst (run_op op (out, q)) @ contents (snd (run_op op (out, q))))
      (out @ contents q @ put_packets [op])"
proof -
  show "inv (snd (run_op op (out, q)))"
    using enq_inv [OF assms] deq_inv [OF assms] by (cases op) (auto split: prod.splits option.splits)
  show "subseq (fst (run_op op (out, q)) @ contents (snd (run_op op (out, q))))
      (out @ contents q @ put_packets [op])"
  proof (cases op)
    case (Put t d)
    obtain k where "contents (enq t d q) = drop k (contents q) @ [make t d]"
      using enq_contents [OF assms] by blast
    moreover have "subseq (drop k (contents q)) (contents q)" by (simp add: suffix_drop suffix_imp_subseq)
    ultimately show ?thesis using Put by (simp add: list_emb_append_mono)
  next
    case Take
    then show ?thesis
      using deq_none [OF assms] deq_some [OF assms]
      by (cases "contents q") (auto split: prod.splits option.splits)
  qed
qed

text \<open>What has come out and what is inside was put in, in this order; some packets may be forgotten.\<close>

lemma run_ordered:
  assumes "inv q"
  shows "inv (snd (fold run_op ops (out, q)))
    \<and> subseq (fst (fold run_op ops (out, q)) @ contents (snd (fold run_op ops (out, q))))
      (out @ contents q @ put_packets ops)"
  using assms
proof (induction ops arbitrary: out q)
  case Nil
  then show ?case by simp
next
  case (Cons op ops)
  obtain out1 q1 where r: "run_op op (out, q) = (out1, q1)" by fastforce
  have q1: "inv q1" "subseq (out1 @ contents q1) (out @ contents q @ put_packets [op])"
    using run_op_ordered [OF Cons.prems, of op out] by (simp_all add: r)
  have p: "put_packets (op # ops) = put_packets [op] @ put_packets ops" by (cases op) simp_all
  have "subseq (out1 @ contents q1 @ put_packets ops) (out @ contents q @ put_packets (op # ops))"
    using list_emb_append_mono [OF q1(2) subseq_order.order_refl [of "put_packets ops"]] by (simp add: p)
  with Cons.IH [OF q1(1), of out1] show ?case by (auto simp: r intro: subseq_order.trans)
qed

end

section \<open>The queue keeps it\<close>

definition queue_inv :: "buffer_queue \<Rightarrow> bool" where
  "queue_inv q \<longleftrightarrow> list_all (\<lambda>p. pk_size p = data_size (pk_data p)) (queue q)
     \<and> currentBytes q = sum_list (map pk_size (queue q))
     \<and> 1 \<le> maxSize q \<and> int (length (queue q)) \<le> maxSize q"

text \<open>What was put in was taken out, dropped, or is still there; true as long as the queue is not
  cleared.\<close>

definition balanced :: "buffer_queue \<Rightarrow> bool" where
  "balanced q \<longleftrightarrow>
     totalEnqueued (q_stats q) = totalDequeued (q_stats q) + totalOverflows (q_stats q) + int (length (queue q))
     \<and> totalBytesEnqueued (q_stats q)
        = totalBytesDequeued (q_stats q) + totalBytesDropped (q_stats q) + currentBytes q"

definition packet_of :: "int \<Rightarrow> message_data \<Rightarrow> data_packet" where
  "packet_of t d = \<lparr>pk_data = d, pk_timestamp = t, pk_size = data_size d\<rparr>"

lemma new_queue_inv: "case ms of None \<Rightarrow> True | Some n \<Rightarrow> 0 \<le> n \<Longrightarrow> queue_inv (new_queue ms mb) \<and> balanced (new_queue ms mb)"
  by (auto simp: queue_inv_def new_queue_def or_default_def balanced_def split: option.splits)

lemma drop_oldest_queue: "queue (drop_oldest q) = tl (queue q)" "maxSize (drop_oldest q) = maxSize q"
  "maxBytes (drop_oldest q) = maxBytes q"
  by (simp_all add: drop_oldest_def Let_def split: list.splits)

lemma drop_oldest_inv: "queue_inv q \<Longrightarrow> queue_inv (drop_oldest q)" "balanced q \<Longrightarrow> balanced (drop_oldest q)"
  by (auto simp: queue_inv_def drop_oldest_def balanced_def Let_def split: list.splits)

lemma enqueue_queue:
  "queue (enqueue t d q) = (if int (length (queue q)) \<ge> maxSize q \<or> currentBytes q + data_size d > maxBytes q
     then tl (queue q) else queue q) @ [packet_of t d]"
  by (simp add: enqueue_def Let_def drop_oldest_queue packet_of_def)

lemma enqueue_inv:
  assumes "queue_inv q"
  shows "queue_inv (enqueue t d q)"
proof -
  define q1 where "q1 = (if int (length (queue q)) \<ge> maxSize q \<or> currentBytes q + data_size d > maxBytes q
    then drop_oldest q else q)"
  have q1: "queue_inv q1" using assms drop_oldest_inv(1) by (simp add: q1_def)
  have e: "enqueue t d q = q1\<lparr>queue := queue q1 @ [packet_of t d], currentBytes := currentBytes q1 + data_size d,
      q_stats := (q_stats q1)\<lparr>totalEnqueued := totalEnqueued (q_stats q1) + 1,
        totalBytesEnqueued := totalBytesEnqueued (q_stats q1) + data_size d\<rparr>\<rparr>"
    by (simp add: enqueue_def q1_def Let_def packet_of_def)
  have "int (length (queue q1)) + 1 \<le> maxSize q"
    using assms by (auto simp: q1_def drop_oldest_queue queue_inv_def of_nat_diff)
  moreover have "maxSize q1 = maxSize q" by (simp add: q1_def drop_oldest_queue)
  ultimately show ?thesis using q1 by (simp add: e queue_inv_def packet_of_def)
qed

lemma enqueue_balanced: "balanced q \<Longrightarrow> balanced (enqueue t d q)"
  using drop_oldest_inv(2) by (auto simp: enqueue_def balanced_def Let_def)

lemma dequeue_inv: "queue_inv q \<Longrightarrow> queue_inv (snd (dequeue q))"
  by (auto simp: queue_inv_def dequeue_def split: list.splits)

lemma dequeue_balanced: "balanced q \<Longrightarrow> balanced (snd (dequeue q))"
  by (auto simp: balanced_def dequeue_def split: list.splits)

interpretation buffer: lossy_queue enqueue dequeue packet_of queue queue_inv
proof
  fix q t d
  assume q: "queue_inv q"
  show "queue_inv (enqueue t d q)" by (rule enqueue_inv [OF q])
  show "queue_inv (snd (dequeue q))" by (rule dequeue_inv [OF q])
  show "\<exists>k\<le>1. queue (enqueue t d q) = drop k (queue q) @ [packet_of t d]"
    by (auto simp: enqueue_queue drop_Suc intro: exI [of _ 1] exI [of _ 0])
next
  fix q
  show "queue q = [] \<Longrightarrow> fst (dequeue q) = None \<and> queue (snd (dequeue q)) = []" by (simp add: dequeue_def)
  fix p ps
  show "queue q = p # ps \<Longrightarrow> fst (dequeue q) = Some p \<and> queue (snd (dequeue q)) = ps" by (simp add: dequeue_def)
qed

text \<open>Any sequence of operations on a new queue.\<close>

fun queue_apply :: "message_data queue_op \<Rightarrow> data_packet list \<times> buffer_queue \<Rightarrow> data_packet list \<times> buffer_queue" where
  "queue_apply (Put t d) (out, q) = (out, enqueue t d q)"
| "queue_apply Take (out, q) = (case dequeue q of (None, q') \<Rightarrow> (out, q') | (Some p, q') \<Rightarrow> (out @ [p], q'))"

definition queue_run :: "message_data queue_op list \<Rightarrow> buffer_queue \<Rightarrow> data_packet list \<times> buffer_queue" where
  "queue_run ops q = fold queue_apply ops ([], q)"

fun puts :: "message_data queue_op list \<Rightarrow> data_packet list" where
  "puts [] = []"
| "puts (Put t d # os) = packet_of t d # puts os"
| "puts (Take # os) = puts os"

lemma queue_apply_eq: "queue_apply = buffer.run_op"
proof (intro ext)
  fix op r
  show "queue_apply op r = buffer.run_op op r" by (cases op; cases r) simp_all
qed

lemma puts_eq: "puts = buffer.put_packets"
proof
  fix ops
  show "puts ops = buffer.put_packets ops" by (induction ops rule: puts.induct) simp_all
qed

lemma queue_run_balanced: "balanced q \<Longrightarrow> balanced (snd (fold queue_apply ops (out, q)))"
proof (induction ops arbitrary: out q)
  case (Cons op ops)
  have "balanced (snd (queue_apply op (out, q)))"
    using Cons.prems enqueue_balanced dequeue_balanced [OF Cons.prems]
    by (cases op) (auto split: prod.splits option.splits)
  then show ?case using Cons.IH by (cases "queue_apply op (out, q)") simp
qed simp

lemma queue_run_maxSize: "maxSize (snd (fold queue_apply ops (out, q))) = maxSize q"
proof (induction ops arbitrary: out q)
  case (Cons op ops)
  have "maxSize (snd (queue_apply op (out, q))) = maxSize q"
    by (cases op) (auto simp: enqueue_def dequeue_def Let_def drop_oldest_queue split: list.splits)
  then show ?case using Cons.IH by (cases "queue_apply op (out, q)") simp
qed simp

text \<open>C19: the queue between socket and decoder: whatever is put in and taken out, it never holds more
  packets than its maximum, what comes out and what is left are the packets put in, unchanged
  and in order except those dropped, its byte count is the size of what it holds, and its
  statistics account for every packet and every byte.\<close>

theorem buffer_queue_correct:
  assumes "queue_run ops (new_queue ms mb) = (out, q)" and "case ms of None \<Rightarrow> True | Some n \<Rightarrow> 0 \<le> n"
  shows "int (length (queue q)) \<le> or_default ms 100 \<and> subseq (out @ queue q) (puts ops)
    \<and> currentBytes q = sum_list (map (data_size \<circ> pk_data) (queue q))
    \<and> totalEnqueued (q_stats q) = totalDequeued (q_stats q) + totalOverflows (q_stats q) + int (length (queue q))
    \<and> totalBytesEnqueued (q_stats q)
        = totalBytesDequeued (q_stats q) + totalBytesDropped (q_stats q) + currentBytes q"
proof -
  let ?q = "new_queue ms mb"
  have q: "queue_inv ?q" "balanced ?q" using new_queue_inv [OF assms(2)] by simp_all
  have start: "queue ?q = []" "maxSize ?q = or_default ms 100" by (simp_all add: new_queue_def)
  have run: "fold buffer.run_op ops ([], ?q) = (out, q)" using assms(1) by (simp add: queue_run_def queue_apply_eq)
  have inv: "queue_inv q" and sub: "subseq (out @ queue q) (puts ops)"
    using buffer.run_ordered [OF q(1), of ops "[]"] unfolding run by (simp_all add: puts_eq start)
  have bal: "balanced q" using queue_run_balanced [OF q(2), of ops "[]"] by (simp only: queue_apply_eq run snd_conv)
  have ms: "maxSize q = or_default ms 100"
    using queue_run_maxSize [of ops "[]" ?q] by (simp only: queue_apply_eq run snd_conv start)
  have "map pk_size (queue q) = map (data_size \<circ> pk_data) (queue q)"
    using inv by (simp add: queue_inv_def list_all_iff)
  from arg_cong [OF this, of sum_list] have "sum_list (map pk_size (queue q)) = sum_list (map (data_size \<circ> pk_data) (queue q))" .
  then show ?thesis using inv sub bal ms by (simp add: queue_inv_def balanced_def del: map_map)
qed

text \<open>The bound on bytes is not kept: only one packet is dropped for a packet put in.\<close>

lemma byte_bound_not_kept:
  "currentBytes (snd (queue_run [Put 0 (ArrayBuffer [1]), Put 0 (ArrayBuffer [2]), Put 0 (ArrayBuffer [3, 4])]
     (new_queue None (Some 2)))) = 3"
  by code_simp

theorem buffer_queue_correct_witness:
  "\<exists>out q. queue_run [Put 0 (ArrayBuffer [1]), Put 1 (ArrayBuffer [2, 3]), Put 2 (ArrayBuffer [4]), Take]
      (new_queue (Some 2) None) = (out, q)
    \<and> map pk_data out = [ArrayBuffer [2, 3]] \<and> map pk_data (queue q) = [ArrayBuffer [4]]
    \<and> int (length (queue q)) \<le> 2 \<and> currentBytes q = sum_list (map (data_size \<circ> pk_data) (queue q))"
proof -
  let ?ops = "[Put 0 (ArrayBuffer [1]), Put 1 (ArrayBuffer [2, 3]), Put 2 (ArrayBuffer [4]), Take]"
  obtain out q where r: "queue_run ?ops (new_queue (Some 2) None) = (out, q)" by fastforce
  have "map pk_data (fst (queue_run ?ops (new_queue (Some 2) None))) = [ArrayBuffer [2, 3]]"
    "map pk_data (queue (snd (queue_run ?ops (new_queue (Some 2) None)))) = [ArrayBuffer [4]]" by code_simp+
  moreover have "int (length (queue q)) \<le> 2" "currentBytes q = sum_list (map (data_size \<circ> pk_data) (queue q))"
    using buffer_queue_correct [OF r] by (simp_all add: or_default_def)
  ultimately show ?thesis using r by auto
qed

end
