(* ===== verification/Playback.thy ===== *)
theory Playback
  imports Complex_Main "HOL-Library.Multiset" Prelude
begin

text \<open>
  Playback in the browser: src/js/audio/AudioPlayer.ts and src/js/audio/AVSync.ts. A JavaScript
  number is a rational, exact where it rounds; a sample is its 32 bits. The audio context is
  outside: its clock \<open>currentTime\<close>, in seconds, whether it is running and whether
  \<open>createBuffer\<close> supports a format are arguments, and what is started on it is recorded.
\<close>

record audio_frame =
  af_sampleRate :: int
  af_channels :: int
  af_nbSamples :: int
  af_pts :: rat
  af_data :: "u32 list"

record video_frame =
  vf_width :: int
  vf_height :: int
  vf_pts :: rat
  vf_duration :: rat
  vf_planes :: "byte list list"
  vf_strides :: "int list"

section \<open>The audio player\<close>

record scheduled =
  sc_start :: rat
  sc_rate :: int
  sc_planes :: "u32 list list"

record audio_player =
  has_audioCtx :: bool
  externalAudioCtx :: bool
  nextPlayTime :: rat
  baseTime :: rat
  basePts :: rat
  started :: "scheduled list"
  ctx_closed :: nat

text \<open>The constructor, with the time of the context it is given.\<close>

definition new_player :: "rat option \<Rightarrow> audio_player" where
  "new_player ctx = \<lparr>has_audioCtx = (ctx \<noteq> None), externalAudioCtx = (ctx \<noteq> None),
     nextPlayTime = (case ctx of None \<Rightarrow> 0 | Some t \<Rightarrow> t), baseTime = 0, basePts = - 1, started = [], ctx_closed = 0\<rparr>"

definition getClockTimeMs :: "rat \<Rightarrow> audio_player \<Rightarrow> rat" where
  "getClockTimeMs currentTime p =
    (if \<not> has_audioCtx p \<or> basePts p < 0 then - 1 else (currentTime - baseTime p) * 1000 + basePts p)"

definition isActive :: "bool \<Rightarrow> audio_player \<Rightarrow> bool" where
  "isActive running p \<longleftrightarrow> has_audioCtx p \<and> running \<and> basePts p \<ge> 0"

text \<open>An element behind the end of the data is \<open>undefined\<close>, stored as NaN.\<close>

definition nan_sample :: u32 where "nan_sample = 0x7FC00000"

definition deinterleave :: "audio_frame \<Rightarrow> u32 list list" where
  "deinterleave f =
    map (\<lambda>ch. map (\<lambda>i. let k = i * nat (af_channels f) + ch
                       in if k < length (af_data f) then af_data f ! k else nan_sample)
              [0..<nat (af_nbSamples f)])
        [0..<nat (af_channels f)]"

text \<open>Whether \<open>playFrame\<close> returns, and the player behind it; \<open>createBuffer\<close> throws for a format that is
  not supported, when the clock has been set already.\<close>

definition playFrame :: "(audio_frame \<Rightarrow> bool) \<Rightarrow> rat \<Rightarrow> audio_frame \<Rightarrow> audio_player \<Rightarrow> bool \<times> audio_player" where
  "playFrame supported currentTime f p =
    (let p1 = (if has_audioCtx p then p else p\<lparr>has_audioCtx := True, nextPlayTime := currentTime\<rparr>);
         p2 = (if basePts p1 < 0 then p1\<lparr>basePts := af_pts f, baseTime := currentTime, nextPlayTime := currentTime\<rparr>
               else p1)
     in if \<not> supported f then (False, p2)
        else let p3 = (if nextPlayTime p2 < currentTime then p2\<lparr>nextPlayTime := currentTime\<rparr> else p2)
             in (True, p3\<lparr>started := started p3 @ [\<lparr>sc_start = nextPlayTime p3, sc_rate = af_sampleRate f,
                             sc_planes = deinterleave f\<rparr>],
                          nextPlayTime := nextPlayTime p3 + of_int (af_nbSamples f) / of_int (af_sampleRate f)\<rparr>))"

definition destroy_player :: "audio_player \<Rightarrow> audio_player" where
  "destroy_player p = p\<lparr>ctx_closed := (if has_audioCtx p \<and> \<not> externalAudioCtx p then ctx_closed p + 1 else ctx_closed p),
     has_audioCtx := False, basePts := - 1, baseTime := 0, nextPlayTime := 0\<rparr>"

text \<open>Frames played at given times.\<close>

fun play_all :: "(audio_frame \<Rightarrow> bool) \<Rightarrow> (rat \<times> audio_frame) list \<Rightarrow> audio_player \<Rightarrow> audio_player" where
  "play_all supported [] p = p"
| "play_all supported ((t, f) # fs) p = play_all supported fs (snd (playFrame supported t f p))"

definition duration :: "audio_frame \<Rightarrow> rat" where
  "duration f = of_int (af_nbSamples f) / of_int (af_sampleRate f)"

text \<open>The specification: every frame starts when the one before it ends, or at once when that is past.\<close>

fun start_times :: "rat \<Rightarrow> (rat \<times> audio_frame) list \<Rightarrow> rat list" where
  "start_times free [] = []"
| "start_times free ((t, f) # fs) = max free t # start_times (max free t + duration f) fs"

lemma playFrame_first:
  assumes "basePts p < 0" and "supported f"
  shows "playFrame supported t f p = (True, p\<lparr>has_audioCtx := True, basePts := af_pts f, baseTime := t,
    started := started p @ [\<lparr>sc_start = t, sc_rate = af_sampleRate f, sc_planes = deinterleave f\<rparr>],
    nextPlayTime := t + duration f\<rparr>)"
  using assms by (cases "has_audioCtx p") (simp_all add: playFrame_def Let_def duration_def)

lemma playFrame_next:
  assumes "has_audioCtx p" and "\<not> basePts p < 0" and "supported f"
  shows "playFrame supported t f p = (True, p\<lparr>
    started := started p @ [\<lparr>sc_start = max (nextPlayTime p) t, sc_rate = af_sampleRate f, sc_planes = deinterleave f\<rparr>],
    nextPlayTime := max (nextPlayTime p) t + duration f\<rparr>)"
  using assms by (simp add: playFrame_def Let_def duration_def max_def)

lemma play_all_next:
  assumes "has_audioCtx p" and "\<not> basePts p < 0" and "list_all (\<lambda>(t, f). supported f) fs"
  shows "map sc_start (started (play_all supported fs p)) = map sc_start (started p) @ start_times (nextPlayTime p) fs
    \<and> map sc_planes (started (play_all supported fs p)) = map sc_planes (started p) @ map (deinterleave \<circ> snd) fs
    \<and> basePts (play_all supported fs p) = basePts p \<and> baseTime (play_all supported fs p) = baseTime p
    \<and> has_audioCtx (play_all supported fs p)"
  using assms
proof (induction fs arbitrary: p)
  case Nil
  then show ?case by simp
next
  case (Cons x fs)
  obtain t f where x: "x = (t, f)" by (cases x)
  let ?p = "snd (playFrame supported t f p)"
  have p: "?p = p\<lparr>
    started := started p @ [\<lparr>sc_start = max (nextPlayTime p) t, sc_rate = af_sampleRate f, sc_planes = deinterleave f\<rparr>],
    nextPlayTime := max (nextPlayTime p) t + duration f\<rparr>"
    using playFrame_next [OF Cons.prems(1,2)] Cons.prems(3) x by simp
  have "has_audioCtx ?p" "\<not> basePts ?p < 0" using Cons.prems(1,2) p by simp_all
  from Cons.IH [OF this] Cons.prems(3) show ?case by (simp add: x p)
qed

text \<open>A frame with a negative time stamp leaves the clock unset: the next frame is a first one again.\<close>

lemma play_all_unset:
  assumes "basePts p < 0" and "list_all (\<lambda>(t, f). supported f) fs" and "list_all (\<lambda>(t, f). af_pts f < 0) fs"
  shows "map sc_start (started (play_all supported fs p)) = map sc_start (started p) @ map fst fs
    \<and> map sc_planes (started (play_all supported fs p)) = map sc_planes (started p) @ map (deinterleave \<circ> snd) fs
    \<and> basePts (play_all supported fs p) < 0"
  using assms
proof (induction fs arbitrary: p)
  case (Cons x fs)
  obtain t f where x: "x = (t, f)" by (cases x)
  have f: "supported f" "af_pts f < 0" using Cons.prems(2,3) x by simp_all
  from Cons.IH [of "snd (playFrame supported t f p)"] Cons.prems show ?case
    by (simp add: x playFrame_first [where supported = supported, OF Cons.prems(1) f(1)] f(2))
qed simp

lemma play_all_append: "play_all supported (fs @ gs) p = play_all supported gs (play_all supported fs p)"
  by (induction fs arbitrary: p) auto

lemma play_all_set:
  assumes "basePts p < 0" and "list_all (\<lambda>(t, f). supported f) ((t, f) # fs)" and "0 \<le> af_pts f"
  shows "map sc_start (started (play_all supported ((t, f) # fs) p))
      = map sc_start (started p) @ t # start_times (t + duration f) fs
    \<and> map sc_planes (started (play_all supported ((t, f) # fs) p))
      = map sc_planes (started p) @ map (deinterleave \<circ> snd) ((t, f) # fs)
    \<and> getClockTimeMs now (play_all supported ((t, f) # fs) p) = (now - t) * 1000 + af_pts f"
proof -
  let ?p = "snd (playFrame supported t f p)"
  have first: "supported f" using assms(2) by simp
  note p = playFrame_first [where supported = supported, OF assms(1) first, of t]
  have "has_audioCtx ?p" "\<not> basePts ?p < 0" "list_all (\<lambda>(t, f). supported f) fs"
    using assms(2,3) p by simp_all
  from play_all_next [OF this] show ?thesis using assms(3) p by (simp add: getClockTimeMs_def)
qed

text \<open>The times at which frames are to start and the clock behind them: the frames in front of the first
  time stamp that is not negative start at once, and from that one on each starts at the end of the
  one before it, or at once when that is past.\<close>

definition unset_frames :: "(rat \<times> audio_frame) list \<Rightarrow> (rat \<times> audio_frame) list" where
  "unset_frames = takeWhile (\<lambda>(t, f). af_pts f < 0)"

definition set_frames :: "(rat \<times> audio_frame) list \<Rightarrow> (rat \<times> audio_frame) list" where
  "set_frames = dropWhile (\<lambda>(t, f). af_pts f < 0)"

definition clock_start_times :: "(rat \<times> audio_frame) list \<Rightarrow> rat list" where
  "clock_start_times fs = (case set_frames fs of [] \<Rightarrow> [] | (t, f) # later \<Rightarrow> t # start_times (t + duration f) later)"

definition clock_from :: "rat \<Rightarrow> (rat \<times> audio_frame) list \<Rightarrow> rat" where
  "clock_from now fs = (case set_frames fs of [] \<Rightarrow> - 1 | (t, f) # later \<Rightarrow> (now - t) * 1000 + af_pts f)"

text \<open>Plane \<open>ch\<close> has the samples of channel \<open>ch\<close>, as far as the frame has data.\<close>

definition separated :: "audio_frame \<Rightarrow> u32 list list \<Rightarrow> bool" where
  "separated f planes \<longleftrightarrow> length planes = nat (af_channels f) \<and> (\<forall>ch < nat (af_channels f).
     length (planes ! ch) = nat (af_nbSamples f) \<and> (\<forall>i < nat (af_nbSamples f).
       i * nat (af_channels f) + ch < length (af_data f) \<longrightarrow> planes ! ch ! i = af_data f ! (i * nat (af_channels f) + ch)))"

lemma separated_deinterleave: "separated f (deinterleave f)"
  by (auto simp: separated_def deinterleave_def Let_def)

lemma planes_separated:
  "map sc_planes ss = map (deinterleave \<circ> snd) fs \<Longrightarrow> list_all2 (\<lambda>s (t, f). separated f (sc_planes s)) ss fs"
proof (induction fs arbitrary: ss)
  case (Cons x fs)
  then show ?case by (cases x; cases ss) (simp_all add: separated_deinterleave)
qed simp

lemma start_times_no_overlap:
  "successively (\<lambda>(s, f) (s', f'). s + duration f \<le> s') (zip (start_times free fs) (map snd fs))
    \<and> (fs \<noteq> [] \<longrightarrow> free \<le> hd (start_times free fs))"
proof (induction free fs rule: start_times.induct)
  case (2 free t f fs)
  then show ?case by (cases fs) (auto simp: successively_Cons)
qed simp

lemma clock_start_times_no_overlap:
  "successively (\<lambda>(s, f) (s', f'). s + duration f \<le> s') (zip (clock_start_times fs) (map snd (set_frames fs)))"
proof (cases "set_frames fs")
  case (Cons x later)
  obtain t f where x: "x = (t, f)" by (cases x)
  show ?thesis
    using start_times_no_overlap [of "t + duration f" later] Cons x
    by (cases later) (auto simp: clock_start_times_def successively_Cons)
qed (simp add: clock_start_times_def)

text \<open>C21: how a new player schedules frames of supported formats, whatever their time stamps. As long as
  these are negative the clock stays unset and every frame starts at once, so that frames may
  overlap. From the first one that is not negative on, every frame starts exactly at the end of
  the frame before it, or at once if that is past: none of them overlap; and the clock runs from the time stamp
  of that frame, or reads -1 if there is none. Every frame is started, in order, with the samples
  of each channel in a plane of its own.\<close>

theorem audio_schedule:
  assumes "list_all (\<lambda>(t, f). supported f) fs"
  shows "map sc_start (started (play_all supported fs (new_player ctx))) = map fst (unset_frames fs) @ clock_start_times fs
    \<and> successively (\<lambda>(s, f) (s', f'). s + duration f \<le> s') (zip (clock_start_times fs) (map snd (set_frames fs)))
    \<and> list_all2 (\<lambda>s (t, f). separated f (sc_planes s)) (started (play_all supported fs (new_player ctx))) fs
    \<and> getClockTimeMs now (play_all supported fs (new_player ctx)) = clock_from now fs"
proof -
  let ?p = "play_all supported (unset_frames fs) (new_player ctx)"
  let ?q = "play_all supported fs (new_player ctx)"
  have new: "basePts (new_player ctx) < 0" "started (new_player ctx) = []" by (simp_all add: new_player_def)
  have fs: "unset_frames fs @ set_frames fs = fs" by (simp add: unset_frames_def set_frames_def)
  then have "list_all (\<lambda>(t, f). supported f) (unset_frames fs @ set_frames fs)" using assms by simp
  then have ok: "list_all (\<lambda>(t, f). supported f) (unset_frames fs)" "list_all (\<lambda>(t, f). supported f) (set_frames fs)"
    by simp_all
  have "list_all (\<lambda>(t, f). af_pts f < 0) (unset_frames fs)"
    unfolding list_all_iff by (auto simp: unset_frames_def dest: set_takeWhileD)
  from play_all_unset [OF new(1) ok(1) this]
  have p: "map sc_start (started ?p) = map fst (unset_frames fs)" "basePts ?p < 0"
    "map sc_planes (started ?p) = map (deinterleave \<circ> snd) (unset_frames fs)" using new(2) by simp_all
  have q: "?q = play_all supported (set_frames fs) ?p" by (metis fs play_all_append)
  have "map sc_start (started ?q) = map fst (unset_frames fs) @ clock_start_times fs
    \<and> map sc_planes (started ?q) = map (deinterleave \<circ> snd) (unset_frames fs @ set_frames fs)
    \<and> getClockTimeMs now ?q = clock_from now fs"
  proof (cases "set_frames fs")
    case Nil
    then show ?thesis using p q by (simp add: clock_start_times_def clock_from_def getClockTimeMs_def)
  next
    case (Cons x later)
    obtain t f where x: "x = (t, f)" by (cases x)
    have f: "0 \<le> af_pts f" using Cons x unfolding set_frames_def by (auto simp: dropWhile_eq_Cons_conv)
    show ?thesis using play_all_set [OF p(2) ok(2) [unfolded Cons x] f] p Cons x
      unfolding q by (simp add: clock_start_times_def clock_from_def)
  qed
  moreover from this have "list_all2 (\<lambda>s (t, f). separated f (sc_planes s)) (started ?q) fs"
    unfolding fs by (blast intro: planes_separated)
  ultimately show ?thesis using clock_start_times_no_overlap by blast
qed

section \<open>Audio and video in step\<close>

datatype SyncAction = RENDER | DELAY | SKIP

definition SYNC_AHEAD_THRESHOLD_MS :: rat where "SYNC_AHEAD_THRESHOLD_MS = 30"
definition SYNC_BEHIND_THRESHOLD_MS :: rat where "SYNC_BEHIND_THRESHOLD_MS = 60"

text \<open>The timers of the page that belong to this object, with the delay asked for, are part of the state;
  \<open>timerCount\<close> makes new ones.\<close>

record av_sync =
  pendingFrame :: "video_frame option"
  delayTimer :: "nat option"
  has_renderCallback :: bool
  active_timers :: "(nat \<times> rat) list"
  timerCount :: nat

definition new_sync :: av_sync where
  "new_sync = \<lparr>pendingFrame = None, delayTimer = None, has_renderCallback = False, active_timers = [], timerCount = 1\<rparr>"

definition setRenderCallback :: "av_sync \<Rightarrow> av_sync" where
  "setRenderCallback s = s\<lparr>has_renderCallback := True\<rparr>"

definition decideSyncAction :: "bool \<Rightarrow> rat \<Rightarrow> audio_player \<Rightarrow> rat \<Rightarrow> SyncAction" where
  "decideSyncAction running currentTime p videoPtsMs =
    (if \<not> isActive running p then RENDER
     else let audioClockMs = getClockTimeMs currentTime p
          in if audioClockMs < 0 then RENDER
             else let diff = videoPtsMs - audioClockMs
                  in if diff > SYNC_AHEAD_THRESHOLD_MS then DELAY
                     else if diff < - SYNC_BEHIND_THRESHOLD_MS then SKIP
                     else RENDER)"

text \<open>The frames handed to the render callback.\<close>

definition doRender :: "video_frame \<Rightarrow> av_sync \<Rightarrow> video_frame list" where
  "doRender f s = (if has_renderCallback s then [f] else [])"

definition clear_timer :: "nat option \<Rightarrow> av_sync \<Rightarrow> av_sync" where
  "clear_timer t s = (case t of None \<Rightarrow> s
     | Some n \<Rightarrow> s\<lparr>active_timers := filter (\<lambda>(m, _). m \<noteq> n) (active_timers s)\<rparr>)"

definition scheduleDelayedRender :: "rat \<Rightarrow> audio_player \<Rightarrow> video_frame \<Rightarrow> av_sync \<Rightarrow> av_sync" where
  "scheduleDelayedRender currentTime p f s =
    (let s1 = clear_timer (delayTimer s) s;
         delayMs = max 1 (vf_pts f - getClockTimeMs currentTime p)
     in s1\<lparr>pendingFrame := Some f, delayTimer := Some (timerCount s1),
           active_timers := active_timers s1 @ [(timerCount s1, delayMs)], timerCount := timerCount s1 + 1\<rparr>)"

definition processVideoFrame ::
  "bool \<Rightarrow> rat \<Rightarrow> audio_player \<Rightarrow> video_frame \<Rightarrow> av_sync \<Rightarrow> video_frame list \<times> av_sync" where
  "processVideoFrame running currentTime p f s =
    (case decideSyncAction running currentTime p (vf_pts f) of
       RENDER \<Rightarrow> (doRender f s, s)
     | DELAY \<Rightarrow> ([], scheduleDelayedRender currentTime p f s)
     | SKIP \<Rightarrow> ([], s))"

text \<open>A timer that is still active goes off.\<close>

definition timer_fires :: "nat \<Rightarrow> av_sync \<Rightarrow> video_frame list \<times> av_sync" where
  "timer_fires n s =
    (if n \<in> fst ` set (active_timers s) then
       let s1 = s\<lparr>active_timers := filter (\<lambda>(m, _). m \<noteq> n) (active_timers s), delayTimer := None\<rparr>
       in (case pendingFrame s1 of None \<Rightarrow> ([], s1)
           | Some f \<Rightarrow> (doRender f s1, s1\<lparr>pendingFrame := None\<rparr>))
     else ([], s))"

definition destroy_sync :: "av_sync \<Rightarrow> av_sync" where
  "destroy_sync s = (let s1 = (if delayTimer s = None then s else (clear_timer (delayTimer s) s)\<lparr>delayTimer := None\<rparr>)
     in s1\<lparr>pendingFrame := None, has_renderCallback := False\<rparr>)"

text \<open>What happens to the synchronizer: a frame is decoded, with the state of the audio at that time, a
  timer goes off, or it is destroyed.\<close>

datatype sync_event = Decoded bool rat audio_player video_frame | TimerFires nat | SyncDestroyed

text \<open>The frames shown and, for the specification, those given up: late ones, ones whose place a newer
  one takes, and what is left at the end.\<close>

fun sync_step :: "sync_event \<Rightarrow> av_sync \<Rightarrow> video_frame list \<times> av_sync" where
  "sync_step (Decoded running now p f) s = processVideoFrame running now p f s"
| "sync_step (TimerFires n) s = timer_fires n s"
| "sync_step SyncDestroyed s = ([], destroy_sync s)"

definition pending_frames :: "av_sync \<Rightarrow> video_frame list" where
  "pending_frames s = (case pendingFrame s of None \<Rightarrow> [] | Some f \<Rightarrow> [f])"

fun given_up :: "sync_event \<Rightarrow> av_sync \<Rightarrow> video_frame list" where
  "given_up (Decoded running now p f) s =
    (case decideSyncAction running now p (vf_pts f) of
       RENDER \<Rightarrow> if has_renderCallback s then [] else [f]
     | DELAY \<Rightarrow> pending_frames s
     | SKIP \<Rightarrow> [f])"
| "given_up (TimerFires n) s = (if has_renderCallback s \<or> n \<notin> fst ` set (active_timers s) then [] else pending_frames s)"
| "given_up SyncDestroyed s = pending_frames s"

fun sync_run :: "sync_event list \<Rightarrow> av_sync \<Rightarrow> video_frame list \<times> video_frame list \<times> av_sync" where
  "sync_run [] s = ([], [], s)"
| "sync_run (e # es) s =
    (let (shown, s1) = sync_step e s; (shown', lost', s2) = sync_run es s1
     in (shown @ shown', given_up e s @ lost', s2))"

fun decoded_frames :: "sync_event list \<Rightarrow> video_frame list" where
  "decoded_frames [] = []"
| "decoded_frames (Decoded running now p f # es) = f # decoded_frames es"
| "decoded_frames (_ # es) = decoded_frames es"

text \<open>There is one timer while a frame is pending and none otherwise.\<close>

definition sync_ok :: "av_sync \<Rightarrow> bool" where
  "sync_ok s \<longleftrightarrow> (case delayTimer s of None \<Rightarrow> active_timers s = [] \<and> pendingFrame s = None
     | Some n \<Rightarrow> map fst (active_timers s) = [n] \<and> n < timerCount s \<and> pendingFrame s \<noteq> None)"

lemma sync_ok_cases:
  assumes "sync_ok s"
  obtains "delayTimer s = None" "active_timers s = []" "pendingFrame s = None"
  | n d f where "delayTimer s = Some n" "active_timers s = [(n, d)]" "pendingFrame s = Some f" "n < timerCount s"
  using assms by (cases "delayTimer s") (auto simp: sync_ok_def map_eq_Cons_conv)

lemma sync_step_ok:
  assumes "sync_ok s"
  shows "sync_ok (snd (sync_step e s))"
proof (cases e)
  case (Decoded running now p f)
  show ?thesis
  proof (cases "decideSyncAction running now p (vf_pts f)")
    case DELAY
    with assms Decoded show ?thesis
      by (cases rule: sync_ok_cases)
        (simp_all add: processVideoFrame_def scheduleDelayedRender_def clear_timer_def Let_def sync_ok_def)
  qed (use assms Decoded in \<open>simp_all add: processVideoFrame_def\<close>)
next
  case (TimerFires n)
  with assms show ?thesis
    by (cases rule: sync_ok_cases) (simp_all add: timer_fires_def Let_def sync_ok_def)
next
  case SyncDestroyed
  with assms show ?thesis
    by (cases rule: sync_ok_cases) (simp_all add: destroy_sync_def clear_timer_def Let_def sync_ok_def)
qed

lemma sync_step_account:
  assumes "sync_ok s"
  shows "mset (fst (sync_step e s)) + mset (given_up e s) + mset (pending_frames (snd (sync_step e s)))
    = mset (pending_frames s) + mset (decoded_frames [e])"
proof (cases e)
  case (Decoded running now p f)
  then show ?thesis
    by (cases "decideSyncAction running now p (vf_pts f)")
      (auto simp: processVideoFrame_def doRender_def scheduleDelayedRender_def clear_timer_def pending_frames_def Let_def
        split: option.splits)
next
  case (TimerFires n)
  with assms show ?thesis
    by (cases rule: sync_ok_cases) (auto simp: timer_fires_def doRender_def pending_frames_def Let_def)
next
  case SyncDestroyed
  then show ?thesis by (auto simp: destroy_sync_def pending_frames_def clear_timer_def Let_def split: option.splits)
qed

lemma sync_run_account:
  assumes "sync_ok s" and "sync_run es s = (shown, lost, s')"
  shows "sync_ok s' \<and> mset shown + mset lost + mset (pending_frames s') = mset (pending_frames s) + mset (decoded_frames es)"
  using assms
proof (induction es arbitrary: s shown lost s')
  case Nil
  then show ?case by simp
next
  case (Cons e es)
  obtain sh1 s1 where e: "sync_step e s = (sh1, s1)" by fastforce
  obtain sh2 l2 s2 where r: "sync_run es s1 = (sh2, l2, s2)" by (cases "sync_run es s1") auto
  have eq: "shown = sh1 @ sh2" "lost = given_up e s @ l2" "s' = s2" using Cons.prems(2) e r by simp_all
  have ok: "sync_ok s1" using sync_step_ok [OF Cons.prems(1), of e] e by simp
  have d: "decoded_frames (e # es) = decoded_frames [e] @ decoded_frames es" by (cases e) simp_all
  show ?case
  proof -
    have step: "mset sh1 + mset (given_up e s) + mset (pending_frames s1) = mset (pending_frames s) + mset (decoded_frames [e])"
      using sync_step_account [OF Cons.prems(1), of e] e by simp
    have rest: "mset sh2 + mset l2 + mset (pending_frames s2) = mset (pending_frames s1) + mset (decoded_frames es)"
      and "sync_ok s2" using Cons.IH [OF ok r] by simp_all
    have "mset (sh1 @ sh2) + mset (given_up e s @ l2) + mset (pending_frames s2)
        = mset sh1 + mset (given_up e s) + (mset sh2 + mset l2 + mset (pending_frames s2))"
      by (simp only: mset_append ac_simps)
    also have "\<dots> = mset sh1 + mset (given_up e s) + mset (pending_frames s1) + mset (decoded_frames es)"
      unfolding rest by (simp only: add.assoc)
    also have "\<dots> = mset (pending_frames s) + mset (decoded_frames [e] @ decoded_frames es)"
      unfolding step by (simp only: mset_append add.assoc)
    finally show ?thesis using \<open>sync_ok s2\<close> unfolding eq d by blast
  qed
qed

text \<open>C20: no decoded frame is lost without a reason and none is shown twice: in any sequence of decoded
  frames, timers and a destruction, the frames shown, those given up (late by more than 60 ms,
  replaced by a newer one while they waited, or left at the end) and the one that waits are
  together the decoded ones, and there is exactly one timer while a frame waits and none otherwise.\<close>

theorem frames_accounted:
  assumes "sync_run es (setRenderCallback new_sync) = (shown, lost, s)"
  shows "mset (decoded_frames es) = mset shown + mset lost + mset (pending_frames s)
    \<and> length (active_timers s) = length (pending_frames s)
    \<and> (delayTimer s = None \<longleftrightarrow> pending_frames s = [])"
proof -
  have "sync_ok (setRenderCallback new_sync)" by (simp add: sync_ok_def setRenderCallback_def new_sync_def)
  from sync_run_account [OF this assms]
  have ok: "sync_ok s" and m: "mset shown + mset lost + mset (pending_frames s) = mset (decoded_frames es)"
    by (simp_all add: pending_frames_def setRenderCallback_def new_sync_def)
  from ok show ?thesis unfolding m by (cases rule: sync_ok_cases) (simp_all add: pending_frames_def)
qed

section \<open>Witnesses\<close>

definition sample_audio_frame :: "rat \<Rightarrow> audio_frame" where
  "sample_audio_frame pts = \<lparr>af_sampleRate = 8000, af_channels = 2, af_nbSamples = 2, af_pts = pts, af_data = [1, 2, 3, 4]\<rparr>"

definition long_frame :: "rat \<Rightarrow> audio_frame" where
  "long_frame pts = (sample_audio_frame pts)\<lparr>af_nbSamples := 16000\<rparr>"

theorem audio_schedule_witness:
  "map sc_start (started (play_all (\<lambda>_. True) [(4, sample_audio_frame (- 3)), (5, sample_audio_frame 40), (5, sample_audio_frame 41),
      (9, sample_audio_frame 42)] (new_player (Some 1)))) = [4, 5, 5 + 2 / 8000, 9]
    \<and> getClockTimeMs 6 (play_all (\<lambda>_. True) [(4, sample_audio_frame (- 3)), (5, sample_audio_frame 40), (5, sample_audio_frame 41),
      (9, sample_audio_frame 42)] (new_player (Some 1))) = 1040"
  using audio_schedule [of "\<lambda>_. True" "[(4, sample_audio_frame (- 3)), (5, sample_audio_frame 40), (5, sample_audio_frame 41),
      (9, sample_audio_frame 42)]" "Some 1" 6]
  by (simp add: unset_frames_def clock_start_times_def clock_from_def set_frames_def duration_def sample_audio_frame_def)

text \<open>Two frames of two seconds with negative time stamps, half a second apart, are both played at once.\<close>

lemma negative_pts_overlap:
  "map sc_start (started (play_all (\<lambda>_. True) [(5, long_frame (- 40)), (5 + 1 / 2, long_frame (- 20))] (new_player None))) = [5, 5 + 1 / 2]
    \<and> duration (long_frame pts) = 2"
  by (simp add: playFrame_def new_player_def Let_def duration_def long_frame_def sample_audio_frame_def)

definition sample_video :: "rat \<Rightarrow> video_frame" where
  "sample_video pts = \<lparr>vf_width = 0, vf_height = 0, vf_pts = pts, vf_duration = 0, vf_planes = [], vf_strides = []\<rparr>"

definition playing_player :: audio_player where
  "playing_player = (new_player (Some 0))\<lparr>basePts := 0\<rparr>"

text \<open>A frame that waits is not given up when the audio stops: it is shown behind newer ones.\<close>

lemma shown_out_of_order:
  "sync_run [Decoded True 0 playing_player (sample_video 100), Decoded False 0 playing_player (sample_video 140), TimerFires 1]
     (setRenderCallback new_sync)
   = ([sample_video 140, sample_video 100], [], (setRenderCallback new_sync)\<lparr>timerCount := 2\<rparr>)"
  by (simp add: processVideoFrame_def decideSyncAction_def isActive_def getClockTimeMs_def playing_player_def new_player_def
      sample_video_def SYNC_AHEAD_THRESHOLD_MS_def doRender_def setRenderCallback_def new_sync_def
      scheduleDelayedRender_def clear_timer_def Let_def timer_fires_def pending_frames_def)

theorem frames_accounted_witness:
  "mset (decoded_frames [Decoded True 0 playing_player (sample_video 100), Decoded False 0 playing_player (sample_video 140), TimerFires 1])
    = mset [sample_video 140, sample_video 100] + mset [] + mset (pending_frames ((setRenderCallback new_sync)\<lparr>timerCount := 2\<rparr>))"
  using frames_accounted [OF shown_out_of_order] by blast

end
