(* ===== verification/StreamClient.thy ===== *)
theory StreamClient
  imports Offer BufferQueue Playback
begin

text \<open>
  One stream in the browser: src/js/stream/StreamInstance.ts, with the bridge to its worker,
  src/js/decoder/WorkerBridge.ts, and the map of streams, src/js/stream/StreamManager.ts. A step is
  a task of the page with the microtasks behind it, so an \<open>await\<close> of a settled promise does not
  end a step; an \<open>await\<close> of the promise of a worker that is not ready yet leaves what is behind it
  in \<open>st_waiting\<close>. Sockets and workers are numbered as they are made;
  \<open>st_posted\<close> records all that is posted to workers. Drawing and the texts of
  errors are left out.
\<close>

section \<open>The bridge to a worker\<close>

datatype promise = Pending | Fulfilled | Failed

datatype worker_request =
  InitRequest json | InitAudioRequest audio_config | DecodeRequest "byte list" int | FlushRequest | DestroyRequest

text \<open>\<open>br_promise\<close> is the promise made by \<open>init\<close>, which others may hold when \<open>initPromise\<close> is \<open>null\<close>
  again; \<open>br_init\<close> is whether \<open>initPromise\<close> is set.\<close>

record bridge =
  br_worker :: bool
  br_init :: bool
  br_promise :: promise
  br_callbacks :: bool

definition new_bridge :: bridge where
  "new_bridge = \<lparr>br_worker = True, br_init = False, br_promise = Pending, br_callbacks = False\<rparr>"

text \<open>\<open>init\<close> posts its request if it makes a new promise.\<close>

definition bridge_init :: "bridge \<Rightarrow> bool \<times> bridge" where
  "bridge_init b =
    (if br_init b then (False, b)
     else if \<not> br_worker b then (False, b\<lparr>br_init := True, br_promise := Failed\<rparr>)
     else (True, b\<lparr>br_init := True, br_promise := Pending\<rparr>))"

text \<open>A request that waits for \<open>initPromise\<close>, of \<open>initAudio\<close>, \<open>decode\<close> and \<open>flush\<close>: it throws, waits, or is
  posted. \<open>after_init\<close> is the part behind the \<open>await\<close>.\<close>

datatype posting = Throws | Waits | Posts

definition after_init :: "bridge \<Rightarrow> posting" where
  "after_init b = (case br_promise b of Pending \<Rightarrow> Waits | Failed \<Rightarrow> Throws
     | Fulfilled \<Rightarrow> if br_worker b then Posts else Throws)"

definition bridge_request :: "bridge \<Rightarrow> posting" where
  "bridge_request b = (if \<not> br_worker b \<or> \<not> br_init b then Throws else after_init b)"

definition bridge_destroy :: "bridge \<Rightarrow> bool \<times> bridge" where
  "bridge_destroy b = (br_worker b, b\<lparr>br_init := False, br_callbacks := False\<rparr>)"

text \<open>The timer of \<open>destroy\<close>.\<close>

definition bridge_terminate :: "bridge \<Rightarrow> bridge" where
  "bridge_terminate b = b\<lparr>br_worker := False\<rparr>"

section \<open>The stream\<close>

datatype socket_state = SocketConnecting | SocketOpen | SocketClosing | SocketClosed

text \<open>\<open>so_promise\<close> is the promise of \<open>connectWebSocket\<close>.\<close>

record socket =
  so_state :: socket_state
  so_negotiated :: bool
  so_sent :: "js_string list"
  so_promise :: promise

datatype stream_status = Disconnected | Connecting | Connected | Error

datatype waiting =
  OfferWaits nat "audio_config option"
| AudioWaits nat audio_config
| DecodeWaits "byte list" int

record stream =
  st_sockets :: "socket list"
  st_ws :: "nat option"
  st_bridges :: "bridge list"
  st_posted :: "(nat \<times> worker_request) list"
  st_decoder :: "nat option"
  st_players :: nat
  st_audio :: bool
  st_queue :: buffer_queue
  st_processing :: bool
  st_status :: stream_status
  st_bytes :: int
  st_messages :: int
  st_start :: "int option"
  st_dataRate :: rat
  st_lastUpdate :: int
  st_lastBytes :: int
  st_errors :: nat
  st_waiting :: "(nat \<times> waiting) list"
  st_blobs :: "(byte list \<times> int) list"

definition new_stream :: "(int option \<times> int option) option \<Rightarrow> stream" where
  "new_stream config = \<lparr>st_sockets = [], st_ws = None, st_bridges = [], st_posted = [], st_decoder = None, st_players = 0, st_audio = False,
     st_queue = (case config of None \<Rightarrow> new_queue (Some 100) (Some (10 * 1024 * 1024)) | Some (ms, mb) \<Rightarrow> new_queue ms mb),
     st_processing = False, st_status = Disconnected, st_bytes = 0, st_messages = 0, st_start = None, st_dataRate = 0,
     st_lastUpdate = 0, st_lastBytes = 0, st_errors = 0, st_waiting = [], st_blobs = []\<rparr>"

definition set_socket :: "nat \<Rightarrow> (socket \<Rightarrow> socket) \<Rightarrow> stream \<Rightarrow> stream" where
  "set_socket n f st = st\<lparr>st_sockets := (st_sockets st)[n := f (st_sockets st ! n)]\<rparr>"

definition set_bridge :: "nat \<Rightarrow> bridge \<Rightarrow> stream \<Rightarrow> stream" where
  "set_bridge n b st = st\<lparr>st_bridges := (st_bridges st)[n := b]\<rparr>"

definition post_request :: "nat \<Rightarrow> worker_request \<Rightarrow> stream \<Rightarrow> stream" where
  "post_request n r st = st\<lparr>st_posted := st_posted st @ [(n, r)]\<rparr>"

definition handleError :: "stream \<Rightarrow> stream" where
  "handleError st = st\<lparr>st_errors := st_errors st + 1\<rparr>"

definition settle_socket :: "promise \<Rightarrow> socket \<Rightarrow> socket" where
  "settle_socket p s = (if so_promise s = Pending then s\<lparr>so_promise := p\<rparr> else s)"

text \<open>The promise of a connection fails: \<open>connect\<close>, which waits for it, reports it.\<close>

definition fail_connect :: "nat \<Rightarrow> stream \<Rightarrow> stream" where
  "fail_connect n st = (if so_promise (st_sockets st ! n) = Pending
     then handleError ((set_socket n (settle_socket Failed) st)\<lparr>st_status := Error\<rparr>) else st)"

subsection \<open>Connecting\<close>

text \<open>\<open>connect\<close> on a stream that is not open, and the part of \<open>connectWebSocket\<close> before the first
  event; \<open>accepted\<close> is whether the constructor accepts the URL.\<close>

definition connect :: "bool \<Rightarrow> stream \<Rightarrow> stream" where
  "connect accepted st =
    (if (case st_ws st of None \<Rightarrow> False | Some n \<Rightarrow> so_state (st_sockets st ! n) = SocketOpen) then st
     else let st1 = st\<lparr>st_status := Connecting\<rparr>
     in if \<not> accepted then handleError (st1\<lparr>st_status := Error\<rparr>)
        else st1\<lparr>st_ws := Some (length (st_sockets st1)),
                st_sockets := st_sockets st1 @ [\<lparr>so_state = SocketConnecting, so_negotiated = False, so_sent = [],
                                                 so_promise = Pending\<rparr>]\<rparr>)"

definition onclose :: "nat \<Rightarrow> stream \<Rightarrow> stream" where
  "onclose n st = (set_socket n (\<lambda>s. s\<lparr>so_state := SocketClosed\<rparr>) st)\<lparr>st_status := Disconnected, st_processing := False\<rparr>"

text \<open>\<open>this.ws!.send(text)\<close>: it throws without a socket and on one that is still connecting, and does
  nothing on one that is closing or closed.\<close>

definition ws_send :: "js_string \<Rightarrow> stream \<Rightarrow> stream option" where
  "ws_send t st = (case st_ws st of None \<Rightarrow> None
     | Some n \<Rightarrow>
        (case so_state (st_sockets st ! n) of
           SocketConnecting \<Rightarrow> None
         | SocketOpen \<Rightarrow> Some (set_socket n (\<lambda>s. s\<lparr>so_sent := so_sent s @ [t]\<rparr>) st)
         | _ \<Rightarrow> Some st))"

subsection \<open>The packets of the stream\<close>

text \<open>The loop of \<open>processQueue\<close>, up to its end or the first \<open>await\<close> that has to wait.\<close>

definition take_packet :: "stream \<Rightarrow> data_packet option \<times> stream" where
  "take_packet st = (let (p, q) = dequeue (st_queue st) in (p, st\<lparr>st_queue := q\<rparr>))"

text \<open>\<open>await this.decoder.decode(data, timestamp)\<close>: whether the loop goes on.\<close>

definition decode_packet :: "nat \<Rightarrow> byte list \<Rightarrow> int \<Rightarrow> stream \<Rightarrow> bool \<times> stream" where
  "decode_packet b dat ts st =
    (case bridge_request (st_bridges st ! b) of
       Throws \<Rightarrow> (True, handleError st)
     | Waits \<Rightarrow> (False, st\<lparr>st_waiting := st_waiting st @ [(b, DecodeWaits dat ts)]\<rparr>)
     | Posts \<Rightarrow> (True, post_request b (DecodeRequest dat ts) st))"

lemma decode_packet_queue [simp]: "st_queue (snd (decode_packet b dat ts st)) = st_queue st"
  by (simp add: decode_packet_def handleError_def post_request_def split: posting.splits)

function pump :: "stream \<Rightarrow> stream" where
  "pump st =
    (case (st_decoder st, queue (st_queue st)) of
       (Some b, p # ps) \<Rightarrow>
         let st1 = snd (take_packet st)
         in (case pk_data p of
               Blob dat \<Rightarrow> st1\<lparr>st_blobs := st_blobs st1 @ [(dat, pk_timestamp p)]\<rparr>
             | ArrayBuffer dat \<Rightarrow>
                 let (go, st2) = decode_packet b dat (pk_timestamp p) st1
                 in if go then pump st2 else st2)
     | _ \<Rightarrow> st\<lparr>st_processing := False\<rparr>)"
  by pat_completeness auto
termination
proof (relation "measure (\<lambda>st. length (queue (st_queue st)))")
  fix st x y b p ps st1 dat r go st2
  assume "(x, y) = (st_decoder st, queue (st_queue st))" and y: "y = p # ps" and st1: "st1 = snd (take_packet st)"
    and r: "r = decode_packet b dat (pk_timestamp p) st1" "(go, st2) = r"
  then have q: "queue (st_queue st) = p # ps" by simp
  have "queue (st_queue st2) = queue (st_queue st1)"
    using decode_packet_queue [of b dat "pk_timestamp p" st1] r by (metis snd_conv)
  also have "\<dots> = ps" using q by (simp add: st1 take_packet_def dequeue_def)
  finally show "(st2, st) \<in> measure (\<lambda>st. length (queue (st_queue st)))" using q by simp
qed simp

declare pump.simps [simp del]

definition processQueue :: "stream \<Rightarrow> stream" where
  "processQueue st = (if st_processing st then st else pump (st\<lparr>st_processing := True\<rparr>))"

text \<open>A \<open>Blob\<close> of the loop has been read.\<close>

definition blob_read :: "stream \<Rightarrow> stream" where
  "blob_read st = (case st_blobs st of [] \<Rightarrow> st
     | (dat, ts) # rest \<Rightarrow>
        let st1 = st\<lparr>st_blobs := rest\<rparr>
        in (case st_decoder st1 of None \<Rightarrow> pump (handleError st1)
            | Some b \<Rightarrow> let (go, st2) = decode_packet b dat ts st1 in if go then pump st2 else st2))"

definition updateDataRate :: "int \<Rightarrow> stream \<Rightarrow> stream" where
  "updateDataRate now st =
    (let timeDiff = of_int (now - st_lastUpdate st) / 1000
     in if timeDiff \<ge> 1 then
          st\<lparr>st_dataRate := of_int (st_bytes st - st_lastBytes st) / timeDiff / 1024,
             st_lastUpdate := now, st_lastBytes := st_bytes st\<rparr>
        else st)"

datatype event_data = TextData js_string | BinaryData message_data

definition handleWebSocketMessage :: "int \<Rightarrow> event_data \<Rightarrow> stream \<Rightarrow> stream" where
  "handleWebSocketMessage now dat st0 =
    (let st = st0\<lparr>st_messages := st_messages st0 + 1\<rparr>
     in (case dat of
           BinaryData d \<Rightarrow>
             updateDataRate now (processQueue (st\<lparr>st_bytes := st_bytes st + data_size d, st_queue := enqueue now d (st_queue st)\<rparr>))
         | TextData t \<Rightarrow> st\<lparr>st_bytes := st_bytes st + int (length (utf8_encode t))\<rparr>))"

subsection \<open>The negotiation\<close>

text \<open>The \<open>catch\<close> of the handler; \<open>why\<close> is the text of the error.\<close>

definition reject_offer :: "js_string \<Rightarrow> nat \<Rightarrow> stream \<Rightarrow> stream" where
  "reject_offer why n st =
    (case ws_send (rejecting_answer why) st of None \<Rightarrow> st | Some st1 \<Rightarrow> fail_connect n st1)"

definition accept_offer :: "int \<Rightarrow> js_string \<Rightarrow> nat \<Rightarrow> stream \<Rightarrow> stream" where
  "accept_offer now why n st =
    (case ws_send accepting_answer st of None \<Rightarrow> reject_offer why n st
     | Some st1 \<Rightarrow>
        set_socket n (\<lambda>s. settle_socket Fulfilled (s\<lparr>so_negotiated := True\<rparr>))
          (st1\<lparr>st_start := Some now, st_bytes := 0, st_messages := 0, st_lastUpdate := now, st_lastBytes := 0,
               st_status := Connected\<rparr>))"

text \<open>Behind \<open>await this.initDecoder\<close>.\<close>

definition decoder_ready :: "int \<Rightarrow> js_string \<Rightarrow> nat \<Rightarrow> audio_config option \<Rightarrow> stream \<Rightarrow> stream" where
  "decoder_ready now why n audio st =
    (case (audio, st_decoder st) of
       (Some cfg, Some d) \<Rightarrow>
         (case bridge_request (st_bridges st ! d) of
            Throws \<Rightarrow> reject_offer why n st
          | Waits \<Rightarrow> st\<lparr>st_waiting := st_waiting st @ [(d, AudioWaits n cfg)]\<rparr>
          | Posts \<Rightarrow> accept_offer now why n (post_request d (InitAudioRequest cfg) st))
     | _ \<Rightarrow> accept_offer now why n st)"

text \<open>\<open>initDecoder\<close> and what is behind it; \<open>makes_worker\<close> is whether the page can make a worker.\<close>

definition start_decoder :: "bool \<Rightarrow> js_string \<Rightarrow> nat \<Rightarrow> json \<Rightarrow> audio_config option \<Rightarrow> stream \<Rightarrow> stream" where
  "start_decoder makes_worker why n codec audio st =
    (if \<not> makes_worker then reject_offer why n st
     else let d = length (st_bridges st);
              b = snd (bridge_init (new_bridge\<lparr>br_callbacks := True\<rparr>))
     in post_request d (InitRequest codec)
          (st\<lparr>st_bridges := st_bridges st @ [b], st_decoder := Some d, st_players := st_players st + 1, st_audio := True,
              st_waiting := st_waiting st @ [(d, OfferWaits n audio)]\<rparr>))"

definition onmessage :: "int \<Rightarrow> js_string \<Rightarrow> bool \<Rightarrow> nat \<Rightarrow> event_data \<Rightarrow> stream \<Rightarrow> stream" where
  "onmessage now why makes_worker n dat st =
    (case (so_negotiated (st_sockets st ! n), dat) of
       (False, TextData t) \<Rightarrow>
         (case read_offer t of Ignored \<Rightarrow> st | Thrown \<Rightarrow> st
          | Offered codec audio \<Rightarrow> start_decoder makes_worker why n codec audio st)
     | _ \<Rightarrow> handleWebSocketMessage now dat st)"

subsection \<open>The worker answers\<close>

text \<open>What waits for a worker goes on when its promise is settled.\<close>

definition resume :: "int \<Rightarrow> js_string \<Rightarrow> nat \<times> waiting \<Rightarrow> stream \<Rightarrow> stream" where
  "resume now why w st =
    (case w of
       (d, OfferWaits n audio) \<Rightarrow>
         (if br_promise (st_bridges st ! d) = Fulfilled then decoder_ready now why n audio st else reject_offer why n st)
     | (d, AudioWaits n cfg) \<Rightarrow>
         (if after_init (st_bridges st ! d) = Posts
          then accept_offer now why n (post_request d (InitAudioRequest cfg) st) else reject_offer why n st)
     | (d, DecodeWaits dat ts) \<Rightarrow>
         pump (if after_init (st_bridges st ! d) = Posts then post_request d (DecodeRequest dat ts) st else handleError st))"

definition settle_bridge :: "int \<Rightarrow> js_string \<Rightarrow> promise \<Rightarrow> nat \<Rightarrow> stream \<Rightarrow> stream" where
  "settle_bridge now why p d st =
    (if d < length (st_bridges st) \<and> br_promise (st_bridges st ! d) = Pending then
       fold (resume now why) (filter (\<lambda>w. fst w = d) (st_waiting st))
         ((set_bridge d ((st_bridges st ! d)\<lparr>br_promise := p\<rparr>) st)
            \<lparr>st_waiting := filter (\<lambda>w. fst w \<noteq> d) (st_waiting st)\<rparr>)
     else st)"

definition worker_error :: "nat \<Rightarrow> stream \<Rightarrow> stream" where
  "worker_error d st = (if br_callbacks (st_bridges st ! d) then handleError st else st)"

text \<open>An uncaught error of the worker is reported too; its promise is left as it is.\<close>

definition handleWorkerError :: "nat \<Rightarrow> stream \<Rightarrow> stream" where
  "handleWorkerError d st = (if br_callbacks (st_bridges st ! d) then handleError st else st)"

subsection \<open>Disconnecting\<close>

definition disconnect :: "stream \<Rightarrow> stream" where
  "disconnect st0 =
    (let st1 = st0\<lparr>st_processing := False\<rparr>;
         st2 = (case st_ws st1 of None \<Rightarrow> st1
                | Some n \<Rightarrow> (set_socket n (\<lambda>s. if so_state s = SocketClosed then s else s\<lparr>so_state := SocketClosing\<rparr>) st1)
                     \<lparr>st_ws := None\<rparr>);
         st3 = st2\<lparr>st_audio := False\<rparr>;
         st4 = (case st_decoder st3 of None \<Rightarrow> st3
                | Some d \<Rightarrow>
                   let (posts, b) = bridge_destroy (st_bridges st3 ! d);
                       st = set_bridge d b (if posts then post_request d DestroyRequest st3 else st3)
                   in st\<lparr>st_decoder := None\<rparr>)
     in st4\<lparr>st_queue := clear_queue (st_queue st4), st_start := None, st_status := Disconnected\<rparr>)"

subsection \<open>The steps\<close>

datatype client_event =
  Connect bool | Disconnect | SocketOpens nat | Message bool nat event_data | SocketFails nat | SocketCloses nat
| WorkerReady nat | WorkerFails nat | WorkerThrows nat | InitTimeout nat | WorkerEnds nat | BlobRead

text \<open>Messages are delivered while the socket is open. An error message of a worker that is being
  started fails its promise; every one is reported.\<close>

fun client_step :: "int \<times> js_string \<times> client_event \<Rightarrow> stream \<Rightarrow> stream" where
  "client_step (now, why, Connect accepted) st = connect accepted st"
| "client_step (now, why, Disconnect) st = disconnect st"
| "client_step (now, why, SocketOpens n) st =
    (if n < length (st_sockets st) \<and> so_state (st_sockets st ! n) = SocketConnecting
     then set_socket n (\<lambda>s. s\<lparr>so_state := SocketOpen\<rparr>) st else st)"
| "client_step (now, why, Message makes_worker n dat) st =
    (if n < length (st_sockets st) \<and> so_state (st_sockets st ! n) = SocketOpen
     then onmessage now why makes_worker n dat st else st)"
| "client_step (now, why, SocketFails n) st = (if n < length (st_sockets st) then fail_connect n st else st)"
| "client_step (now, why, SocketCloses n) st = (if n < length (st_sockets st) then onclose n st else st)"
| "client_step (now, why, WorkerReady d) st = settle_bridge now why Fulfilled d st"
| "client_step (now, why, WorkerFails d) st =
    (if d < length (st_bridges st) then settle_bridge now why Failed d (worker_error d st) else st)"
| "client_step (now, why, WorkerThrows d) st = (if d < length (st_bridges st) then handleWorkerError d st else st)"
| "client_step (now, why, InitTimeout d) st = settle_bridge now why Failed d st"
| "client_step (now, why, WorkerEnds d) st =
    (if d < length (st_bridges st) then set_bridge d (bridge_terminate (st_bridges st ! d)) st else st)"
| "client_step (now, why, BlobRead) st = blob_read st"

definition client_run :: "(int \<times> js_string \<times> client_event) list \<Rightarrow> stream \<Rightarrow> stream" where
  "client_run = fold client_step"

section \<open>The map of streams\<close>

text \<open>\<open>Map\<close> keeps its entries in the order they were made. \<open>None\<close> is the error of a second stream with
  the same name.\<close>

type_synonym stream_map = "(js_string \<times> stream) list"

definition createStream :: "js_string \<Rightarrow> (int option \<times> int option) option \<Rightarrow> stream_map \<Rightarrow> stream_map option" where
  "createStream name config m = (if map_of m name \<noteq> None then None else Some (m @ [(name, new_stream config)]))"

text \<open>The stream that is removed is disconnected; there is none where the code returns \<open>false\<close>.\<close>

definition destroyStream :: "js_string \<Rightarrow> stream_map \<Rightarrow> stream option \<times> stream_map" where
  "destroyStream name m = (case map_of m name of None \<Rightarrow> (None, m)
     | Some st \<Rightarrow> (Some (disconnect st), filter (\<lambda>(k, _). k \<noteq> name) m))"

definition destroyAll :: "stream_map \<Rightarrow> stream list \<times> stream_map" where
  "destroyAll m = (map (disconnect \<circ> snd) m, [])"

definition getConnectedStreams :: "stream_map \<Rightarrow> stream list" where
  "getConnectedStreams m = filter (\<lambda>st. st_status st = Connected) (map snd m)"

end
