(* ===== verification/StreamOrder.thy ===== *)
theory StreamOrder
  imports StreamClient
begin

text \<open>
  The packets of a stream on their way from the socket to the worker, src/js/stream/StreamInstance.ts:
  they are decoded in the order they arrived, and none is lost but to the overflow of the queue or
  to an error that is reported.
\<close>

section \<open>Where a packet can be\<close>

definition decode_requests :: "(nat \<times> worker_request) list \<Rightarrow> byte list list" where
  "decode_requests rs = concat (map (\<lambda>(d, r). case r of DecodeRequest dat ts \<Rightarrow> [dat] | _ \<Rightarrow> []) rs)"

definition flights :: "(nat \<times> waiting) list \<Rightarrow> byte list list" where
  "flights ws = concat (map (\<lambda>(d, w). case w of DecodeWaits dat ts \<Rightarrow> [dat] | _ \<Rightarrow> []) ws)"

definition in_flight :: "stream \<Rightarrow> byte list list" where
  "in_flight st = flights (st_waiting st) @ map fst (st_blobs st)"

definition queued :: "stream \<Rightarrow> byte list list" where
  "queued st = map (data_bytes \<circ> pk_data) (queue (st_queue st))"

text \<open>The packets that arrive: binary messages of an open socket.\<close>

fun arrivals :: "int \<times> js_string \<times> client_event \<Rightarrow> stream \<Rightarrow> byte list list" where
  "arrivals (now, why, Message makes_worker n (BinaryData d)) st =
    (if n < length (st_sockets st) \<and> so_state (st_sockets st ! n) = SocketOpen then [data_bytes d] else [])"
| "arrivals _ st = []"

fun received :: "(int \<times> js_string \<times> client_event) list \<Rightarrow> stream \<Rightarrow> byte list list" where
  "received [] st = []"
| "received (e # es) st = arrivals e st @ received es (client_step e st)"

definition overflows :: "stream \<Rightarrow> int" where
  "overflows st = totalOverflows (q_stats (st_queue st))"

lemma flights_simps [simp]: "flights [] = []" "flights (ws @ ws') = flights ws @ flights ws'"
  "flights ((d, OfferWaits n a) # ws) = flights ws" "flights ((d, AudioWaits n c) # ws) = flights ws"
  "flights ((d, DecodeWaits dat ts) # ws) = dat # flights ws"
  by (simp_all add: flights_def)

lemma decode_requests_simps [simp]: "decode_requests [] = []" "decode_requests (rs @ rs') = decode_requests rs @ decode_requests rs'"
  "decode_requests [(d, DecodeRequest dat ts)] = [dat]" "decode_requests [(d, InitRequest c)] = []"
  "decode_requests [(d, InitAudioRequest a)] = []" "decode_requests [(d, DestroyRequest)] = []"
  by (simp_all add: decode_requests_def)

section \<open>Steps that do not touch them\<close>

definition calm :: "stream \<Rightarrow> stream \<Rightarrow> bool" where
  "calm st st' \<longleftrightarrow> decode_requests (st_posted st') = decode_requests (st_posted st) \<and> in_flight st' = in_flight st
     \<and> st_queue st' = st_queue st \<and> st_processing st' = st_processing st
     \<and> map so_state (st_sockets st') = map so_state (st_sockets st) \<and> st_errors st \<le> st_errors st'"

lemma calm_refl [simp]: "calm st st"
  by (simp add: calm_def)

lemma calm_trans: "calm a b \<Longrightarrow> calm b c \<Longrightarrow> calm a c"
  by (simp add: calm_def)

lemma set_socket_states: "(\<And>s. so_state (f s) = so_state s) \<Longrightarrow> map so_state (st_sockets (set_socket n f st)) = map so_state (st_sockets st)"
proof (cases "n < length (st_sockets st)")
  case True
  moreover assume "\<And>s. so_state (f s) = so_state s"
  ultimately have "so_state (f (st_sockets st ! n)) = map so_state (st_sockets st) ! n" by simp
  then have "(map so_state (st_sockets st))[n := so_state (f (st_sockets st ! n))] = map so_state (st_sockets st)"
    by (metis list_update_id)
  then show ?thesis by (simp add: set_socket_def map_update)
qed (simp add: set_socket_def list_update_beyond)

lemma calm_set_socket: "(\<And>s. so_state (f s) = so_state s) \<Longrightarrow> calm st (set_socket n f st)"
  using set_socket_states [of f n st] by (simp add: calm_def in_flight_def set_socket_def)

lemma calm_fields [simp]: "calm st (st\<lparr>st_status := x\<rparr>)" "calm st (handleError st)"
  "calm st (post_request d (InitAudioRequest a) st)" "calm st (post_request d (InitRequest c) st)"
  "calm st (set_bridge d b st)"
  by (simp_all add: calm_def in_flight_def handleError_def post_request_def set_bridge_def)

lemma calm_fail_connect: "calm st (fail_connect n st)"
  unfolding fail_connect_def
  using calm_trans [OF calm_set_socket [of "settle_socket Failed" st n]
      calm_trans [OF calm_fields(1) [of "set_socket n (settle_socket Failed) st" Error] calm_fields(2)]]
  by (simp add: settle_socket_def)

lemma calm_ws_send: "ws_send t st = Some st' \<Longrightarrow> calm st st'"
  by (auto simp: ws_send_def intro!: calm_set_socket split: option.splits socket_state.splits)

lemma calm_reject: "calm st (reject_offer why n st)"
  by (auto simp: reject_offer_def intro: calm_trans calm_ws_send calm_fail_connect split: option.splits)

lemma calm_accept: "calm st (accept_offer now why n st)"
proof (cases "ws_send accepting_answer st")
  case None
  then show ?thesis by (simp add: accept_offer_def calm_reject)
next
  case (Some st1)
  let ?st2 = "st1\<lparr>st_start := Some now, st_bytes := 0, st_messages := 0, st_lastUpdate := now, st_lastBytes := 0,
               st_status := Connected\<rparr>"
  have "calm st1 ?st2" by (simp add: calm_def in_flight_def)
  moreover have "calm ?st2 (set_socket n (\<lambda>s. settle_socket Fulfilled (s\<lparr>so_negotiated := True\<rparr>)) ?st2)"
    by (rule calm_set_socket) (simp add: settle_socket_def)
  ultimately have "calm st (set_socket n (\<lambda>s. settle_socket Fulfilled (s\<lparr>so_negotiated := True\<rparr>)) ?st2)"
    by (rule calm_trans [OF calm_trans [OF calm_ws_send [OF Some]]])
  then show ?thesis by (simp add: accept_offer_def Some)
qed

lemma calm_decoder_ready: "calm st (decoder_ready now why n audio st)"
proof -
  have "calm st (st\<lparr>st_waiting := st_waiting st @ [(d, AudioWaits n cfg)]\<rparr>)" for d cfg
    by (simp add: calm_def in_flight_def)
  then show ?thesis
    using calm_accept [of st now why n] calm_reject [of st why n]
      calm_trans [OF calm_fields(3) calm_accept]
    by (simp add: decoder_ready_def split: option.splits posting.splits)
qed

lemma calm_start_decoder: "calm st (start_decoder makes_worker why n codec audio st)"
proof -
  have "calm st (st\<lparr>st_bridges := bs, st_decoder := d, st_players := k, st_audio := True,
      st_waiting := st_waiting st @ [(m, OfferWaits n audio)]\<rparr>)" for bs d k m
    by (simp add: calm_def in_flight_def)
  from calm_trans [OF this calm_fields(4)] show ?thesis by (simp add: start_decoder_def Let_def calm_reject)
qed

section \<open>The loop\<close>

definition held :: "stream \<Rightarrow> byte list list" where
  "held st = decode_requests (st_posted st) @ in_flight st @ queued st"

text \<open>No more than \<open>R\<close> is held, in its order, and what is missing overflowed or was reported.\<close>

definition holds :: "byte list list \<Rightarrow> stream \<Rightarrow> bool" where
  "holds R st \<longleftrightarrow> subseq (held st) R
     \<and> int (length R) \<le> int (length (held st)) + overflows st + int (st_errors st) \<and> queue_inv (st_queue st)"

lemma holds_calm: "holds R st \<Longrightarrow> calm st st' \<Longrightarrow> holds R st'"
  by (auto simp: holds_def calm_def held_def queued_def overflows_def)

text \<open>What the loop may change: it needs and leaves at most one packet under way.\<close>

definition pumped :: "byte list list \<Rightarrow> bool \<Rightarrow> stream \<Rightarrow> stream \<Rightarrow> bool" where
  "pumped R p st st' \<longleftrightarrow> holds R st' \<and> length (in_flight st') \<le> 1
     \<and> (in_flight st' \<noteq> [] \<longrightarrow> st_processing st' = p) \<and> st_sockets st' = st_sockets st"

lemma decode_packet_held:
  assumes "decode_packet b dat ts st = (go, st')" and "in_flight st = []"
    and "subseq (decode_requests (st_posted st) @ [dat] @ queued st) R"
    and "int (length R) \<le> int (length (decode_requests (st_posted st) @ [dat] @ queued st)) + overflows st + int (st_errors st)"
    and "queue_inv (st_queue st)"
  shows "holds R st' \<and> (go \<longrightarrow> in_flight st' = []) \<and> length (in_flight st') \<le> 1
    \<and> st_processing st' = st_processing st \<and> st_sockets st' = st_sockets st \<and> st_decoder st' = st_decoder st"
proof -
  have "subseq (decode_requests (st_posted st) @ queued st) R"
    using assms(3) by (rule subseq_order.trans [rotated])
      (simp only: subseq_append' append_Cons append_Nil list_emb_Cons [OF subseq_order.order_refl])
  then show ?thesis
    using assms
    by (auto simp: decode_packet_def holds_def held_def in_flight_def queued_def overflows_def handleError_def
        post_request_def split: posting.splits)
qed

lemma pump_holds:
  assumes "holds R st" and "in_flight st = []"
  shows "pumped R (st_processing st) st (pump st)"
  using assms
proof (induction st rule: pump.induct)
  case (1 st)
  show ?case
  proof (cases "st_decoder st = None \<or> queue (st_queue st) = []")
    case True
    then have "pump st = st\<lparr>st_processing := False\<rparr>"
      by (subst pump.simps) (auto split: option.splits list.splits)
    then show ?thesis using 1(2,3) by (simp add: pumped_def holds_def held_def in_flight_def queued_def overflows_def)
  next
    case False
    then obtain b p ps where b: "st_decoder st = Some b" and q: "queue (st_queue st) = p # ps"
      by (auto simp: neq_Nil_conv)
    let ?st1 = "snd (take_packet st)"
    have d: "dequeue (st_queue st) = (Some p, snd (dequeue (st_queue st)))" "queue (snd (dequeue (st_queue st))) = ps"
      "totalOverflows (q_stats (snd (dequeue (st_queue st)))) = totalOverflows (q_stats (st_queue st))"
      using q by (simp_all add: dequeue_def)
    have st1: "?st1 = st\<lparr>st_queue := snd (dequeue (st_queue st))\<rparr>" by (simp add: take_packet_def Let_def case_prod_beta)
    have inv1: "queue_inv (st_queue ?st1)" using 1(2) dequeue_inv by (simp add: st1 holds_def)
    have flight1: "in_flight ?st1 = []" using 1(3) by (simp add: st1 in_flight_def)
    have h: "held st = decode_requests (st_posted ?st1) @ [data_bytes (pk_data p)] @ queued ?st1"
      using 1(3) q d by (simp add: held_def st1 queued_def)
    have R: "subseq (decode_requests (st_posted ?st1) @ [data_bytes (pk_data p)] @ queued ?st1) R"
      "int (length R) \<le> int (length (decode_requests (st_posted ?st1) @ [data_bytes (pk_data p)] @ queued ?st1))
        + overflows ?st1 + int (st_errors ?st1)"
      using 1(2) d(3) unfolding h [symmetric] by (simp_all add: holds_def overflows_def st1)
    show ?thesis
    proof (cases "pk_data p")
      case (Blob dat)
      let ?st2 = "?st1\<lparr>st_blobs := st_blobs ?st1 @ [(dat, pk_timestamp p)]\<rparr>"
      have "pump st = ?st2" using b q Blob by (subst pump.simps) (simp add: Let_def)
      moreover have "in_flight ?st2 = [dat]" using flight1 by (simp add: in_flight_def)
      ultimately show ?thesis
        using R inv1 Blob by (simp add: pumped_def holds_def held_def st1 queued_def overflows_def)
    next
      case (ArrayBuffer dat)
      obtain go st2 where r: "decode_packet b dat (pk_timestamp p) ?st1 = (go, st2)" by fastforce
      have h2: "holds R st2" "go \<longrightarrow> in_flight st2 = []" "length (in_flight st2) \<le> 1" "st_processing st2 = st_processing st"
        "st_sockets st2 = st_sockets st" "st_decoder st2 = st_decoder st"
        using decode_packet_held [OF r flight1 _ _ inv1, of R] R ArrayBuffer by (simp_all add: st1)
      have p: "pump st = (if go then pump st2 else st2)" using b q ArrayBuffer r by (subst pump.simps) (simp add: Let_def)
      show ?thesis
      proof (cases go)
        case True
        have "pumped R (st_processing st2) st2 (pump st2)"
          using 1(1) [of "st_decoder st" "queue (st_queue st)" b p ps ?st1 dat "decode_packet b dat (pk_timestamp p) ?st1" go st2]
            b q ArrayBuffer r h2 True by simp
        then show ?thesis using p True h2 by (simp add: pumped_def)
      next
        case False
        then show ?thesis using p h2 by (simp add: pumped_def)
      qed
    qed
  qed
qed

section \<open>The steps keep it\<close>

definition receiving :: "stream \<Rightarrow> bool" where
  "receiving st \<longleftrightarrow> SocketConnecting \<in> set (map so_state (st_sockets st)) \<or> SocketOpen \<in> set (map so_state (st_sockets st))"

text \<open>\<open>ws\<close> is what is being resumed.\<close>

definition resuming :: "byte list list \<Rightarrow> (nat \<times> waiting) list \<Rightarrow> stream \<Rightarrow> bool" where
  "resuming R ws st \<longleftrightarrow>
     subseq (decode_requests (st_posted st) @ flights ws @ in_flight st @ queued st) R
     \<and> int (length R) \<le> int (length (decode_requests (st_posted st) @ flights ws @ in_flight st @ queued st))
         + overflows st + int (st_errors st)
     \<and> queue_inv (st_queue st) \<and> length (flights ws @ in_flight st) \<le> 1
     \<and> (flights ws @ in_flight st \<noteq> [] \<longrightarrow> st_processing st \<or> \<not> receiving st)"

definition order_inv :: "byte list list \<Rightarrow> stream \<Rightarrow> bool" where
  "order_inv R st \<longleftrightarrow> resuming R [] st \<and> length (st_sockets st) \<le> 1"

lemma resuming_calm: "resuming R ws st \<Longrightarrow> calm st st' \<Longrightarrow> resuming R ws st'"
  by (auto simp: resuming_def calm_def queued_def overflows_def receiving_def)

lemma pumped_resuming:
  assumes "pumped R p st st'" and "p \<or> \<not> receiving st"
  shows "resuming R [] st'"
  using assms by (auto simp: pumped_def resuming_def holds_def held_def receiving_def)

lemma resume_resuming:
  assumes "resuming R ((d, w) # ws) st"
  shows "resuming R ws (resume now why (d, w) st) \<and> length (st_sockets (resume now why (d, w) st)) = length (st_sockets st)"
proof -
  have len: "length (st_sockets st') = length (st_sockets st)" if "calm st st'" for st'
    using that unfolding calm_def by (metis length_map)
  have calm: "?thesis" if "calm st (resume now why (d, w) st)" and "flights ((d, w) # ws) = flights ws"
  proof -
    have "resuming R ws st" using assms that(2) by (simp add: resuming_def)
    then show ?thesis using resuming_calm that(1) len by blast
  qed
  show ?thesis
  proof (cases w)
    case (OfferWaits n a)
    then show ?thesis by (intro calm) (simp_all add: resume_def calm_decoder_ready calm_reject)
  next
    case (AudioWaits n c)
    then show ?thesis
      by (intro calm) (simp_all add: resume_def calm_reject calm_trans [OF calm_fields(3) calm_accept])
  next
    case (DecodeWaits dat ts)
    have empty: "flights ws = []" "in_flight st = []" and p: "st_processing st \<or> \<not> receiving st"
      using assms by (auto simp: resuming_def DecodeWaits)
    let ?st1 = "if after_init (st_bridges st ! d) = Posts then post_request d (DecodeRequest dat ts) st else handleError st"
    have "subseq (decode_requests (st_posted st) @ queued st) (decode_requests (st_posted st) @ dat # queued st)"
      by (simp only: subseq_append' list_emb_Cons [OF subseq_order.order_refl])
    then have "subseq (decode_requests (st_posted st) @ queued st) R"
      using assms empty by (auto simp: resuming_def DecodeWaits intro: subseq_order.trans)
    then have st1: "holds R ?st1" "in_flight ?st1 = []" "st_processing ?st1 = st_processing st" "st_sockets ?st1 = st_sockets st"
      using assms empty by (auto simp: resuming_def DecodeWaits holds_def held_def queued_def overflows_def in_flight_def
          post_request_def handleError_def)
    have pumped: "pumped R (st_processing st) ?st1 (pump ?st1)" using pump_holds [OF st1(1,2)] st1(3) by simp
    moreover have "st_processing st \<or> \<not> receiving ?st1" using p st1(4) by (simp add: receiving_def)
    ultimately have "resuming R [] (pump ?st1)" by (rule pumped_resuming)
    then have "resuming R ws (pump ?st1)" using empty(1) by (simp add: resuming_def)
    moreover have "st_sockets (pump ?st1) = st_sockets st" using pumped st1(4) by (simp add: pumped_def)
    moreover have "resume now why (d, w) st = pump ?st1" by (simp add: resume_def DecodeWaits)
    ultimately show ?thesis by simp
  qed
qed

lemma fold_resuming:
  "resuming R ws st \<Longrightarrow> resuming R [] (fold (resume now why) ws st)
    \<and> length (st_sockets (fold (resume now why) ws st)) = length (st_sockets st)"
proof (induction ws arbitrary: st)
  case (Cons x ws)
  then show ?case using resume_resuming [of R "fst x" "snd x" ws st now why] by auto
qed simp

lemma flights_split:
  "length (flights ws) \<le> 1 \<Longrightarrow> flights (filter P ws) @ flights (filter (\<lambda>w. \<not> P w) ws) = flights ws"
proof (induction ws)
  case (Cons x ws)
  obtain d w where x: "x = (d, w)" by (cases x)
  show ?case
  proof (cases w)
    case (DecodeWaits dat ts)
    then have "flights ws = []" using Cons.prems x by simp
    moreover from this have "flights (filter Q ws) = []" for Q by (induction ws) (auto simp: flights_def)
    ultimately show ?thesis using x DecodeWaits by simp
  qed (use Cons x in auto)
qed simp

lemma settle_order:
  assumes "order_inv R st"
  shows "order_inv R (settle_bridge now why p d st)"
proof (cases "d < length (st_bridges st) \<and> br_promise (st_bridges st ! d) = Pending")
  case False
  then show ?thesis using assms unfolding settle_bridge_def if_not_P [OF False] by simp
next
  case True
  let ?ws = "filter (\<lambda>w. fst w = d) (st_waiting st)"
  let ?st1 = "(set_bridge d ((st_bridges st ! d)\<lparr>br_promise := p\<rparr>) st)\<lparr>st_waiting := filter (\<lambda>w. fst w \<noteq> d) (st_waiting st)\<rparr>"
  have "length (flights (st_waiting st)) \<le> 1" using assms by (simp add: order_inv_def resuming_def in_flight_def)
  from flights_split [OF this, of "\<lambda>w. fst w = d"]
  have f: "flights ?ws @ in_flight ?st1 = in_flight st" by (simp add: in_flight_def set_bridge_def)
  then have f': "flights ?ws @ in_flight ?st1 @ x = in_flight st @ x" for x by (metis append_assoc)
  have same: "st_posted ?st1 = st_posted st" "st_queue ?st1 = st_queue st" "st_errors ?st1 = st_errors st"
    "st_processing ?st1 = st_processing st" "st_sockets ?st1 = st_sockets st" by (simp_all add: set_bridge_def)
  have "resuming R ?ws ?st1"
    using assms unfolding order_inv_def resuming_def f f' same queued_def overflows_def receiving_def by simp
  from fold_resuming [OF this, of now why] show ?thesis
    using assms True by (simp add: order_inv_def settle_bridge_def) (simp add: set_bridge_def)
qed

lemma calm_sockets: "calm st st' \<Longrightarrow> length (st_sockets st') = length (st_sockets st)"
  unfolding calm_def by (metis length_map)

lemma order_calm: "order_inv R st \<Longrightarrow> calm st st' \<Longrightarrow> order_inv R st'"
  using resuming_calm [of R "[]" st st'] calm_sockets [of st st'] by (simp add: order_inv_def)

lemma order_pump:
  assumes "holds R st" "in_flight st = []" "st_processing st \<or> \<not> receiving st" "length (st_sockets st) \<le> 1"
  shows "order_inv R (pump st)"
proof -
  have p: "pumped R (st_processing st) st (pump st)" by (rule pump_holds [OF assms(1,2)])
  then have "st_sockets (pump st) = st_sockets st" by (simp add: pumped_def)
  then show ?thesis using pumped_resuming [OF p assms(3)] assms(4) by (simp add: order_inv_def)
qed

lemma blob_order:
  assumes "order_inv R st"
  shows "order_inv R (blob_read st)"
proof (cases "st_blobs st")
  case Nil
  then show ?thesis using assms by (simp add: blob_read_def)
next
  case (Cons x rest)
  obtain dat ts where x: "x = (dat, ts)" by (cases x)
  let ?st1 = "st\<lparr>st_blobs := rest\<rparr>"
  have f: "flights (st_waiting st) = []" "rest = []"
    using assms Cons by (auto simp: order_inv_def resuming_def in_flight_def)
  have p: "st_processing st \<or> \<not> receiving st" using assms Cons by (auto simp: order_inv_def resuming_def in_flight_def)
  have one: "length (st_sockets st) \<le> 1" using assms by (simp add: order_inv_def)
  have empty: "in_flight ?st1 = []" using f by (simp add: in_flight_def)
  have R: "subseq (decode_requests (st_posted ?st1) @ [dat] @ queued ?st1) R"
    "int (length R) \<le> int (length (decode_requests (st_posted ?st1) @ [dat] @ queued ?st1)) + overflows ?st1 + int (st_errors ?st1)"
    "queue_inv (st_queue ?st1)"
    using assms Cons x f by (simp_all add: order_inv_def resuming_def in_flight_def queued_def overflows_def)
  show ?thesis
  proof (cases "st_decoder st")
    case None
    have "subseq (decode_requests (st_posted ?st1) @ queued ?st1) R"
      using R(1) by (rule subseq_order.trans [rotated])
        (simp only: subseq_append' append_Cons append_Nil list_emb_Cons [OF subseq_order.order_refl])
    then have "holds R (handleError ?st1)"
      using R empty by (simp add: holds_def held_def handleError_def queued_def overflows_def in_flight_def)
    moreover have "in_flight (handleError ?st1) = []" using empty by (simp add: in_flight_def handleError_def)
    ultimately have "order_inv R (pump (handleError ?st1))"
      using p one by (intro order_pump) (simp_all add: handleError_def receiving_def)
    then show ?thesis using Cons x None by (simp add: blob_read_def)
  next
    case (Some b)
    obtain go st2 where r: "decode_packet b dat ts ?st1 = (go, st2)" by fastforce
    have h: "holds R st2" "go \<longrightarrow> in_flight st2 = []" "length (in_flight st2) \<le> 1" "st_processing st2 = st_processing st"
      "st_sockets st2 = st_sockets st"
      using decode_packet_held [OF r empty R] by simp_all
    have b: "blob_read st = (if go then pump st2 else st2)" using Cons x Some r by (simp add: blob_read_def)
    have p2: "st_processing st2 \<or> \<not> receiving st2" using p h(4,5) by (simp add: receiving_def)
    show ?thesis
    proof (cases go)
      case True
      then show ?thesis using b h p2 one order_pump [of R st2] by simp
    next
      case False
      have "resuming R [] st2" using h p2 by (simp add: resuming_def holds_def held_def)
      then show ?thesis using b False h(5) one by (simp add: order_inv_def)
    qed
  qed
qed

text \<open>A packet arrives.\<close>

lemma enqueue_count:
  "int (length (queue (enqueue t d q))) + totalOverflows (q_stats (enqueue t d q))
    = int (length (queue q)) + totalOverflows (q_stats q) + 1"
  by (auto simp: enqueue_def drop_oldest_def Let_def split: list.splits)

lemma arrival_order:
  assumes "order_inv R st" and "receiving st"
  shows "order_inv (R @ [data_bytes d]) (handleWebSocketMessage now (BinaryData d) st)"
proof -
  let ?st1 = "st\<lparr>st_messages := st_messages st + 1, st_bytes := st_bytes st + data_size d, st_queue := enqueue now d (st_queue st)\<rparr>"
  obtain k where k: "queue (enqueue now d (st_queue st)) = drop k (queue (st_queue st)) @ [packet_of now d]"
    using buffer.enq_contents assms(1) by (fastforce simp: order_inv_def resuming_def)
  have q: "queued ?st1 = drop k (queued st) @ [data_bytes d]" by (simp add: queued_def k packet_of_def drop_map)
  have same: "in_flight ?st1 = in_flight st" by (simp add: in_flight_def)
  have dropped: "subseq (decode_requests (st_posted st) @ in_flight st @ drop k (queued st))
      (decode_requests (st_posted st) @ in_flight st @ queued st)"
    by (simp add: subseq_append' suffix_drop suffix_imp_subseq)
  have "subseq (decode_requests (st_posted st) @ in_flight st @ queued st) R"
    using assms(1) by (simp add: order_inv_def resuming_def)
  with dropped have "subseq (decode_requests (st_posted st) @ in_flight st @ drop k (queued st)) R"
    by (rule subseq_order.trans)
  from list_emb_append_mono [OF this subseq_order.order_refl [of "[data_bytes d]"]]
  have sub: "subseq (held ?st1) (R @ [data_bytes d])" by (simp add: held_def q same)
  have count: "int (length (queued ?st1)) + overflows ?st1 = int (length (queued st)) + overflows st + 1"
    using enqueue_count [of now d "st_queue st"] by (simp add: queued_def overflows_def)
  have holds: "holds (R @ [data_bytes d]) ?st1"
    using sub count assms(1) enqueue_inv by (simp add: holds_def order_inv_def resuming_def held_def same)
  have "order_inv (R @ [data_bytes d]) (processQueue ?st1)"
  proof (cases "st_processing st")
    case True
    then show ?thesis using holds assms(1) by (simp add: processQueue_def order_inv_def resuming_def holds_def held_def same)
  next
    case False
    then have "in_flight st = []" using assms by (simp add: order_inv_def resuming_def)
    then have e: "in_flight (?st1\<lparr>st_processing := True\<rparr>) = []" by (simp add: in_flight_def)
    have "holds (R @ [data_bytes d]) (?st1\<lparr>st_processing := True\<rparr>)"
      using holds by (simp add: holds_def held_def in_flight_def queued_def overflows_def)
    then have "order_inv (R @ [data_bytes d]) (pump (?st1\<lparr>st_processing := True\<rparr>))"
      using e assms(1) by (intro order_pump) (simp_all add: order_inv_def)
    then show ?thesis using False by (simp add: processQueue_def)
  qed
  moreover have "calm st' (updateDataRate now st')" for st'
    by (simp add: updateDataRate_def Let_def calm_def in_flight_def)
  ultimately show ?thesis by (simp add: handleWebSocketMessage_def Let_def order_calm)
qed

section \<open>A connection\<close>

fun steady :: "int \<times> js_string \<times> client_event \<Rightarrow> bool" where
  "steady (now, why, Connect accepted) \<longleftrightarrow> False"
| "steady (now, why, Disconnect) \<longleftrightarrow> False"
| "steady _ \<longleftrightarrow> True"

lemma socket_state_change:
  assumes "order_inv R st" and "n < length (st_sockets st)"
    and "receiving (set_socket n f st) \<Longrightarrow> receiving st"
  shows "order_inv R (set_socket n f st)"
  using assms by (auto simp: order_inv_def resuming_def set_socket_def in_flight_def queued_def overflows_def)

lemma socket_receiving:
  assumes "n < length (st_sockets st)" and "so_state (st_sockets st ! n) = SocketConnecting \<or> so_state (st_sockets st ! n) = SocketOpen"
  shows "receiving st"
proof -
  have "so_state (st_sockets st ! n) \<in> set (map so_state (st_sockets st))" using assms(1) by simp
  then show ?thesis using assms(2) unfolding receiving_def by (metis (no_types))
qed

lemma message_order:
  assumes "order_inv R st" and "n < length (st_sockets st)" "so_state (st_sockets st ! n) = SocketOpen"
  shows "order_inv (R @ arrivals (now, why, Message mw n dat) st) (onmessage now why mw n dat st)"
proof (cases dat)
  case (BinaryData d)
  have "receiving st" using socket_receiving [OF assms(2)] assms(3) by simp
  from arrival_order [OF assms(1) this] show ?thesis
    using assms(2,3) BinaryData by (simp add: onmessage_def split: bool.splits)
next
  case (TextData t)
  have "calm st (handleWebSocketMessage now (TextData t) st)"
    by (simp add: handleWebSocketMessage_def Let_def calm_def in_flight_def)
  then have "calm st (onmessage now why mw n dat st)"
    using calm_start_decoder by (simp add: onmessage_def TextData split: bool.splits offer_reaction.splits)
  then show ?thesis using order_calm [OF assms(1)] TextData by simp
qed

lemma close_order:
  assumes "order_inv R st" and "n < length (st_sockets st)"
  shows "order_inv R (onclose n st)"
proof -
  have "n = 0" "length (st_sockets st) = 1" using assms by (auto simp: order_inv_def)
  then obtain s where "st_sockets st = [s]" by (auto simp: length_Suc_conv)
  then show ?thesis using assms(1) \<open>n = 0\<close>
    by (simp add: onclose_def set_socket_def order_inv_def resuming_def in_flight_def queued_def overflows_def receiving_def)
qed

lemma step_order:
  assumes "order_inv R st" and "steady e"
  shows "order_inv (R @ arrivals e st) (client_step e st)"
proof -
  obtain now why ev where e: "e = (now, why, ev)" by (cases e)
  show ?thesis
  proof (cases ev)
    case (SocketOpens n)
    have "receiving st" if "n < length (st_sockets st)" "so_state (st_sockets st ! n) = SocketConnecting"
      using socket_receiving that by simp
    then show ?thesis using assms(1) e SocketOpens socket_state_change by simp
  next
    case (Message mw n dat)
    then show ?thesis using assms(1) e message_order [OF assms(1), of n now why mw dat] by (cases dat) auto
  next
    case (WorkerFails d)
    have "calm st (worker_error d st)" by (simp add: worker_error_def)
    then show ?thesis using assms(1) e WorkerFails by (simp add: settle_order order_calm)
  next
    case (WorkerThrows d)
    have "calm st (handleWorkerError d st)" by (simp add: handleWorkerError_def)
    then show ?thesis using assms(1) e WorkerThrows by (simp add: order_calm)
  qed (use assms e in \<open>simp_all add: close_order settle_order blob_order order_calm calm_fail_connect\<close>)
qed

lemma run_order: "order_inv R st \<Longrightarrow> list_all steady es \<Longrightarrow> order_inv (R @ received es st) (client_run es st)"
proof (induction es arbitrary: R st)
  case (Cons e es)
  then show ?case using step_order [of R st e] Cons.IH [of "R @ arrivals e st" "client_step e st"]
    by (simp add: client_run_def)
qed (simp add: client_run_def)

text \<open>C8: the packets of a connection: whatever happens on it, in whatever order the socket and the worker
  answer, the packets posted to the worker, the one under way and the ones in the queue are the
  ones received, in the order received; and every packet that is missing was dropped by the
  queue or counts as an error that was reported.\<close>

theorem packets_in_order:
  assumes "list_all steady es" and "case config of Some (Some n, _) \<Rightarrow> 0 \<le> n | _ \<Rightarrow> True"
    and "st0 = connect True (new_stream config)" and "st = client_run es st0"
  shows "subseq (decode_requests (st_posted st) @ in_flight st @ queued st) (received es st0)
    \<and> int (length (received es st0))
        \<le> int (length (decode_requests (st_posted st) @ in_flight st @ queued st)) + overflows st + int (st_errors st)"
proof -
  have "queue_inv (st_queue (new_stream config))"
    using assms(2) new_queue_inv by (auto simp: new_stream_def split: option.splits prod.splits)
  moreover have "queue (st_queue (new_stream config)) = []" "totalOverflows (q_stats (st_queue (new_stream config))) = 0"
    by (simp_all add: new_stream_def new_queue_def split: option.splits prod.splits)
  ultimately have "order_inv [] st0"
    by (simp add: assms(3) connect_def order_inv_def resuming_def in_flight_def queued_def overflows_def)
      (simp add: new_stream_def)
  from run_order [OF this assms(1)] show ?thesis
    by (simp add: assms(4) order_inv_def resuming_def)
qed

section \<open>Witness\<close>

text \<open>An offer without streams, two packets that arrive before the worker is ready, and one behind.\<close>

definition sample_events :: "(int \<times> js_string \<times> client_event) list" where
  "sample_events = [(0, [], SocketOpens 0), (1, [], Message True 0 (TextData small_offer)),
     (2, [], Message True 0 (BinaryData (ArrayBuffer [1]))), (3, [], Message True 0 (BinaryData (ArrayBuffer [2]))),
     (4, [], WorkerReady 0), (5, [], Message True 0 (BinaryData (ArrayBuffer [3])))]"

lemma decode_requests_Cons:
  "decode_requests ((d, DecodeRequest dat ts) # rs) = dat # decode_requests rs"
  "decode_requests ((d, InitRequest c) # rs) = decode_requests rs"
  by (simp_all add: decode_requests_def)

lemma sample_run:
  "decode_requests (st_posted (client_run sample_events (connect True (new_stream None)))) = [[1], [2], [3]]"
  "received sample_events (connect True (new_stream None)) = [[1], [2], [3]]"
  by (simp_all add: sample_events_def client_run_def connect_def new_stream_def set_socket_def onmessage_def small_offer_read
     start_decoder_def bridge_init_def new_bridge_def post_request_def handleWebSocketMessage_def processQueue_def
     pump.simps enqueue_def new_queue_def or_default_def dequeue_def take_packet_def decode_packet_def bridge_request_def after_init_def
     data_size_def updateDataRate_def settle_bridge_def set_bridge_def resume_def decoder_ready_def accept_offer_def ws_send_def
     settle_socket_def drop_oldest_def decode_requests_Cons)

lemma sample_steady: "list_all steady sample_events"
  by (simp add: sample_events_def)

theorem packets_in_order_witness:
  "\<exists>st. st = client_run sample_events (connect True (new_stream None))
     \<and> decode_requests (st_posted st) = [[1], [2], [3]]
     \<and> subseq (decode_requests (st_posted st) @ in_flight st @ queued st) [[1], [2], [3]]"
proof -
  have "case None of Some (Some n, _) \<Rightarrow> (0::int) \<le> n | _ \<Rightarrow> True" by simp
  from packets_in_order [OF sample_steady this refl refl] sample_run show ?thesis by simp
qed

end
