(* ===== verification/StreamAnswers.thy ===== *)
theory StreamAnswers
  imports StreamClient
begin

text \<open>
  What a stream of the browser answers, src/js/stream/StreamInstance.ts: it accepts an offer only
  when there was one and a worker has reported that its decoder is ready, however often the page
  connects and disconnects.
\<close>

section \<open>Sockets and workers\<close>

definition answers :: "stream \<Rightarrow> (bool \<times> js_string list) list" where
  "answers st = map (\<lambda>s. (so_negotiated s, so_sent s)) (st_sockets st)"

definition ready :: "stream \<Rightarrow> bool" where
  "ready st \<longleftrightarrow> Fulfilled \<in> set (map br_promise (st_bridges st))"

definition answer_ok :: "bool \<Rightarrow> bool \<times> js_string list \<Rightarrow> bool" where
  "answer_ok r = (\<lambda>(negotiated, sent). set sent \<subseteq> insert accepting_answer (range rejecting_answer)
     \<and> (negotiated \<or> accepting_answer \<in> set sent \<longrightarrow> r))"

definition answers_ok :: "stream \<Rightarrow> bool" where
  "answers_ok st \<longleftrightarrow> list_all (answer_ok (ready st)) (answers st)"

text \<open>A step that answers nothing: the promises of the workers stay, but there may be more.\<close>

definition quiet :: "stream \<Rightarrow> stream \<Rightarrow> bool" where
  "quiet st st' \<longleftrightarrow> answers st' = answers st \<and> map br_promise (st_bridges st') = map br_promise (st_bridges st)"

lemma quiet_refl [simp]: "quiet st st"
  by (simp add: quiet_def)

lemma quiet_trans: "quiet a b \<Longrightarrow> quiet b c \<Longrightarrow> quiet a c"
  by (simp add: quiet_def)

lemma quiet_ok: "answers_ok st \<Longrightarrow> quiet st st' \<Longrightarrow> answers_ok st'"
  by (simp add: answers_ok_def quiet_def ready_def)

lemma quiet_fields [simp]:
  "quiet st (handleError st)" "quiet st (post_request d r st)" "quiet st (st\<lparr>st_status := x\<rparr>)"
  "quiet st (st\<lparr>st_queue := q\<rparr>)" "quiet st (st\<lparr>st_processing := b\<rparr>)" "quiet st (st\<lparr>st_waiting := w\<rparr>)"
  "quiet st (st\<lparr>st_blobs := bl\<rparr>)"
  by (simp_all add: quiet_def answers_def handleError_def post_request_def)

lemma map_update_same: "n < length xs \<Longrightarrow> f y = f (xs ! n) \<Longrightarrow> map f (xs[n := y]) = map f xs"
  by (metis list_update_id map_update nth_map)

lemma quiet_set_socket:
  assumes "\<And>s. so_negotiated (f s) = so_negotiated s" "\<And>s. so_sent (f s) = so_sent s"
  shows "quiet st (set_socket n f st)"
proof (cases "n < length (st_sockets st)")
  case True
  then show ?thesis using assms by (simp add: quiet_def answers_def set_socket_def map_update_same)
qed (simp add: quiet_def set_socket_def list_update_beyond)

lemma quiet_set_bridge:
  "br_promise b = br_promise (st_bridges st ! d) \<Longrightarrow> quiet st (set_bridge d b st)"
  by (cases "d < length (st_bridges st)")
    (simp_all add: quiet_def set_bridge_def answers_def map_update_same list_update_beyond)

lemma quiet_fail_connect: "quiet st (fail_connect n st)"
proof -
  have "quiet st (set_socket n (settle_socket Failed) st)" by (rule quiet_set_socket) (simp_all add: settle_socket_def)
  then show ?thesis unfolding fail_connect_def by (simp add: quiet_trans [OF quiet_trans [OF _ quiet_fields(3)] quiet_fields(1)])
qed

lemma quiet_decode_packet: "quiet st (snd (decode_packet b dat ts st))"
  by (simp add: decode_packet_def split: posting.splits)

lemma quiet_take: "quiet st (snd (take_packet st))"
  by (simp add: take_packet_def case_prod_beta Let_def)

lemma quiet_pump: "quiet st (pump st)"
proof (induction st rule: pump.induct)
  case (1 st)
  show ?case
  proof (cases "st_decoder st = None \<or> queue (st_queue st) = []")
    case True
    then have "pump st = st\<lparr>st_processing := False\<rparr>"
      by (subst pump.simps) (auto split: option.splits list.splits)
    then show ?thesis by simp
  next
    case False
    then obtain b p ps where b: "st_decoder st = Some b" and q: "queue (st_queue st) = p # ps"
      by (auto simp: neq_Nil_conv)
    let ?st1 = "snd (take_packet st)"
    show ?thesis
    proof (cases "pk_data p")
      case (Blob dat)
      then have "pump st = ?st1\<lparr>st_blobs := st_blobs ?st1 @ [(dat, pk_timestamp p)]\<rparr>"
        using b q by (subst pump.simps) (simp add: Let_def)
      then show ?thesis using quiet_trans [OF quiet_take quiet_fields(7)] by simp
    next
      case (ArrayBuffer dat)
      obtain go st2 where r: "decode_packet b dat (pk_timestamp p) ?st1 = (go, st2)" by fastforce
      have st2: "quiet st st2" using quiet_trans [OF quiet_take quiet_decode_packet] r by (metis snd_conv)
      have p: "pump st = (if go then pump st2 else st2)" using b q ArrayBuffer r by (subst pump.simps) (simp add: Let_def)
      have "go \<Longrightarrow> quiet st2 (pump st2)"
        using 1(1) [of "st_decoder st" "queue (st_queue st)" b p ps ?st1 dat "decode_packet b dat (pk_timestamp p) ?st1" go st2]
          b q ArrayBuffer r by simp
      then show ?thesis using p st2 by (auto intro: quiet_trans)
    qed
  qed
qed

section \<open>Answers\<close>

lemma accepting_not_rejecting: "accepting_answer \<noteq> rejecting_answer why"
  using accepting_read(2) rejecting_read(2) [of why] by metis

lemma send_ok:
  assumes "answers_ok st" and "ws_send t st = Some st'" and "t \<in> insert accepting_answer (range rejecting_answer)"
    and "t = accepting_answer \<Longrightarrow> ready st"
  shows "answers_ok st'" and "map br_promise (st_bridges st') = map br_promise (st_bridges st)"
proof -
  have b: "st_bridges st' = st_bridges st"
    using assms(2) by (auto simp: ws_send_def set_socket_def split: option.splits socket_state.splits)
  then show "map br_promise (st_bridges st') = map br_promise (st_bridges st)" by simp
  have r: "ready st' = ready st" using b by (simp add: ready_def)
  show "answers_ok st'"
  proof (cases "st' = st")
    case True
    then show ?thesis using assms(1) by simp
  next
    case False
    then obtain n where st': "st' = set_socket n (\<lambda>s. s\<lparr>so_sent := so_sent s @ [t]\<rparr>) st"
      using assms(2) by (auto simp: ws_send_def split: option.splits socket_state.splits)
    show ?thesis
    proof (cases "n < length (st_sockets st)")
      case True
      have a: "answers st' = (answers st)[n := (so_negotiated (st_sockets st ! n), so_sent (st_sockets st ! n) @ [t])]"
        by (simp add: answers_def st' set_socket_def map_update)
      have "answer_ok (ready st) (so_negotiated (st_sockets st ! n), so_sent (st_sockets st ! n))"
        using assms(1) True by (simp add: answers_ok_def answers_def list_all_length)
      then have "answer_ok (ready st) (so_negotiated (st_sockets st ! n), so_sent (st_sockets st ! n) @ [t])"
        using assms(3,4) by (auto simp: answer_ok_def)
      then show ?thesis using assms(1) unfolding answers_ok_def r a
        by (auto simp: list_all_iff dest!: set_update_subset_insert [THEN subsetD])
    qed (use st' assms(1) in \<open>simp add: set_socket_def list_update_beyond\<close>)
  qed
qed

lemma reject_ok:
  assumes "answers_ok st"
  shows "answers_ok (reject_offer why n st)"
proof (cases "ws_send (rejecting_answer why) st")
  case (Some st1)
  have "answers_ok st1" using send_ok(1) [OF assms Some] accepting_not_rejecting [of why] by auto
  then show ?thesis using Some quiet_ok [OF _ quiet_fail_connect] by (simp add: reject_offer_def)
qed (use assms in \<open>simp add: reject_offer_def\<close>)

lemma negotiate_ok:
  assumes "answers_ok st" and "ready st"
  shows "answers_ok (set_socket n (\<lambda>s. settle_socket Fulfilled (s\<lparr>so_negotiated := True\<rparr>)) st)"
proof (cases "n < length (st_sockets st)")
  case True
  let ?s = "st_sockets st ! n"
  have a: "answers (set_socket n (\<lambda>s. settle_socket Fulfilled (s\<lparr>so_negotiated := True\<rparr>)) st)
      = (answers st)[n := (True, so_sent ?s)]"
    by (simp add: answers_def set_socket_def map_update settle_socket_def)
  have "answer_ok (ready st) (so_negotiated ?s, so_sent ?s)"
    using assms(1) True by (simp add: answers_ok_def answers_def list_all_length)
  then have "answer_ok (ready st) (True, so_sent ?s)" using assms(2) by (simp add: answer_ok_def)
  moreover have "ready (set_socket n f st) = ready st" for f by (simp add: ready_def set_socket_def)
  ultimately show ?thesis using assms(1) unfolding answers_ok_def a
    by (auto simp: list_all_iff dest!: set_update_subset_insert [THEN subsetD])
qed (use assms(1) in \<open>simp add: set_socket_def list_update_beyond\<close>)

lemma accept_ok:
  assumes "answers_ok st" and "ready st"
  shows "answers_ok (accept_offer now why n st)"
proof (cases "ws_send accepting_answer st")
  case None
  then show ?thesis using assms(1) by (simp add: accept_offer_def reject_ok)
next
  case (Some st1)
  let ?st2 = "st1\<lparr>st_start := Some now, st_bytes := 0, st_messages := 0, st_lastUpdate := now, st_lastBytes := 0,
               st_status := Connected\<rparr>"
  have st1: "answers_ok st1" "ready st1" using send_ok [OF assms(1) Some] assms(2) by (simp_all add: ready_def)
  have "quiet st1 ?st2" by (simp add: quiet_def answers_def)
  then have "answers_ok ?st2" "ready ?st2" using st1 quiet_ok by (auto simp: ready_def)
  from negotiate_ok [OF this] show ?thesis by (simp add: accept_offer_def Some)
qed

section \<open>Steps\<close>

text \<open>A step that answers nothing it should not, and leaves the promises of the workers.\<close>

definition safe :: "stream \<Rightarrow> stream \<Rightarrow> bool" where
  "safe st st' \<longleftrightarrow> (answers_ok st \<longrightarrow> answers_ok st') \<and> map br_promise (st_bridges st') = map br_promise (st_bridges st)"

lemma safe_ready: "safe st st' \<Longrightarrow> ready st' = ready st"
  by (simp add: safe_def ready_def)

lemma safe_bridges: "safe st st' \<Longrightarrow> length (st_bridges st') = length (st_bridges st)"
  unfolding safe_def by (metis length_map)

lemma safe_trans: "safe a b \<Longrightarrow> safe b c \<Longrightarrow> safe a c"
  by (simp add: safe_def)

lemma quiet_safe: "quiet st st' \<Longrightarrow> safe st st'"
  using quiet_ok by (auto simp: safe_def quiet_def)

lemma safe_refl [simp]: "safe st st"
  by (simp add: quiet_safe)

lemma safe_fields [simp]: "safe st (post_request d r st)" "safe st (st\<lparr>st_waiting := w\<rparr>)" "safe st (handleError st)"
  by (simp_all add: quiet_safe)

lemma safe_send:
  assumes "ws_send t st = Some st'" and "t = accepting_answer \<and> ready st \<or> t = rejecting_answer why"
  shows "safe st st'"
  using send_ok [OF _ assms(1)] assms(2) accepting_not_rejecting [of why]
  by (cases "answers_ok st")
    (use assms(1) in \<open>auto simp: safe_def ws_send_def set_socket_def split: option.splits socket_state.splits\<close>)

lemma safe_reject: "safe st (reject_offer why n st)"
proof (cases "ws_send (rejecting_answer why) st")
  case (Some st1)
  then show ?thesis using safe_trans [OF safe_send [OF Some] quiet_safe [OF quiet_fail_connect]]
    by (auto simp: reject_offer_def)
qed (simp add: reject_offer_def)

lemma safe_accept: "ready st \<Longrightarrow> safe st (accept_offer now why n st)"
  using safe_send [of accepting_answer st] safe_reject accept_ok [of st now why n]
  by (simp add: safe_def accept_offer_def set_socket_def split: option.splits)

lemma ready_at: "d < length (st_bridges st) \<Longrightarrow> br_promise (st_bridges st ! d) = Fulfilled \<Longrightarrow> ready st"
  unfolding ready_def by (metis image_eqI nth_mem set_map)

lemma ready_post [simp]: "ready (post_request d r st) = ready st"
  by (simp add: ready_def post_request_def)

lemma safe_decoder_ready: "ready st \<Longrightarrow> safe st (decoder_ready now why n audio st)"
  using safe_accept safe_reject safe_trans [OF safe_fields(1) safe_accept]
  by (simp add: decoder_ready_def split: option.splits posting.splits)

lemma after_init_ready: "after_init b = Posts \<Longrightarrow> br_promise b = Fulfilled"
  by (simp add: after_init_def split: promise.splits)

lemma safe_resume: "fst w < length (st_bridges st) \<Longrightarrow> safe st (resume now why w st)"
proof (cases w)
  case (Pair d x)
  assume "fst w < length (st_bridges st)"
  then have r: "br_promise (st_bridges st ! d) = Fulfilled \<Longrightarrow> ready st" using Pair by (simp add: ready_at)
  show ?thesis
  proof (cases x)
    case OfferWaits
    then show ?thesis using Pair r safe_decoder_ready safe_reject by (simp add: resume_def)
  next
    case AudioWaits
    then show ?thesis using Pair r after_init_ready safe_reject safe_trans [OF safe_fields(1) safe_accept]
      by (simp add: resume_def)
  next
    case DecodeWaits
    then show ?thesis using Pair safe_trans [OF safe_fields(1) quiet_safe [OF quiet_pump]]
        safe_trans [OF safe_fields(3) quiet_safe [OF quiet_pump]]
      by (simp add: resume_def)
  qed
qed

lemma safe_resumes: "\<forall>w \<in> set ws. fst w < length (st_bridges st) \<Longrightarrow> safe st (fold (resume now why) ws st)"
proof (induction ws arbitrary: st)
  case (Cons w ws)
  then have s: "safe st (resume now why w st)" by (simp add: safe_resume)
  then have "safe (resume now why w st) (fold (resume now why) ws (resume now why w st))"
    using Cons safe_bridges [OF s] by simp
  then show ?case using s by (auto intro: safe_trans)
qed simp

text \<open>A worker becomes ready only by its own message.\<close>

lemma answers_ok_mono: "answers_ok st \<Longrightarrow> answers st' = answers st \<Longrightarrow> (ready st \<longrightarrow> ready st') \<Longrightarrow> answers_ok st'"
  by (auto simp: answers_ok_def answer_ok_def list_all_iff split: prod.splits)

lemma settle_bridge_ok:
  "(answers_ok st \<longrightarrow> answers_ok (settle_bridge now why p d st))
    \<and> (ready (settle_bridge now why p d st) \<longrightarrow> ready st \<or> p = Fulfilled)
    \<and> length (st_bridges (settle_bridge now why p d st)) = length (st_bridges st)"
proof (cases "d < length (st_bridges st) \<and> br_promise (st_bridges st ! d) = Pending")
  case True
  let ?st1 = "(set_bridge d ((st_bridges st ! d)\<lparr>br_promise := p\<rparr>) st)\<lparr>st_waiting := filter (\<lambda>w. fst w \<noteq> d) (st_waiting st)\<rparr>"
  let ?st2 = "settle_bridge now why p d st"
  have s: "safe ?st1 ?st2"
    unfolding settle_bridge_def if_P [OF True] by (rule safe_resumes) (use True in \<open>simp add: set_bridge_def\<close>)
  have "map br_promise (st_bridges ?st1) = (map br_promise (st_bridges st))[d := p]"
    by (simp add: set_bridge_def map_update)
  moreover have "Fulfilled \<in> set ((map br_promise (st_bridges st))[d := p])" if r: "ready st"
  proof -
    obtain i where i: "i < length (st_bridges st)" "br_promise (st_bridges st ! i) = Fulfilled"
      using r by (auto simp: ready_def in_set_conv_nth)
    then have "i \<noteq> d" using True by auto
    then have "(map br_promise (st_bridges st))[d := p] ! i = Fulfilled" using i by simp
    then show ?thesis using i(1) by (metis length_list_update length_map nth_mem)
  qed
  moreover have "Fulfilled \<in> set ((map br_promise (st_bridges st))[d := p]) \<Longrightarrow> ready st \<or> p = Fulfilled"
    using set_update_subset_insert [of "map br_promise (st_bridges st)" d p] by (auto simp: ready_def)
  ultimately have m: "ready st \<longrightarrow> ready ?st1" "ready ?st1 \<longrightarrow> ready st \<or> p = Fulfilled"
    unfolding ready_def by simp_all
  have "answers ?st1 = answers st" by (simp add: answers_def set_bridge_def)
  then have "answers_ok st \<longrightarrow> answers_ok ?st1" using m(1) answers_ok_mono by blast
  moreover have "length (st_bridges ?st1) = length (st_bridges st)" by (simp add: set_bridge_def)
  ultimately show ?thesis using s safe_ready [OF s] safe_bridges [OF s] m(2) by (simp add: safe_def)
qed (auto simp: settle_bridge_def)

lemma safe_disconnect: "safe st (disconnect st)"
proof (rule quiet_safe)
  let ?close = "\<lambda>s. if so_state s = SocketClosed then s else s\<lparr>so_state := SocketClosing\<rparr>"
  have q: "quiet st (set_socket n ?close (st\<lparr>st_processing := False\<rparr>))" for n
    by (rule quiet_trans [OF quiet_fields(5) quiet_set_socket]) simp_all
  have r: "quiet st' (set_bridge d (snd (bridge_destroy (st_bridges st' ! d))) st')" for d st'
    by (rule quiet_set_bridge) (simp add: bridge_destroy_def)
  show "quiet st (disconnect st)"
    using q r unfolding disconnect_def Let_def case_prod_beta
    by (auto simp: quiet_def answers_def post_request_def set_bridge_def split: option.splits)
qed

lemma safe_onclose: "safe st (onclose n st)"
  using quiet_set_socket [of "\<lambda>s. s\<lparr>so_state := SocketClosed\<rparr>" st n] quiet_safe
  by (simp add: onclose_def quiet_def answers_def)

lemma safe_worker_error: "safe st (worker_error d st)"
  by (simp add: worker_error_def)

lemma safe_handleWorkerError: "safe st (handleWorkerError d st)"
  by (simp add: handleWorkerError_def)

lemma safe_message: "safe st (handleWebSocketMessage now dat st)"
proof -
  have q: "quiet a (processQueue b)" if "quiet a b" for a b
    using quiet_trans [OF that] quiet_trans [OF quiet_fields(5) quiet_pump] by (simp add: processQueue_def that)
  have u: "quiet a (updateDataRate now b)" if "quiet a b" for a b
    using that by (simp add: updateDataRate_def Let_def quiet_def answers_def)
  show ?thesis
    by (cases dat) (auto intro!: quiet_safe u q simp: handleWebSocketMessage_def quiet_def [of st "_\<lparr>st_queue := _\<rparr>"] answers_def,
      simp_all add: quiet_def answers_def)
qed

lemma safe_blob_read: "safe st (blob_read st)"
proof (cases "st_blobs st")
  case (Cons r rest)
  obtain dat ts where r: "r = (dat, ts)" by fastforce
  let ?st1 = "st\<lparr>st_blobs := rest\<rparr>"
  have "quiet st (pump (handleError ?st1))"
    by (rule quiet_trans [OF quiet_fields(7) quiet_trans [OF quiet_fields(1) quiet_pump]])
  moreover have "quiet st (snd (decode_packet b dat ts ?st1))" for b
    by (rule quiet_trans [OF quiet_fields(7) quiet_decode_packet])
  ultimately show ?thesis using Cons r quiet_trans [OF _ quiet_pump]
    by (auto simp: blob_read_def case_prod_beta Let_def intro!: quiet_safe split: option.splits)
qed (simp add: blob_read_def)

lemma connect_ok: "answers_ok st \<Longrightarrow> answers_ok (connect accepted st)"
  "st_bridges (connect accepted st) = st_bridges st"
  by (auto simp: connect_def Let_def handleError_def answers_ok_def answers_def answer_ok_def ready_def)

lemma start_decoder_ok: "answers_ok st \<Longrightarrow> answers_ok (start_decoder mw why n codec audio st)"
  "ready (start_decoder mw why n codec audio st) = ready st"
  "\<not> mw \<Longrightarrow> length (st_bridges (start_decoder mw why n codec audio st)) = length (st_bridges st)"
proof -
  have "answers (start_decoder True why n codec audio st) = answers st"
    and r: "ready (start_decoder True why n codec audio st) = ready st"
    by (simp_all add: start_decoder_def Let_def post_request_def answers_def ready_def bridge_init_def new_bridge_def)
  then have a: "answers_ok st \<Longrightarrow> answers_ok (start_decoder True why n codec audio st)"
    by (simp add: answers_ok_def)
  have s: "safe st (start_decoder False why n codec audio st)"
    by (simp add: start_decoder_def safe_reject)
  show "answers_ok st \<Longrightarrow> answers_ok (start_decoder mw why n codec audio st)"
    using a s by (cases mw) (simp_all add: safe_def)
  show "ready (start_decoder mw why n codec audio st) = ready st"
    using r safe_ready [OF s] by (cases mw) simp_all
  show "\<not> mw \<Longrightarrow> length (st_bridges (start_decoder mw why n codec audio st)) = length (st_bridges st)"
    using safe_bridges [OF s] by simp
qed

text \<open>The events that make a worker, and the ones that make it ready.\<close>

definition makes_decoder :: "int \<times> js_string \<times> client_event \<Rightarrow> bool" where
  "makes_decoder e = (case e of (now, why, Message mw n (TextData t)) \<Rightarrow> mw \<and> (case read_offer t of Offered _ _ \<Rightarrow> True | _ \<Rightarrow> False)
     | _ \<Rightarrow> False)"

definition makes_ready :: "int \<times> js_string \<times> client_event \<Rightarrow> bool" where
  "makes_ready e = (case e of (now, why, WorkerReady d) \<Rightarrow> True | _ \<Rightarrow> False)"

definition stepped :: "bool \<Rightarrow> bool \<Rightarrow> stream \<Rightarrow> stream \<Rightarrow> bool" where
  "stepped m r st st' \<longleftrightarrow> (answers_ok st \<longrightarrow> answers_ok st') \<and> (ready st' \<longrightarrow> ready st \<or> r)
     \<and> (length (st_bridges st') = length (st_bridges st) \<or> m)"

lemma safe_stepped: "safe st st' \<Longrightarrow> stepped m r st st'"
  using safe_ready safe_bridges by (auto simp: safe_def stepped_def)

lemma settle_stepped: "stepped m (r \<or> p = Fulfilled) st (settle_bridge now why p d st)"
  using settle_bridge_ok [of st now why p d] by (auto simp: stepped_def)

lemma stepped_trans: "stepped m r a b \<Longrightarrow> stepped m' r' b c \<Longrightarrow> stepped (m \<or> m') (r \<or> r') a c"
proof -
  assume "stepped m r a b" "stepped m' r' b c"
  then have "answers_ok a \<longrightarrow> answers_ok c" "ready c \<longrightarrow> ready a \<or> r \<or> r'"
    "length (st_bridges c) = length (st_bridges a) \<or> m \<or> m'"
    unfolding stepped_def by auto
  then show ?thesis unfolding stepped_def by simp
qed

lemma step_stepped: "stepped (makes_decoder e) (makes_ready e) st (client_step e st)"
proof -
  obtain now why ev where e: "e = (now, why, ev)" by (cases e)
  show ?thesis
  proof (cases ev)
    case (Connect accepted)
    then show ?thesis using e connect_ok by (simp add: stepped_def ready_def)
  next
    case Disconnect
    then show ?thesis using e by (simp add: safe_stepped safe_disconnect)
  next
    case (SocketOpens n)
    have "quiet st (set_socket n (\<lambda>s. s\<lparr>so_state := SocketOpen\<rparr>) st)" by (rule quiet_set_socket) simp_all
    then show ?thesis using e SocketOpens by (simp add: safe_stepped quiet_safe)
  next
    case (Message mw n dat)
    have m: "stepped m r st (handleWebSocketMessage now dat st)" for m r by (rule safe_stepped [OF safe_message])
    have "stepped (makes_decoder e) (makes_ready e) st (start_decoder mw why n codec audio st)"
      if "dat = TextData t" "read_offer t = Offered codec audio" for t codec audio
      using e Message that by (cases mw) (simp_all add: makes_decoder_def stepped_def start_decoder_ok)
    then have "stepped (makes_decoder e) (makes_ready e) st (onmessage now why mw n dat st)"
      using m by (cases dat; cases "so_negotiated (st_sockets st ! n)")
        (simp_all add: onmessage_def safe_stepped split: offer_reaction.splits)
    then show ?thesis using e Message safe_stepped [OF safe_refl] by simp
  next
    case (SocketFails n)
    then show ?thesis using e by (simp add: safe_stepped quiet_safe quiet_fail_connect)
  next
    case (SocketCloses n)
    then show ?thesis using e by (simp add: safe_stepped safe_onclose)
  next
    case (WorkerReady d)
    then show ?thesis using e settle_stepped [of _ "makes_ready e" Fulfilled st now why d] by (simp add: makes_ready_def)
  next
    case (WorkerFails d)
    have "stepped m r st (settle_bridge now why Failed d (worker_error d st))" for m r
      using stepped_trans [OF safe_stepped [OF safe_worker_error] settle_stepped [of m r Failed "worker_error d st" now why d], of m r]
      by simp
    then show ?thesis using e WorkerFails by (simp add: safe_stepped)
  next
    case (WorkerThrows d)
    then show ?thesis using e by (simp add: safe_stepped safe_handleWorkerError)
  next
    case (InitTimeout d)
    then show ?thesis using e settle_stepped [of _ "makes_ready e" Failed st now why d] by simp
  next
    case (WorkerEnds d)
    have "quiet st (set_bridge d (bridge_terminate (st_bridges st ! d)) st)"
      by (rule quiet_set_bridge) (simp add: bridge_terminate_def)
    then show ?thesis using e WorkerEnds by (simp add: safe_stepped quiet_safe)
  next
    case BlobRead
    then show ?thesis using e by (simp add: safe_stepped safe_blob_read)
  qed
qed

lemma run_stepped: "stepped (list_ex makes_decoder es) (list_ex makes_ready es) st (client_run es st)"
proof (induction es arbitrary: st)
  case (Cons e es)
  have "client_run (e # es) st = client_run es (client_step e st)" by (simp add: client_run_def)
  then show ?case using stepped_trans [OF step_stepped [of e st] Cons.IH [of "client_step e st"]] by simp
qed (simp add: client_run_def safe_stepped)

text \<open>C12: accepting an offer: whatever the page, the socket and the workers do, a stream sends nothing but
  answers to offers, and it accepts one, or counts a socket as negotiated, only after a message
  that is an offer, for which a worker could be made, and after a worker has reported that it is
  ready.\<close>

theorem accepts_only_when_ready:
  assumes "s \<in> set (st_sockets (client_run es (new_stream config)))"
  shows "set (so_sent s) \<subseteq> insert accepting_answer (range rejecting_answer)
    \<and> (\<not> so_negotiated s \<and> accepting_answer \<notin> set (so_sent s) \<or> list_ex makes_decoder es \<and> list_ex makes_ready es)"
proof -
  let ?st = "client_run es (new_stream config)"
  have new: "answers_ok (new_stream config)" "\<not> ready (new_stream config)" "st_bridges (new_stream config) = []"
    by (simp_all add: new_stream_def answers_ok_def answers_def ready_def)
  have r: "answers_ok ?st" "ready ?st \<longrightarrow> list_ex makes_ready es" "st_bridges ?st = [] \<or> list_ex makes_decoder es"
    using run_stepped [of es "new_stream config"] new by (auto simp: stepped_def)
  have "ready ?st \<longrightarrow> st_bridges ?st \<noteq> []" by (auto simp: ready_def)
  moreover have "answer_ok (ready ?st) (so_negotiated s, so_sent s)"
    using r(1) assms by (auto simp: answers_ok_def answers_def list_all_iff)
  ultimately show ?thesis using r(2,3) by (auto simp: answer_ok_def)
qed

text \<open>A socket that has accepted: its offer came, and its worker was ready.\<close>

definition sample_accept :: "(int \<times> js_string \<times> client_event) list" where
  "sample_accept = [(0, [], Connect True), (1, [], SocketOpens 0), (2, [], Message True 0 (TextData small_offer)), (3, [], WorkerReady 0)]"

lemma sample_accepts:
  "st_sockets (client_run sample_accept (new_stream None))
    = [\<lparr>so_state = SocketOpen, so_negotiated = True, so_sent = [accepting_answer], so_promise = Fulfilled\<rparr>]"
  by (simp add: sample_accept_def client_run_def connect_def new_stream_def set_socket_def onmessage_def start_decoder_def bridge_init_def
      new_bridge_def post_request_def settle_bridge_def set_bridge_def resume_def decoder_ready_def accept_offer_def ws_send_def
      settle_socket_def small_offer_read)

theorem accepts_only_when_ready_witness:
  "\<exists>s. st_sockets (client_run sample_accept (new_stream None)) = [s] \<and> so_negotiated s
    \<and> list_ex makes_decoder sample_accept \<and> list_ex makes_ready sample_accept"
  using accepts_only_when_ready [of "st_sockets (client_run sample_accept (new_stream None)) ! 0" sample_accept None]
  by (simp add: sample_accepts)

end
