(* ===== verification/NegotiationText.thy ===== *)
theory NegotiationText
  imports Offer VideoServer
begin

text \<open>
  The media offer of src/server/main.cpp as a text: it is a JSON object, and the browser reads from
  it what the server plays.
\<close>

definition audio_names :: "byte list list" where
  "audio_names = [str ''aac'', str ''pcm_alaw'', str ''pcm_mulaw'', str ''g726'']"

text \<open>What is offered: the audio stream of an MP4 file, if there is one, and the frame rate. The
  numbers are such that the offer fits its buffer of 512 characters.\<close>

definition offers_audio :: "'s video_server_scheme \<Rightarrow> bool" where
  "offers_audio st \<longleftrightarrow> mp4Mode st \<and> a_present (audioInfo (mp4Demuxer st))"

definition offer_ok :: "'s video_server_scheme \<Rightarrow> bool" where
  "offer_ok st \<longleftrightarrow> 0 < frameIntervalMs st \<and> 1000 / frameIntervalMs st < 10 ^ 9
     \<and> (let a = audioInfo (mp4Demuxer st) in offers_audio st \<longrightarrow> a_codecName a \<in> set audio_names
          \<and> 0 \<le> a_sampleRate a \<and> a_sampleRate a < 10 ^ 10 \<and> 0 \<le> a_channels a \<and> a_channels a < 10 ^ 10)"

section \<open>The text of the offer\<close>

text \<open>The frame rate in hundredths.\<close>

definition offer_rate :: "'s video_server_scheme \<Rightarrow> nat" where
  "offer_rate st = nat (round (1000 / frameIntervalMs st * 100))"

definition rate_digits :: "nat \<Rightarrow> js_string" where
  "rate_digits h = [48 + h mod 100 div 10, 48 + h mod 10]"

definition video_members :: "'s video_server_scheme \<Rightarrow> (js_string \<times> js_string \<times> json) list" where
  "video_members st =
    [(js ''type'', quoted (js ''video''), JString (js ''video'')),
     (js ''codec'', quoted (js (if h265 st then ''h265'' else ''h264'')), JString (js (if h265 st then ''h265'' else ''h264''))),
     (js ''framerate'', decimals (offer_rate st div 100) @ 46 # rate_digits (offer_rate st),
        JNumber (of_nat (offer_rate st div 100) + of_nat (dec_value (rate_digits (offer_rate st))) / 10 ^ 2))]"

definition audio_members :: "AudioInfo \<Rightarrow> (js_string \<times> js_string \<times> json) list" where
  "audio_members a =
    [(js ''type'', quoted (js ''audio''), JString (js ''audio'')),
     (js ''codec'', quoted (map unat (a_codecName a)), JString (map unat (a_codecName a))),
     (js ''sampleRate'', decimals (nat (a_sampleRate a)), JNumber (of_nat (nat (a_sampleRate a)))),
     (js ''channels'', decimals (nat (a_channels a)), JNumber (of_nat (nat (a_channels a))))]"

definition names :: "(js_string \<times> js_string \<times> json) list \<Rightarrow> (js_string \<times> js_string) list" where
  "names = map (\<lambda>(k, s, v). (k, s))"

definition members :: "(js_string \<times> js_string \<times> json) list \<Rightarrow> (js_string \<times> json) list" where
  "members = map (\<lambda>(k, s, v). (k, v))"

definition offer_elements :: "'s video_server_scheme \<Rightarrow> (js_string \<times> json) list" where
  "offer_elements st = (object_text (names (video_members st)), JObject (members (video_members st)))
     # (if offers_audio st then [(object_text (names (audio_members (audioInfo (mp4Demuxer st)))),
          JObject (members (audio_members (audioInfo (mp4Demuxer st)))))] else [])"

definition payload_members :: "'s video_server_scheme \<Rightarrow> (js_string \<times> js_string \<times> json) list" where
  "payload_members st = [(js ''version'', decimals 1, JNumber (of_nat 1)),
     (js ''streams'', array_text (map fst (offer_elements st)), JArray (map snd (offer_elements st)))]"

definition offer_members :: "'s video_server_scheme \<Rightarrow> (js_string \<times> js_string \<times> json) list" where
  "offer_members st = [(js ''type'', quoted (js ''media-offer''), JString (js ''media-offer'')),
     (js ''payload'', object_text (names (payload_members st)), JObject (members (payload_members st)))]"

lemma reads_members:
  "list_all (\<lambda>(k, s, v). plain k \<and> reads_as s v) ms \<Longrightarrow> reads_as (object_text (names ms)) (JObject (members ms))"
  unfolding names_def members_def by (rule reads_object)

lemma plain_literal: "list_all (\<lambda>c. 32 \<le> (of_char c :: nat) \<and> of_char c \<noteq> (34 :: nat) \<and> of_char c \<noteq> (92 :: nat)) s \<Longrightarrow> plain (js s)"
  by (simp add: plain_def js_def list_all_iff)

lemma rate_digits_dec: "list_all is_dec (rate_digits h)" "rate_digits h \<noteq> []" "length (rate_digits h) = 2"
proof -
  have "h mod 100 div 10 < 10" by (simp add: less_mult_imp_div_less)
  then show "list_all is_dec (rate_digits h)" by (simp add: rate_digits_def is_dec_def)
qed (simp_all add: rate_digits_def)

lemma reads_video: "reads_as (object_text (names (video_members st))) (JObject (members (video_members st)))"
  using reads_fraction [OF rate_digits_dec(1,2), of "offer_rate st div 100" "offer_rate st"]
  by (intro reads_members) (simp add: video_members_def reads_quoted plain_literal rate_digits_dec(3))

lemma names_plain: "name \<in> set audio_names \<Longrightarrow> plain (map unat name)"
  by (auto simp: audio_names_def plain_def str_def)

lemma reads_audio:
  "a_codecName a \<in> set audio_names \<Longrightarrow> reads_as (object_text (names (audio_members a))) (JObject (members (audio_members a)))"
  by (intro reads_members) (simp add: audio_members_def reads_quoted plain_literal reads_decimals names_plain)

lemma reads_offer:
  assumes "offer_ok st"
  shows "reads_as (object_text (names (offer_members st))) (JObject (members (offer_members st)))"
proof -
  have es: "list_all (\<lambda>(s, v). reads_as s v) (offer_elements st)"
    using assms by (simp add: offer_elements_def reads_video reads_audio offer_ok_def Let_def)
  have "reads_as (object_text (names (payload_members st))) (JObject (members (payload_members st)))"
    using reads_array [OF es] reads_decimals [of 1]
    by (intro reads_members) (simp add: payload_members_def plain_literal)
  then show ?thesis by (intro reads_members) (simp add: offer_members_def reads_quoted plain_literal)
qed

section \<open>The server writes this text\<close>

lemma unat_of_char: "unat (of_char c :: byte) = of_char c"
proof -
  have "(of_char c :: byte) = of_nat (of_char c)" by (simp add: of_nat_of_char)
  then have "unat (of_char c :: byte) = of_char c mod 256" by (simp only: unat_of_nat) (simp add: take_bit_eq_mod)
  also have "\<dots> = of_char c" by simp
  finally show ?thesis .
qed

lemma unat_str: "map unat (str s) = js s"
  by (simp add: str_def js_def unat_of_char)

lemma byte_digit: "k < 10 \<Longrightarrow> unat (of_int (48 + int k) :: byte) = 48 + k"
  using unat_digit [of k] by simp

lemma offer_rate_bytes:
  assumes "0 < frameIntervalMs st"
  shows "map unat (printf_2f (1000 / frameIntervalMs st)) = decimals (offer_rate st div 100) @ 46 # rate_digits (offer_rate st)"
proof -
  let ?h = "round (1000 / frameIntervalMs st * 100)"
  have pos: "0 < 1000 / frameIntervalMs st" using assms by simp
  then have h: "0 \<le> ?h" by (metis of_int_0_le_iff round_mono round_0 mult_nonneg_nonneg less_imp_le zero_le_numeral)
  have hn: "?h = int (offer_rate st)" using h by (simp add: offer_rate_def)
  have d: "?h mod 100 div 10 = int (offer_rate st mod 100 div 10)" "?h mod 10 = int (offer_rate st mod 10)"
    "nat (?h div 100) = offer_rate st div 100"
    unfolding hn by (simp_all add: zmod_int zdiv_int nat_div_distrib)
  have lt: "offer_rate st mod 100 div 10 < 10" "offer_rate st mod 10 < 10" by (simp_all add: less_mult_imp_div_less)
  have "printf_2f (1000 / frameIntervalMs st) = digits (offer_rate st div 100) @ str ''.''
      @ [of_int (48 + int (offer_rate st mod 100 div 10)), of_int (48 + int (offer_rate st mod 10))]"
    using pos d by (simp add: printf_2f_def Let_def abs_of_pos)
  then have "map unat (printf_2f (1000 / frameIntervalMs st)) = decimals (offer_rate st div 100) @ map unat (str ''.'')
      @ [unat (of_int (48 + int (offer_rate st mod 100 div 10)) :: byte), unat (of_int (48 + int (offer_rate st mod 10)) :: byte)]"
    by (simp only: decimals_def map_append list.map)
  also have "map unat (str ''.'') = [46]" by (simp add: unat_str js_def)
  finally show ?thesis
    unfolding byte_digit [OF lt(1)] byte_digit [OF lt(2)] rate_digits_def by simp
qed

lemma offer_rate_bound:
  assumes "offer_ok st"
  shows "offer_rate st div 100 < 10 ^ 10"
proof -
  let ?x = "1000 / frameIntervalMs st"
  have "?x * 100 < 10 ^ 11" using assms by (simp add: offer_ok_def)
  then have "?x * 100 \<le> of_int (10 ^ 11)" by simp
  then have "round (?x * 100) \<le> round (of_int (10 ^ 11) :: rat)" by (rule round_mono)
  then have "round (?x * 100) \<le> 10 ^ 11" by (simp only: round_of_int)
  then have "offer_rate st \<le> 10 ^ 11" by (simp add: offer_rate_def)
  then have "offer_rate st div 100 \<le> 10 ^ 11 div 100" by (rule div_le_mono)
  also have "\<dots> < (10 ^ 10 :: nat)" by simp
  finally show ?thesis .
qed

lemma length_digits_10: "n < 10 ^ 10 \<Longrightarrow> length (digits n) \<le> 10"
  using length_digits_le [of n 9] by simp

text \<open>The offer before it is cut to the size of the buffer.\<close>

definition full_offer :: "'s video_server_scheme \<Rightarrow> byte list" where
  "full_offer st =
     str ''{\"type\":\"media-offer\",\"payload\":{\"version\":1,\"streams\":[''
     @ str ''{\"type\":\"video\",\"codec\":\"'' @ (if h265 st then str ''h265'' else str ''h264'')
     @ str ''\",\"framerate\":'' @ printf_2f (1000 / frameIntervalMs st) @ str ''}''
     @ (if offers_audio st then
          str '',{\"type\":\"audio\",\"codec\":\"'' @ a_codecName (audioInfo (mp4Demuxer st)) @ str ''\",\"sampleRate\":''
          @ printf_d (a_sampleRate (audioInfo (mp4Demuxer st))) @ str '',\"channels\":''
          @ printf_d (a_channels (audioInfo (mp4Demuxer st))) @ str ''}''
        else [])
     @ str '']}}''"

lemma BuildMediaOffer_full:
  assumes "offer_ok st"
  shows "BuildMediaOffer st = full_offer st"
proof -
  have rate: "length (printf_2f (1000 / frameIntervalMs st)) \<le> 13"
    using arg_cong [OF offer_rate_bytes, of st length] assms length_digits_10 [OF offer_rate_bound [OF assms]]
    by (simp add: offer_ok_def decimals_def rate_digits_def)
  have num: "length (printf_d i) \<le> 10" if "0 \<le> i" "i < 10 ^ 10" for i
    using that length_digits_10 [of "nat i"] by (simp add: printf_d_def nat_less_iff)
  have name: "length n \<le> 9" if "n \<in> set audio_names" for n using that by (auto simp: audio_names_def str_def)
  have audio: "length (a_codecName (audioInfo (mp4Demuxer st))) \<le> 9"
    "length (printf_d (a_sampleRate (audioInfo (mp4Demuxer st)))) \<le> 10"
    "length (printf_d (a_channels (audioInfo (mp4Demuxer st)))) \<le> 10" if "offers_audio st"
    using assms that name num by (simp_all add: offer_ok_def Let_def)
  have lit: "length (str s) = length s" for s by (simp add: str_def)
  have "length (full_offer st) \<le> 511"
  proof (cases "offers_audio st")
    case True
    then show ?thesis using rate audio [OF True] unfolding full_offer_def length_append lit if_distrib [of length] by simp
  next
    case False
    then show ?thesis using rate unfolding full_offer_def length_append lit if_distrib [of length] by simp
  qed
  moreover have "BuildMediaOffer st = take 511 (full_offer st)"
    unfolding BuildMediaOffer_def full_offer_def Let_def offers_audio_def ..
  ultimately show ?thesis by simp
qed

lemma js_append: "js a @ js b = js (a @ b)"
  by (simp add: js_def)

lemma printf_d_bytes: "0 \<le> i \<Longrightarrow> map unat (printf_d i) = decimals (nat i)"
  by (simp add: printf_d_def decimals_def)

lemma offer_text:
  assumes "offer_ok st"
  shows "map unat (BuildMediaOffer st) = object_text (names (offer_members st))"
proof -
  have pos: "0 < frameIntervalMs st" using assms by (simp add: offer_ok_def)
  have one: "decimals 1 = [49]" by (simp add: decimals_def digits.simps)
  have codec: "map unat (if h265 st then str ''h265'' else str ''h264'') = js (if h265 st then ''h265'' else ''h264'')"
    by (simp add: unat_str)
  show ?thesis
  proof (cases "offers_audio st")
    case True
    then have a: "0 \<le> a_sampleRate (audioInfo (mp4Demuxer st))" "0 \<le> a_channels (audioInfo (mp4Demuxer st))"
      using assms by (simp_all add: offer_ok_def Let_def)
    show ?thesis
      unfolding BuildMediaOffer_full [OF assms] full_offer_def if_P [OF True] map_append unat_str codec
        offer_rate_bytes [OF pos] printf_d_bytes [OF a(1)] printf_d_bytes [OF a(2)]
      by (simp add: offer_members_def payload_members_def offer_elements_def True video_members_def audio_members_def
          names_def object_text_def array_text_def quoted_def one one [unfolded One_nat_def] js_def)
  next
    case False
    show ?thesis
      unfolding BuildMediaOffer_full [OF assms] full_offer_def if_not_P [OF False] map_append unat_str codec
        offer_rate_bytes [OF pos]
      by (simp add: offer_members_def payload_members_def offer_elements_def False video_members_def
          names_def object_text_def array_text_def quoted_def one one [unfolded One_nat_def] js_def)
  qed
qed

section \<open>The browser reads it\<close>

text \<open>The browser's name for each of the server's audio codecs.\<close>

definition browser_name :: "byte list \<Rightarrow> js_string" where
  "browser_name n = (if n = str ''pcm_alaw'' then js ''g711a'' else if n = str ''pcm_mulaw'' then js ''g711u''
     else if n = str ''g726'' then js ''g726'' else js ''aac'')"

definition offered_audio :: "AudioInfo \<Rightarrow> audio_config" where
  "offered_audio a = \<lparr>audioCodecType = browser_name (a_codecName a),
     ac_sampleRate = JNumber (if a_sampleRate a = 0 then 44100 else of_int (a_sampleRate a)),
     ac_channels = JNumber (if a_channels a = 0 then 2 else of_int (a_channels a))\<rparr>"

lemma prop_simps:
  "get_prop (JObject (members (offer_members st))) (js ''type'') = Some (JString (js ''media-offer''))"
  "get_prop (JObject (members (offer_members st))) (js ''payload'') = Some (JObject (members (payload_members st)))"
  "get_prop (JObject (members (payload_members st))) (js ''streams'') = Some (JArray (map snd (offer_elements st)))"
  "get_prop (JObject (members (video_members st))) (js ''type'') = Some (JString (js ''video''))"
  "get_prop (JObject (members (video_members st))) (js ''codec'') = Some (JString (js (if h265 st then ''h265'' else ''h264'')))"
  "get_prop (JObject (members (audio_members a))) (js ''type'') = Some (JString (js ''audio''))"
  "get_prop (JObject (members (audio_members a))) (js ''codec'') = Some (JString (map unat (a_codecName a)))"
  "get_prop (JObject (members (audio_members a))) (js ''sampleRate'') = Some (JNumber (of_nat (nat (a_sampleRate a))))"
  "get_prop (JObject (members (audio_members a))) (js ''channels'') = Some (JNumber (of_nat (nat (a_channels a))))"
  by (simp_all add: get_prop_def members_def offer_members_def payload_members_def video_members_def audio_members_def js_def)

lemma codec_read: "n \<in> set audio_names \<Longrightarrow> audioCodecMap (map unat n) = Some (browser_name n)"
  by (auto simp: audio_names_def unat_str) (simp_all add: audioCodecMap_def browser_name_def js_def str_def)

lemma audio_read:
  assumes "a_codecName a \<in> set audio_names" "0 \<le> a_sampleRate a" "0 \<le> a_channels a"
  shows "audio_config_of (JObject (members (audio_members a))) = Some (offered_audio a)"
  using assms by (auto simp: audio_config_of_def prop_simps codec_read offered_audio_def or_else_def truthy_def of_nat_nat)

lemma offer_ascii:
  assumes "offer_ok st"
  shows "list_all (\<lambda>b. unat b < 128) (BuildMediaOffer st)"
proof -
  have dec: "list_all (\<lambda>c. c < 128) (decimals n)" "list_all (\<lambda>c. c < 128) (rate_digits n)" for n
    using decimals_dec [of n] rate_digits_dec(1) [of n] by (auto simp: list_all_iff is_dec_def)
  have name: "n \<in> set audio_names \<Longrightarrow> list_all (\<lambda>c. c < 128) (map unat n)" for n
    by (auto simp: audio_names_def str_def)
  have "list_all (\<lambda>c. c < 128) (object_text (names (offer_members st)))"
    using assms dec name by (simp add: offer_ok_def Let_def names_def offer_members_def payload_members_def
        offer_elements_def video_members_def audio_members_def object_text_def array_text_def quoted_def js_def)
  then show ?thesis
    unfolding offer_text [OF assms, symmetric] by (simp add: list_all_iff)
qed

lemma offer_read:
  assumes "offer_ok st" and "utf8_encode t = BuildMediaOffer st" and "list_all (\<lambda>c. c < 65536) t"
  shows "read_offer t = Offered (JString (js (if h265 st then ''h265'' else ''h264'')))
    (if offers_audio st then Some (offered_audio (audioInfo (mp4Demuxer st))) else None)"
proof -
  have t: "t = object_text (names (offer_members st))"
    using utf8_ascii_inverse [OF assms(2) _ assms(3)] offer_ascii [OF assms(1)] offer_text [OF assms(1)] by simp
  have parse: "JSON_parse t = Some (JObject (members (offer_members st)))"
    unfolding t by (rule JSON_parse_text [OF reads_offer [OF assms(1)]])
  have streams: "offer_streams (JObject (members (offer_members st))) = Some (map snd (offer_elements st))"
    by (simp add: offer_streams_def prop_simps or_else_def truthy_def)
  have ne: "js ''video'' \<noteq> js ''audio''" by (simp add: js_def)
  have found: "find_stream (js ''video'') (map snd (offer_elements st)) = Some (Some (JObject (members (video_members st))))"
    "find_stream (js ''audio'') (map snd (offer_elements st)) = Some (if offers_audio st
      then Some (JObject (members (audio_members (audioInfo (mp4Demuxer st))))) else None)"
    using ne by (simp_all add: offer_elements_def prop_simps)
  have codec: "or_else (Some (JString (js (if h265 st then ''h265'' else ''h264'')))) x
      = JString (js (if h265 st then ''h265'' else ''h264''))" for x
    by (simp add: or_else_def truthy_def js_def)
  have audio: "offers_audio st \<Longrightarrow> audio_config_of (JObject (members (audio_members (audioInfo (mp4Demuxer st)))))
      = Some (offered_audio (audioInfo (mp4Demuxer st)))"
    using assms(1) by (intro audio_read) (simp_all add: offer_ok_def Let_def)
  show ?thesis
    by (simp add: read_offer_def parse prop_simps streams found codec audio split del: if_split)
      (simp add: audio)
qed

end
