(* ===== verification/BrowserLink.thy ===== *)
theory BrowserLink
  imports NegotiationText ServerReceive ServerSamples StreamClient
begin

text \<open>
  The negotiation between the two ends: the server of src/server/main.cpp and a stream of the
  browser, src/js/stream/StreamInstance.ts, which speak through WebSocket text messages.
\<close>

section \<open>The browser's part\<close>

text \<open>A page connects, the socket opens, the offer arrives, and the worker of the decoder reports
  that it is ready or that it failed; \<open>why\<close> is the text of that error.\<close>

definition negotiation_events :: "int \<Rightarrow> js_string \<Rightarrow> js_string \<Rightarrow> bool \<Rightarrow> (int \<times> js_string \<times> client_event) list" where
  "negotiation_events now why t works = [(now, why, Connect True), (now, why, SocketOpens 0), (now, why, Message True 0 (TextData t)),
     (now, why, if works then WorkerReady 0 else WorkerFails 0)]"

definition negotiated :: "int \<Rightarrow> js_string \<Rightarrow> js_string \<Rightarrow> bool \<Rightarrow> (int option \<times> int option) option \<Rightarrow> stream" where
  "negotiated now why t works config = client_run (negotiation_events now why t works) (new_stream config)"

lemma browser_answers:
  assumes "read_offer t = Offered codec audio"
  shows "st_sockets (negotiated now why t works config) = [\<lparr>so_state = SocketOpen, so_negotiated = works,
      so_sent = [if works then accepting_answer else rejecting_answer why], so_promise = if works then Fulfilled else Failed\<rparr>]"
    and "st_status (negotiated now why t works config) = (if works then Connected else Error)"
    and "st_posted (negotiated now why t works config) = (0, InitRequest codec) #
      (case audio of None \<Rightarrow> [] | Some cfg \<Rightarrow> if works then [(0, InitAudioRequest cfg)] else [])"
  using assms by (cases works; cases audio; simp add: negotiated_def negotiation_events_def client_run_def connect_def new_stream_def
      set_socket_def onmessage_def start_decoder_def bridge_init_def new_bridge_def post_request_def settle_bridge_def set_bridge_def
      resume_def decoder_ready_def accept_offer_def reject_offer_def ws_send_def settle_socket_def worker_error_def handleError_def
      fail_connect_def bridge_request_def after_init_def)+

text \<open>The answer as the browser sends it: a masked text frame.\<close>

definition answer_frame :: "byte list \<Rightarrow> js_string \<Rightarrow> byte list" where
  "answer_frame mkey t = ws_encode True (WsOpcode_code TEXT) (Some mkey) (utf8_encode t)"

lemma answer_frame_bound:
  assumes "length (utf8_encode t) < 2 ^ 62" and "length mkey = 4"
  shows "length (answer_frame mkey t) < 2 ^ 63"
proof -
  have "length (len_ext_of n) \<le> 8" for n by simp
  from this [of "length (utf8_encode t)"] show ?thesis
    using assms by (simp add: answer_frame_def length_ws_encode length_ws_header ws_key_ok_def)
qed

section \<open>Both ends\<close>

text \<open>C6: the negotiation: when the offer of the server reaches the browser and its answer reaches the
  server, both ends agree. If the decoder of the browser starts, it gets the codec and
  the audio format of the server's file, the stream of the browser is connected and the connection of the
  server streams; if it fails, the stream of the browser is in error and the server closes
  the connection behind a close frame with code 1000.\<close>

theorem negotiation_agrees:
  assumes "offer_ok st" and "utf8_encode t = BuildMediaOffer st" "list_all (\<lambda>c. c < 65536) t"
    and "get_conn fd st = Some c" "c_state c = NEGOTIATING" "recvBuffer c = []" and "link_up env fd st"
    and "length mkey = 4" and "length (utf8_encode (rejecting_answer why)) < 2 ^ 62"
    and "page = negotiated now why t works config"
  shows "\<exists>answer. map so_sent (st_sockets page) = [[answer]] \<and> map so_negotiated (st_sockets page) = [works]
    \<and> st_status page = (if works then Connected else Error)
    \<and> st_posted page = (0, InitRequest (JString (js (if h265 st then ''h265'' else ''h264'')))) #
        (if works \<and> offers_audio st then [(0, InitAudioRequest (offered_audio (audioInfo (mp4Demuxer st))))] else [])
    \<and> HandleData env fd (answer_frame mkey answer) st = Some
        (if works then set_conn fd (c\<lparr>c_state := STREAMING\<rparr>) st
         else CloseConnection fd ((set_conn fd (c\<lparr>c_state := CLOSING\<rparr>) st)
           \<lparr>ssl_sent := ssl_sent st @ [(fd, CreateCloseFrame 1000 (str ''Negotiation rejected''))]\<rparr>))"
proof -
  let ?answer = "if works then accepting_answer else rejecting_answer why"
  have key: "ws_key_ok (Some mkey)" using assms(8) by (simp add: ws_key_ok_def)
  have "length (utf8_encode accepting_answer) < 2 ^ 62" by (simp add: accepting_bytes str_def)
  then have len: "length (answer_frame mkey ?answer) < 2 ^ 63" using answer_frame_bound assms(8,9) by simp
  have "ExtractJsonString (utf8_encode ?answer) (str ''type'') = str ''media-answer''"
    and acc: "ExtractJsonBool (utf8_encode ?answer) (str ''accepted'') False = works"
    using accepting_read rejecting_read by simp_all
  from answer_effect [OF assms(4-7) key len [unfolded answer_frame_def] this(1)]
  have server: "HandleData env fd (answer_frame mkey ?answer) st = Some
        (if works then set_conn fd (c\<lparr>c_state := STREAMING\<rparr>) st
         else CloseConnection fd ((set_conn fd (c\<lparr>c_state := CLOSING\<rparr>) st)
           \<lparr>ssl_sent := ssl_sent st @ [(fd, CreateCloseFrame 1000 (str ''Negotiation rejected''))]\<rparr>))"
    by (simp add: answer_frame_def acc)
  note browser = browser_answers [OF offer_read [OF assms(1-3)], of now why works config, folded assms(10)]
  show ?thesis using browser server by (intro exI [of _ ?answer]) simp
qed

lemma utf8_bytes:
  assumes "list_all (\<lambda>b. unat b < 128) bs"
  shows "utf8_encode (map unat bs) = bs \<and> list_all (\<lambda>c. c < 65536) (map unat bs)"
proof -
  have "utf8_encode (map unat bs) = bs"
    using assms utf8_ascii [of "map unat bs" "[]"] by (simp add: list_all_iff map_idI)
  moreover have "list_all (\<lambda>c. c < 65536) (map unat bs)" using assms by (fastforce simp: list_all_iff)
  ultimately show ?thesis by simp
qed

theorem negotiation_agrees_witness:
  "\<exists>t. map so_negotiated (st_sockets (negotiated 0 [] t True None)) = [True]
    \<and> HandleData sample_env 7 (answer_frame [1, 2, 3, 4] accepting_answer) (sample_server False (sample_conn NEGOTIATING []))
      = Some (set_conn 7 ((sample_conn NEGOTIATING [])\<lparr>c_state := STREAMING\<rparr>) (sample_server False (sample_conn NEGOTIATING [])))"
proof -
  let ?st = "sample_server False (sample_conn NEGOTIATING [])"
  let ?t = "map unat (BuildMediaOffer ?st)"
  have ok: "offer_ok ?st" by (simp add: offer_ok_def offers_audio_def)
  have t: "utf8_encode ?t = BuildMediaOffer ?st" "list_all (\<lambda>c. c < 65536) ?t"
    by (rule utf8_bytes [OF offer_ascii [OF ok], THEN conjunct1], rule utf8_bytes [OF offer_ascii [OF ok], THEN conjunct2])
  have "utf8_encode (rejecting_answer []) = str ''{\"type\":\"media-answer\",\"payload\":{\"accepted\":false,\"reason\":\"\"}}''"
    using utf8_literal [of "''{\"type\":\"media-answer\",\"payload\":{\"accepted\":false,\"reason\":\"\"}}''" "[]"] by (simp add: rejecting_text json_quote_def js_def)
  then have why: "length (utf8_encode (rejecting_answer [])) < 2 ^ 62" by (simp add: str_def)
  have sent: "map so_sent (st_sockets (negotiated 0 [] ?t True None)) = [[accepting_answer]]"
    using browser_answers(1) [OF offer_read [OF ok t]] by simp
  show ?thesis
    using negotiation_agrees [OF ok t sample_get(1) _ _ sample_link_up _ why refl, of "[1, 2, 3, 4]" 0 True None] sent
    by (intro exI [of _ ?t]) simp
qed

end
